(* ===== verification/Prelude.thy ===== *)
theory Prelude
  imports Main "HOL-Library.AList" "HOL-Library.Word" "HOL-Library.Multiset"
begin

text \<open>
  Shared ground of the development: machine integers of Go (\<open>int\<close> and \<open>int64\<close> are both
  64 bits wide here), slices with their run-time bounds check, Go maps as association
  lists with distinct keys, and the generic lemmas the component theories use.

  Conventions used everywhere:
  \<^item> a Go string is a \<open>string\<close>, one \<open>char\<close> per byte;
  \<^item> a Go map is a \<open>gomap\<close>; the order of the list is one possible iteration order, and
    operations whose result depends on it take the order as an argument;
  \<^item> a run-time panic (index out of range, write to a nil map, send on a closed channel)
    is the value \<open>None\<close> of an option;
  \<^item> an \<open>error\<close> result is the left side of a sum.
\<close>

named_theorems go_simps "unfolding rules for the Go primitives"
named_theorems inv_intros "introduction rules for component invariants"

section \<open>Machine integers\<close>

definition int64_min :: int where "int64_min = - (2 ^ 63)"
definition int64_max :: int where "int64_max = 2 ^ 63 - 1"

definition is_int64 :: "int \<Rightarrow> bool" where
  "is_int64 i \<longleftrightarrow> int64_min \<le> i \<and> i \<le> int64_max"

definition wrap64 :: "int \<Rightarrow> int" where
  "wrap64 i = (i + 2 ^ 63) mod 2 ^ 64 - 2 ^ 63"

lemma wrap64_id [simp]: "is_int64 i \<Longrightarrow> wrap64 i = i"
  by (simp add: wrap64_def is_int64_def int64_min_def int64_max_def)

lemma is_int64_wrap64 [simp]: "is_int64 (wrap64 i)"
proof -
  have "0 \<le> (i + 2 ^ 63) mod (2 ^ 64 :: int)" by (rule pos_mod_sign) simp
  moreover have "(i + 2 ^ 63) mod 2 ^ 64 < (2 ^ 64 :: int)" by (rule pos_mod_bound) simp
  ultimately show ?thesis
    by (simp add: wrap64_def is_int64_def int64_min_def int64_max_def)
qed

lemma is_int64_small: "- (2 ^ 63) \<le> i \<Longrightarrow> i < 2 ^ 63 \<Longrightarrow> is_int64 i"
  by (simp add: is_int64_def int64_min_def int64_max_def)

section \<open>Slices\<close>

text \<open>\<open>xs[i]\<close> and \<open>xs[i] = v\<close>: \<open>None\<close> is the run-time panic "index out of range".\<close>

definition slice_get :: "'a list \<Rightarrow> nat \<Rightarrow> 'a option" where
  "slice_get xs i = (if i < length xs then Some (xs ! i) else None)"

definition slice_set :: "'a list \<Rightarrow> nat \<Rightarrow> 'a \<Rightarrow> 'a list option" where
  "slice_set xs i v = (if i < length xs then Some (xs[i := v]) else None)"

lemma slice_get_in [simp]: "i < length xs \<Longrightarrow> slice_get xs i = Some (xs ! i)"
  by (simp add: slice_get_def)

lemma slice_get_nth_iff: "slice_get xs i = Some x \<longleftrightarrow> i < length xs \<and> xs ! i = x"
  by (simp add: slice_get_def)

lemma slice_set_in [simp]: "i < length xs \<Longrightarrow> slice_set xs i v = Some (xs[i := v])"
  by (simp add: slice_set_def)

lemma those_map_Some:
  "(\<And>i. i \<in> set is \<Longrightarrow> f i = Some (g i)) \<Longrightarrow> those (map f is) = Some (map g is)"
  by (induction "is") auto

text \<open>The last \<open>n\<close> elements of a list, in order.\<close>

definition last_n :: "nat \<Rightarrow> 'a list \<Rightarrow> 'a list" where
  "last_n n xs = drop (length xs - n) xs"

lemma length_last_n [simp]: "length (last_n n xs) = min n (length xs)"
  by (simp add: last_n_def)

lemma last_n_all [simp]: "length xs \<le> n \<Longrightarrow> last_n n xs = xs"
  by (simp add: last_n_def)

lemma last_n_last_n_append: "last_n n (last_n n xs @ ys) = last_n n (xs @ ys)"
proof (cases "length xs \<le> n")
  case False
  then have "length (xs @ ys) - n = length xs - n + length ys" by simp
  then show ?thesis using False by (simp add: last_n_def drop_drop add.commute)
qed simp

lemma last_n_suffix: "\<exists>old. xs = old @ last_n n xs"
  by (metis append_take_drop_id last_n_def)

lemma sorted_wrt_last_n: "sorted_wrt P xs \<Longrightarrow> sorted_wrt P (last_n n xs)"
  unfolding last_n_def by (rule sorted_wrt_drop)

lemma filter_sorted_wrt_drop:
  assumes "sorted_wrt (\<lambda>a b. f a < (f b :: 'b :: linorder)) xs"
  shows "filter (\<lambda>x. v < f x) xs = drop (length (filter (\<lambda>x. f x \<le> v) xs)) xs"
  using assms
proof (induction xs)
  case (Cons x xs)
  show ?case
  proof (cases "v < f x")
    case True
    with Cons.prems have all: "\<forall>y \<in> set xs. v < f y" by force
    then have "filter (\<lambda>y. f y \<le> v) xs = []" by (auto simp: filter_empty_conv)
    with True all show ?thesis by (simp add: not_le [symmetric])
  next
    case False
    with Cons show ?thesis by simp
  qed
qed simp

section \<open>Go maps\<close>

type_synonym ('k, 'v) gomap = "('k \<times> 'v) list"

abbreviation gm_get :: "('k, 'v) gomap \<Rightarrow> 'k \<Rightarrow> 'v option" where
  "gm_get m \<equiv> map_of m"
abbreviation gm_put :: "'k \<Rightarrow> 'v \<Rightarrow> ('k, 'v) gomap \<Rightarrow> ('k, 'v) gomap" where
  "gm_put \<equiv> AList.update"
abbreviation gm_del :: "'k \<Rightarrow> ('k, 'v) gomap \<Rightarrow> ('k, 'v) gomap" where
  "gm_del \<equiv> AList.delete"
abbreviation gm_keys :: "('k, 'v) gomap \<Rightarrow> 'k list" where
  "gm_keys m \<equiv> map fst m"

definition gm_wf :: "('k, 'v) gomap \<Rightarrow> bool" where
  "gm_wf m \<longleftrightarrow> distinct (gm_keys m)"

lemma gm_wf_Nil [simp, inv_intros]: "gm_wf []"
  by (simp add: gm_wf_def)

lemma gm_wf_put [simp, inv_intros]: "gm_wf m \<Longrightarrow> gm_wf (gm_put k v m)"
  by (simp add: gm_wf_def distinct_update)

lemma gm_wf_del [simp, inv_intros]: "gm_wf m \<Longrightarrow> gm_wf (gm_del k m)"
  by (simp add: gm_wf_def distinct_delete)

lemma gm_get_put [simp]: "gm_get (gm_put k v m) k' = (if k' = k then Some v else gm_get m k')"
  by (simp add: update_conv)

lemma gm_get_del [simp]: "gm_get (gm_del k m) k' = (if k' = k then None else gm_get m k')"
  by (simp add: delete_conv)

lemma gm_get_None_iff: "gm_get m k = None \<longleftrightarrow> k \<notin> set (gm_keys m)"
  by (simp add: map_of_eq_None_iff)

lemma gm_wf_in_iff: "gm_wf m \<Longrightarrow> (k, v) \<in> set m \<longleftrightarrow> gm_get m k = Some v"
  by (simp add: gm_wf_def)

lemma gm_values: "gm_wf m \<Longrightarrow> set (map snd m) = {v. \<exists>k. gm_get m k = Some v}"
  by (force simp: gm_wf_in_iff [symmetric] image_iff)

lemma gm_put_subset: "set (gm_put k v m) \<subseteq> insert (k, v) (set m)"
  by (induction m) auto

lemma gm_del_subset: "set (gm_del k m) \<subseteq> set m"
  by (induction m) auto

text \<open>
  An iteration order of a map: any rearrangement of its entries.
\<close>

definition iteration_order :: "('a list \<Rightarrow> 'a list) \<Rightarrow> bool" where
  "iteration_order ord \<longleftrightarrow> (\<forall>xs. mset (ord xs) = mset xs)"

lemma iteration_order_id [simp]: "iteration_order id" "iteration_order (\<lambda>xs. xs)"
  by (simp_all add: iteration_order_def)

lemma iteration_order_rev [simp]: "iteration_order rev"
  by (simp add: iteration_order_def)

lemma iteration_order_set: "iteration_order ord \<Longrightarrow> set (ord xs) = set xs"
  by (metis iteration_order_def set_mset_mset)

lemma iteration_order_distinct: "iteration_order ord \<Longrightarrow> distinct (ord xs) = distinct xs"
  by (metis iteration_order_def mset_eq_imp_distinct_iff)

lemma iteration_order_length: "iteration_order ord \<Longrightarrow> length (ord xs) = length xs"
  by (metis iteration_order_def size_mset)

section \<open>Runs\<close>

text \<open>A sequence of operations on a state, stopping at the first panic.\<close>

primrec fold_opt :: "('a \<Rightarrow> 's \<Rightarrow> 's option) \<Rightarrow> 'a list \<Rightarrow> 's \<Rightarrow> 's option" where
  "fold_opt f [] s = Some s"
| "fold_opt f (x # xs) s = (case f x s of None \<Rightarrow> None | Some s' \<Rightarrow> fold_opt f xs s')"

lemma fold_opt_append:
  "fold_opt f (xs @ ys) s = (case fold_opt f xs s of None \<Rightarrow> None | Some s' \<Rightarrow> fold_opt f ys s')"
  by (induction xs arbitrary: s) (auto split: option.splits)

lemma fold_opt_invariant:
  assumes "\<And>x s s'. x \<in> set xs \<Longrightarrow> I s \<Longrightarrow> f x s = Some s' \<Longrightarrow> I s'"
  shows "I s \<Longrightarrow> fold_opt f xs s = Some s' \<Longrightarrow> I s'"
  using assms
proof (induction xs arbitrary: s)
  case (Cons x xs)
  from Cons.prems(2) obtain s1 where s1: "f x s = Some s1" "fold_opt f xs s1 = Some s'"
    by (auto split: option.splits)
  have "I s1" using Cons.prems(1,3) s1(1) by (metis list.set_intros(1))
  then show ?case using s1(2) Cons.prems(3) by (intro Cons.IH) (auto intro: list.set_intros(2))
qed simp

section \<open>Results\<close>

fun is_ok :: "'e + 'a \<Rightarrow> bool" where
  "is_ok (Inl _) = False"
| "is_ok (Inr _) = True"

end
