(* ===== verification/Go_Text.thy ===== *)
theory Go_Text
  imports Prelude
begin

unbundle bit_operations_syntax

text \<open>
  The parts of Go's \<open>strings\<close>, \<open>strconv\<close> and \<open>hash/fnv\<close> packages that the program
  calls: prefixes, \<open>Split\<close>, \<open>Join\<close>, \<open>TrimSpace\<close>, \<open>Itoa\<close>/\<open>FormatInt\<close>,
  \<open>ParseInt\<close>/\<open>Atoi\<close> and the 32-bit FNV-1a hash. A string is its list of bytes.
\<close>

section \<open>strings\<close>

definition has_prefix :: "string \<Rightarrow> string \<Rightarrow> bool" where
  "has_prefix s p \<longleftrightarrow> take (length p) s = p"

definition trim_prefix :: "string \<Rightarrow> string \<Rightarrow> string" where
  "trim_prefix s p = (if has_prefix s p then drop (length p) s else s)"

lemma has_prefix_append [simp]: "has_prefix (p @ s) p"
  by (simp add: has_prefix_def)

lemma trim_prefix_append [simp]: "trim_prefix (p @ s) p = s"
  by (simp add: trim_prefix_def)

lemma has_prefixE: "has_prefix s p \<Longrightarrow> \<exists>t. s = p @ t"
  by (metis append_take_drop_id has_prefix_def)

text \<open>\<open>strings.Split(s, c)\<close> and \<open>strings.SplitSeq(s, c)\<close> for a one-byte separator.\<close>

fun split_on :: "char \<Rightarrow> string \<Rightarrow> string list" where
  "split_on c [] = [[]]"
| "split_on c (x # xs) =
     (if x = c then [] # split_on c xs
      else (case split_on c xs of [] \<Rightarrow> [[x]] | y # ys \<Rightarrow> (x # y) # ys))"

lemma split_on_not_Nil [simp]: "split_on c s \<noteq> []"
  by (induction s) (auto split: list.splits)

lemma split_on_append_sep:
  "c \<notin> set p \<Longrightarrow> split_on c (p @ c # s) = p # split_on c s"
  by (induction p) auto

lemma split_on_no_sep: "c \<notin> set p \<Longrightarrow> split_on c p = [p]"
  by (induction p) auto

fun join_with :: "string \<Rightarrow> string list \<Rightarrow> string" where
  "join_with sep [] = []"
| "join_with sep [s] = s"
| "join_with sep (s # t # ss) = s @ sep @ join_with sep (t # ss)"

lemma split_on_join:
  "ps \<noteq> [] \<Longrightarrow> \<forall>p \<in> set ps. c \<notin> set p \<Longrightarrow> split_on c (join_with [c] ps) = ps"
proof (induction "[c]" ps rule: join_with.induct)
  case (3 s t ss)
  then show ?case by (simp add: split_on_append_sep)
qed (auto simp: split_on_no_sep)

text \<open>
  \<open>strings.TrimSpace\<close>: white space is \<open>unicode.IsSpace\<close>, read as UTF-8. The length in
  bytes of the white-space character a string begins with, or 0; and the same for the
  reversed string, which is what the end of a string looks like.
\<close>

fun space_len :: "int list \<Rightarrow> nat" where
  "space_len (a # rest) =
     (if a \<in> {9, 10, 11, 12, 13, 32} then 1
      else case rest of [] \<Rightarrow> 0 | b # rest' \<Rightarrow>
        if a = 0xC2 \<and> b \<in> {0x85, 0xA0} then 2
        else case rest' of [] \<Rightarrow> 0 | c # _ \<Rightarrow>
          if a = 0xE1 \<and> b = 0x9A \<and> c = 0x80
             \<or> a = 0xE2 \<and> b = 0x80 \<and> (0x80 \<le> c \<and> c \<le> 0x8A \<or> c \<in> {0xA8, 0xA9, 0xAF})
             \<or> a = 0xE2 \<and> b = 0x81 \<and> c = 0x9F
             \<or> a = 0xE3 \<and> b = 0x80 \<and> c = 0x80 then 3 else 0)"
| "space_len [] = 0"

definition bytes :: "string \<Rightarrow> int list" where
  "bytes s = map of_char s"

definition lead_space :: "string \<Rightarrow> nat" where
  "lead_space s = space_len (bytes (take 3 s))"

definition trail_space :: "string \<Rightarrow> nat" where
  "trail_space r =
     (if space_len (bytes (take 1 r)) = 1 then 1
      else if space_len (bytes (rev (take 2 r))) = 2 then 2
      else if space_len (bytes (rev (take 3 r))) = 3 then 3 else 0)"

function trim_left :: "string \<Rightarrow> string" where
  "trim_left s = (if s = [] \<or> lead_space s = 0 then s else trim_left (drop (lead_space s) s))"
  by pat_completeness auto
termination by (relation "measure length") auto

function trim_rev :: "string \<Rightarrow> string" where
  "trim_rev r = (if r = [] \<or> trail_space r = 0 then r else trim_rev (drop (trail_space r) r))"
  by pat_completeness auto
termination by (relation "measure length") auto

declare trim_left.simps [simp del] trim_rev.simps [simp del]

definition trim_space :: "string \<Rightarrow> string" where
  "trim_space s = rev (trim_rev (rev (trim_left s)))"

lemma trim_left_suffix: "\<exists>p. s = p @ trim_left s"
proof (induction s rule: trim_left.induct)
  case (1 s)
  show ?case
  proof (cases "s = [] \<or> lead_space s = 0")
    case False
    with "1.IH" obtain p where "drop (lead_space s) s = p @ trim_left (drop (lead_space s) s)"
      by blast
    with False show ?thesis
      by (metis append_assoc append_take_drop_id trim_left.simps)
  qed (simp add: trim_left.simps)
qed

section \<open>strconv\<close>

definition digit_char :: "int \<Rightarrow> char" where
  "digit_char d = char_of (48 + d)"

definition is_digit :: "char \<Rightarrow> bool" where
  "is_digit c \<longleftrightarrow> 48 \<le> (of_char c :: int) \<and> (of_char c :: int) \<le> 57"

definition digit_val :: "char \<Rightarrow> int" where
  "digit_val c = of_char c - 48"

lemma digit_char_inverse [simp]:
  "0 \<le> d \<Longrightarrow> d < 10 \<Longrightarrow> is_digit (digit_char d)"
  "0 \<le> d \<Longrightarrow> d < 10 \<Longrightarrow> digit_val (digit_char d) = d"
  by (simp_all add: is_digit_def digit_val_def digit_char_def of_char_of take_bit_eq_mod)

text \<open>The decimal digits of a number that is not negative.\<close>

function show_uint :: "int \<Rightarrow> string" where
  "show_uint n = (if n < 10 then [digit_char n] else show_uint (n div 10) @ [digit_char (n mod 10)])"
  by pat_completeness auto
termination by (relation "measure nat") auto

declare show_uint.simps [simp del]

definition show_int :: "int \<Rightarrow> string" where
  "show_int i = (if i < 0 then CHR ''-'' # show_uint (- i) else show_uint i)"

datatype num_error = ErrSyntax | ErrRange

text \<open>\<open>strconv.ParseUint(s, 10, 64)\<close>, digit by digit.\<close>

definition max_uint64 :: int where "max_uint64 = 2 ^ 64 - 1"

fun parse_uint_loop :: "int \<Rightarrow> string \<Rightarrow> num_error + int" where
  "parse_uint_loop n [] = Inr n"
| "parse_uint_loop n (c # cs) =
     (if \<not> is_digit c then Inl ErrSyntax
      else if n \<ge> max_uint64 div 10 + 1 then Inl ErrRange
      else if n * 10 + digit_val c > max_uint64 then Inl ErrRange
      else parse_uint_loop (n * 10 + digit_val c) cs)"

definition parse_uint :: "string \<Rightarrow> num_error + int" where
  "parse_uint s = (if s = [] then Inl ErrSyntax else parse_uint_loop 0 s)"

text \<open>
  \<open>strconv.ParseInt(s, 10, 64)\<close> and \<open>strconv.Atoi\<close>: the value and the error. On a range
  error the value is the nearest representable one, on a syntax error it is 0.
\<close>

definition parse_int :: "string \<Rightarrow> int \<times> num_error option" where
  "parse_int s =
     (case s of [] \<Rightarrow> (0, Some ErrSyntax)
      | c # cs \<Rightarrow>
        let neg = (c = CHR ''-'');
            body = (if c = CHR ''-'' \<or> c = CHR ''+'' then cs else s)
        in (case parse_uint body of
              Inl ErrSyntax \<Rightarrow> (0, Some ErrSyntax)
            | Inl ErrRange \<Rightarrow> (if neg then int64_min else int64_max, Some ErrRange)
            | Inr un \<Rightarrow>
                if \<not> neg \<and> un \<ge> 2 ^ 63 then (int64_max, Some ErrRange)
                else if neg \<and> un > 2 ^ 63 then (int64_min, Some ErrRange)
                else (if neg then - un else un, None)))"

lemma show_uint_not_Nil [simp]: "show_uint n \<noteq> []"
  by (subst show_uint.simps) simp

lemma show_uint_digits: "0 \<le> n \<Longrightarrow> c \<in> set (show_uint n) \<Longrightarrow> is_digit c"
proof (induction n rule: show_uint.induct)
  case (1 n)
  from "1.prems"(2) show ?case
    by (subst (asm) show_uint.simps) (use "1.IH" "1.prems"(1) in \<open>auto split: if_splits\<close>)
qed

text \<open>Reading back what \<open>show_uint\<close> wrote, with digits still to come.\<close>

lemma parse_uint_loop_append:
  "parse_uint_loop m (xs @ ys) =
     (case parse_uint_loop m xs of Inl e \<Rightarrow> Inl e | Inr k \<Rightarrow> parse_uint_loop k ys)"
  by (induction m xs rule: parse_uint_loop.induct) auto

lemma parse_uint_loop_nonneg:
  "0 \<le> m \<Longrightarrow> parse_uint_loop m s = Inr n \<Longrightarrow> 0 \<le> n"
  by (induction m s rule: parse_uint_loop.induct) (auto simp: digit_val_def is_digit_def split: if_splits)

lemma parse_uint_loop_show_uint:
  "0 \<le> n \<Longrightarrow> n \<le> max_uint64 \<Longrightarrow> parse_uint_loop 0 (show_uint n) = Inr n"
proof (induction n rule: show_uint.induct)
  case (1 n)
  show ?case
  proof (cases "n < 10")
    case True
    then show ?thesis using "1.prems" by (subst show_uint.simps) (simp add: max_uint64_def)
  next
    case False
    with "1.prems" have "n div 10 \<le> max_uint64" "0 \<le> n div 10" by linarith+
    with "1.IH" False have "parse_uint_loop 0 (show_uint (n div 10)) = Inr (n div 10)" by simp
    moreover have "n div 10 < max_uint64 div 10 + 1"
      using "1.prems" by (simp add: zdiv_mono1)
    moreover have "n div 10 * 10 + n mod 10 = n" by simp
    ultimately show ?thesis using "1.prems" False
      by (subst show_uint.simps) (simp add: parse_uint_loop_append)
  qed
qed

lemma is_digit_not_sign: "is_digit c \<Longrightarrow> c \<noteq> CHR ''-'' \<and> c \<noteq> CHR ''+''"
  by (auto simp: is_digit_def)

lemma show_uint_Cons:
  "0 \<le> i \<Longrightarrow> \<exists>c cs. show_uint i = c # cs \<and> c \<noteq> CHR ''-'' \<and> c \<noteq> CHR ''+''"
  by (metis is_digit_not_sign list.set_intros(1) neq_Nil_conv show_uint_digits show_uint_not_Nil)

theorem parse_int_show_int: "is_int64 i \<Longrightarrow> parse_int (show_int i) = (i, None)"
proof (cases "i < 0")
  case True
  assume "is_int64 i"
  with True have "- i \<le> 2 ^ 63" by (simp add: is_int64_def int64_min_def)
  with True show ?thesis
    by (simp add: parse_int_def show_int_def parse_uint_def parse_uint_loop_show_uint max_uint64_def)
next
  case False
  assume "is_int64 i"
  with False have b: "i < 2 ^ 63" "0 \<le> i" by (simp_all add: is_int64_def int64_max_def)
  from show_uint_Cons [OF b(2)] obtain c cs
    where s: "show_uint i = c # cs" "c \<noteq> CHR ''-''" "c \<noteq> CHR ''+''" by blast
  moreover have "parse_uint (c # cs) = Inr i"
    using b parse_uint_loop_show_uint [of i] s by (simp add: parse_uint_def max_uint64_def)
  ultimately show ?thesis using False b by (simp add: parse_int_def show_int_def)
qed

lemma parse_uint_nonneg: "parse_uint s = Inr n \<Longrightarrow> 0 \<le> n"
  by (auto simp: parse_uint_def split: if_splits dest: parse_uint_loop_nonneg [rotated])

lemma parse_int_range: "is_int64 (fst (parse_int s))"
  by (auto simp: parse_int_def is_int64_def int64_min_def int64_max_def Let_def
      split: list.splits sum.splits num_error.splits if_splits dest: parse_uint_nonneg)

section \<open>hash/fnv\<close>

text \<open>\<open>fnv.New32a()\<close>, \<open>Write\<close>, \<open>Sum32\<close>: xor the byte, then multiply, modulo \<open>2 ^ 32\<close>.\<close>

definition fnv32a :: "string \<Rightarrow> 32 word" where
  "fnv32a s = fold (\<lambda>c h. (h XOR of_char c) * 16777619) s 2166136261"

end
