(* ===== verification/Go_Json.thy ===== *)
theory Go_Json
  imports Go_Text
begin

text \<open>
  The part of Go's \<open>encoding/json\<close> that the program uses, on byte strings.

  Writing: objects with their fields in order, strings with the escapes of
  \<open>json.Marshal\<close> (HTML-safe: the bytes of \<open><\<close>, \<open>>\<close>, \<open>&\<close> are escaped, invalid UTF-8
  becomes U+FFFD). Reading: the scanner's grammar (with its nesting limit of 10000),
  \<open>\u\<close> escapes with surrogate pairs, and the decoding of an object into a struct field
  by field: exact name first, then the name folded, unknown names skipped, \<open>null\<close> a
  no-op, a value of the wrong kind an error. One thing is left out: a document that
  repeats an array-valued name reuses the slice of the first occurrence in Go, here the
  last occurrence is decoded on its own.
\<close>

section \<open>UTF-8\<close>

text \<open>The length of the UTF-8 sequence a byte string begins with, 0 if it is invalid.\<close>

definition cont :: "int \<Rightarrow> bool" where
  "cont b \<longleftrightarrow> 0x80 \<le> b \<and> b \<le> 0xBF"

fun utf8_len :: "int list \<Rightarrow> nat" where
  "utf8_len [] = 0"
| "utf8_len (a # bs) =
     (if a < 0x80 then 1
      else case bs of [] \<Rightarrow> 0 | b # cs \<Rightarrow>
        if 0xC2 \<le> a \<and> a \<le> 0xDF then (if cont b then 2 else 0)
        else case cs of [] \<Rightarrow> 0 | c # ds \<Rightarrow>
          if 0xE0 \<le> a \<and> a \<le> 0xEF then
            (if cont b \<and> cont c \<and> (a = 0xE0 \<longrightarrow> 0xA0 \<le> b) \<and> (a = 0xED \<longrightarrow> b \<le> 0x9F) then 3 else 0)
          else case ds of [] \<Rightarrow> 0 | d # _ \<Rightarrow>
            if 0xF0 \<le> a \<and> a \<le> 0xF4 \<and> cont b \<and> cont c \<and> cont d
               \<and> (a = 0xF0 \<longrightarrow> 0x90 \<le> b) \<and> (a = 0xF4 \<longrightarrow> b \<le> 0x8F) then 4 else 0)"

definition rune_len :: "string \<Rightarrow> nat" where
  "rune_len s = utf8_len (bytes (take 4 s))"

definition replacement :: string where
  "replacement = map char_of [0xEF, 0xBF, 0xBD :: int]"

text \<open>
  A string cut into its characters: \<open>Some\<close> of a valid sequence, \<open>None\<close> for an invalid byte.
\<close>

function runes :: "string \<Rightarrow> string option list" where
  "runes s =
     (if s = [] then []
      else if rune_len s = 0 then None # runes (drop 1 s)
      else Some (take (rune_len s) s) # runes (drop (rune_len s) s))"
  by pat_completeness auto
termination by (relation "measure length") auto

declare runes.simps [simp del]

text \<open>\<open>strings.ToValidUTF8\<close> with U+FFFD for each invalid byte, and the valid strings.\<close>

definition to_valid :: "string \<Rightarrow> string" where
  "to_valid s = concat (map (\<lambda>r. case r of None \<Rightarrow> replacement | Some q \<Rightarrow> q) (runes s))"

definition valid_utf8 :: "string \<Rightarrow> bool" where
  "valid_utf8 s \<longleftrightarrow> None \<notin> set (runes s)"

lemma runes_Nil [simp]: "runes [] = []"
  by (simp add: runes.simps)

lemma concat_runes:
  "None \<notin> set (runes s) \<Longrightarrow> concat (map (\<lambda>r. case r of None \<Rightarrow> replacement | Some q \<Rightarrow> q) (runes s)) = s"
proof (induction s rule: runes.induct)
  case (1 s)
  show ?case
  proof (cases "s = [] \<or> rune_len s = 0")
    case True
    with "1.prems" show ?thesis by (subst (asm) runes.simps) (auto split: if_splits)
  next
    case False
    with "1.prems" have "None \<notin> set (runes (drop (rune_len s) s))"
      by (subst (asm) runes.simps) auto
    with "1.IH"(2) False show ?thesis by (subst runes.simps) simp
  qed
qed

lemma to_valid_id [simp]: "valid_utf8 s \<Longrightarrow> to_valid s = s"
  by (simp add: to_valid_def valid_utf8_def concat_runes)

text \<open>Every ASCII string is valid.\<close>

definition is_ascii :: "string \<Rightarrow> bool" where
  "is_ascii s \<longleftrightarrow> (\<forall>c \<in> set s. (of_char c :: int) < 0x80)"

lemma rune_len_ascii: "(of_char c :: int) < 0x80 \<Longrightarrow> rune_len (c # s) = 1"
  by (simp add: rune_len_def bytes_def)

lemma runes_ascii: "is_ascii s \<Longrightarrow> runes s = map (\<lambda>c. Some [c]) s"
proof (induction s)
  case (Cons c s)
  then have "rune_len (c # s) = 1" by (simp add: rune_len_ascii is_ascii_def)
  with Cons show ?case by (subst runes.simps) (simp add: is_ascii_def)
qed simp

lemma ascii_valid: "is_ascii s \<Longrightarrow> valid_utf8 s"
  by (auto simp: valid_utf8_def runes_ascii)

section \<open>Values\<close>

datatype json =
    JNull
  | JBool bool
  | JNum string
  | JStr string
  | JArr "json list"
  | JObj "(string \<times> json) list"

section \<open>Writing\<close>

definition hex_digit :: "int \<Rightarrow> char" where
  "hex_digit n = (if n < 10 then char_of (48 + n) else char_of (87 + n))"

definition esc_ascii :: "char \<Rightarrow> string" where
  "esc_ascii c =
     (let n = (of_char c :: int) in
      if n = 34 \<or> n = 92 then [CHR 92, c]
      else if n = 8 then [CHR 92, CHR ''b'']
      else if n = 12 then [CHR 92, CHR ''f'']
      else if n = 10 then [CHR 92, CHR ''n'']
      else if n = 13 then [CHR 92, CHR ''r'']
      else if n = 9 then [CHR 92, CHR ''t'']
      else if n < 32 \<or> n = 60 \<or> n = 62 \<or> n = 38 then
        [CHR 92, CHR ''u'', CHR ''0'', CHR ''0'', hex_digit (n div 16), hex_digit (n mod 16)]
      else [c])"

definition esc_rune :: "string option \<Rightarrow> string" where
  "esc_rune r =
     (case r of
        None \<Rightarrow> CHR 92 # ''ufffd''
      | Some q \<Rightarrow>
          if length q = 1 then esc_ascii (hd q)
          else if bytes q = [0xE2, 0x80, 0xA8] then CHR 92 # ''u2028''
          else if bytes q = [0xE2, 0x80, 0xA9] then CHR 92 # ''u2029''
          else q)"

definition quote_str :: "string \<Rightarrow> string" where
  "quote_str s = CHR 34 # concat (map esc_rune (runes s)) @ [CHR 34]"

fun jprint :: "json \<Rightarrow> string"
  and jprint_elems :: "json list \<Rightarrow> string"
  and jprint_members :: "(string \<times> json) list \<Rightarrow> string" where
  "jprint JNull = ''null''"
| "jprint (JBool b) = (if b then ''true'' else ''false'')"
| "jprint (JNum n) = n"
| "jprint (JStr s) = quote_str s"
| "jprint (JArr vs) = (if vs = [] then ''[]'' else CHR ''['' # jprint_elems vs)"
| "jprint (JObj ms) = (if ms = [] then ''{}'' else CHR ''{'' # jprint_members ms)"
| "jprint_elems [] = '']''"
| "jprint_elems (v # vs) = jprint v @ (if vs = [] then '']'' else CHR '','' # jprint_elems vs)"
| "jprint_members [] = ''}''"
| "jprint_members ((k, v) # ms) =
     quote_str k @ CHR '':'' # jprint v @ (if ms = [] then ''}'' else CHR '','' # jprint_members ms)"

section \<open>Reading\<close>

definition hex_val :: "char \<Rightarrow> int option" where
  "hex_val c =
     (let n = (of_char c :: int) in
      if 48 \<le> n \<and> n \<le> 57 then Some (n - 48)
      else if 97 \<le> n \<and> n \<le> 102 then Some (n - 87)
      else if 65 \<le> n \<and> n \<le> 70 then Some (n - 55)
      else None)"

fun hex4 :: "string \<Rightarrow> int option" where
  "hex4 (a # b # c # d # _) =
     (case (hex_val a, hex_val b, hex_val c, hex_val d) of
        (Some w, Some x, Some y, Some z) \<Rightarrow> Some (((w * 16 + x) * 16 + y) * 16 + z)
      | _ \<Rightarrow> None)"
| "hex4 _ = None"

definition utf8_encode :: "int \<Rightarrow> string" where
  "utf8_encode r =
     map char_of
       (if r < 0x80 then [r]
        else if r < 0x800 then [0xC0 + r div 64, 0x80 + r mod 64]
        else if r < 0x10000 then [0xE0 + r div 4096, 0x80 + r div 64 mod 64, 0x80 + r mod 64]
        else [0xF0 + r div 262144, 0x80 + r div 4096 mod 64, 0x80 + r div 64 mod 64, 0x80 + r mod 64])"

text \<open>\<open>utf16.DecodeRune\<close>: a high surrogate followed by a low one.\<close>

definition surrogate_pair :: "int \<Rightarrow> string \<Rightarrow> int option" where
  "surrogate_pair hi s =
     (case s of
        b # u # es \<Rightarrow>
          if b = CHR 92 \<and> u = CHR ''u'' then
            (case hex4 es of
               Some lo \<Rightarrow>
                 if 0xD800 \<le> hi \<and> hi < 0xDC00 \<and> 0xDC00 \<le> lo \<and> lo < 0xE000
                 then Some ((hi - 0xD800) * 1024 + (lo - 0xDC00) + 0x10000) else None
             | None \<Rightarrow> None)
          else None
      | _ \<Rightarrow> None)"

definition simple_escape :: "char \<Rightarrow> char option" where
  "simple_escape e =
     map_of [(CHR 34, CHR 34), (CHR 92, CHR 92), (CHR ''/'', CHR ''/''), (CHR ''b'', CHR 8),
             (CHR ''f'', CHR 12), (CHR ''n'', CHR 10), (CHR ''r'', CHR 13), (CHR ''t'', CHR 9)] e"

abbreviation cons_str :: "string \<Rightarrow> (string \<times> string) option \<Rightarrow> (string \<times> string) option" where
  "cons_str q r \<equiv> map_option (\<lambda>(t, rest). (q @ t, rest)) r"

text \<open>The rest of a string literal after its opening quote: its value and what follows.\<close>

function parse_str :: "string \<Rightarrow> (string \<times> string) option" where
  "parse_str [] = None"
| "parse_str (c # cs) =
     (if c = CHR 34 then Some ([], cs)
      else if c = CHR 92 then
        (case cs of [] \<Rightarrow> None
         | e # es \<Rightarrow>
             if e = CHR ''u'' then
               (case hex4 es of None \<Rightarrow> None
                | Some r \<Rightarrow>
                    if 0xD800 \<le> r \<and> r < 0xE000 then
                      (case surrogate_pair r (drop 4 es) of
                         Some rr \<Rightarrow> cons_str (utf8_encode rr) (parse_str (drop 10 es))
                       | None \<Rightarrow> cons_str replacement (parse_str (drop 4 es)))
                    else cons_str (utf8_encode r) (parse_str (drop 4 es)))
             else (case simple_escape e of None \<Rightarrow> None
                   | Some x \<Rightarrow> cons_str [x] (parse_str es)))
      else if (of_char c :: int) < 32 then None
      else if rune_len (c # cs) = 0 then cons_str replacement (parse_str cs)
      else cons_str (take (rune_len (c # cs)) (c # cs)) (parse_str (drop (rune_len (c # cs)) (c # cs))))"
  by pat_completeness auto
termination by (relation "measure length") auto

declare parse_str.simps(2) [simp del]

text \<open>Numbers: the scanner's grammar; the literal is kept as text.\<close>

definition digits :: "string \<Rightarrow> (string \<times> string) option" where
  "digits s = (if takeWhile is_digit s = [] then None else Some (takeWhile is_digit s, dropWhile is_digit s))"

definition parse_frac :: "string \<Rightarrow> (string \<times> string) option" where
  "parse_frac s =
     (case s of c # cs \<Rightarrow> if c = CHR ''.'' then map_option (\<lambda>(d, r). (c # d, r)) (digits cs) else Some ([], s)
      | [] \<Rightarrow> Some ([], s))"

definition parse_exp :: "string \<Rightarrow> (string \<times> string) option" where
  "parse_exp s =
     (case s of [] \<Rightarrow> Some ([], s)
      | c # cs \<Rightarrow>
          if c = CHR ''e'' \<or> c = CHR ''E'' then
            (case cs of [] \<Rightarrow> None
             | x # xs \<Rightarrow>
                 if x = CHR ''+'' \<or> x = CHR ''-'' then map_option (\<lambda>(d, r). (c # x # d, r)) (digits xs)
                 else map_option (\<lambda>(d, r). (c # d, r)) (digits cs))
          else Some ([], s))"

definition parse_natural :: "string \<Rightarrow> (string \<times> string) option" where
  "parse_natural s =
     (case s of [] \<Rightarrow> None
      | c # cs \<Rightarrow> if c = CHR ''0'' then Some ([c], cs) else digits s)"

definition parse_num :: "string \<Rightarrow> (string \<times> string) option" where
  "parse_num s =
     (let (sign, body) = (case s of c # cs \<Rightarrow> if c = CHR ''-'' then ([c], cs) else ([], s) | [] \<Rightarrow> ([], s))
      in case parse_natural body of None \<Rightarrow> None
         | Some (n, r1) \<Rightarrow> (case parse_frac r1 of None \<Rightarrow> None
         | Some (f, r2) \<Rightarrow> (case parse_exp r2 of None \<Rightarrow> None
         | Some (x, r3) \<Rightarrow> Some (sign @ n @ f @ x, r3))))"

definition is_ws :: "char \<Rightarrow> bool" where
  "is_ws c \<longleftrightarrow> c = CHR 32 \<or> c = CHR 9 \<or> c = CHR 10 \<or> c = CHR 13"

definition skip_ws :: "string \<Rightarrow> string" where
  "skip_ws s = dropWhile is_ws s"

lemma skip_ws_Nil [simp]: "skip_ws [] = []"
  by (simp add: skip_ws_def)

lemma skip_ws_Cons_simp [simp]: "\<not> is_ws c \<Longrightarrow> skip_ws (c # s) = c # s"
  by (simp add: skip_ws_def)

text \<open>
  Values: the first argument is fuel (the length of the text plus one is enough), the
  second the nesting still allowed.
\<close>

fun parse_val :: "nat \<Rightarrow> int \<Rightarrow> string \<Rightarrow> (json \<times> string) option"
  and parse_elems :: "nat \<Rightarrow> int \<Rightarrow> string \<Rightarrow> (json list \<times> string) option"
  and parse_members :: "nat \<Rightarrow> int \<Rightarrow> string \<Rightarrow> ((string \<times> json) list \<times> string) option" where
  "parse_val 0 d s = None"
| "parse_val (Suc f) d s =
     (case skip_ws s of [] \<Rightarrow> None
      | c # cs \<Rightarrow>
          if c = CHR ''{'' then
            (if d = 0 then None
             else (case skip_ws cs of [] \<Rightarrow> None
                   | x # r \<Rightarrow> if x = CHR ''}'' then Some (JObj [], r)
                              else map_option (\<lambda>(ms, r'). (JObj ms, r')) (parse_members f (d - 1) (x # r))))
          else if c = CHR ''['' then
            (if d = 0 then None
             else (case skip_ws cs of [] \<Rightarrow> None
                   | x # r \<Rightarrow> if x = CHR '']'' then Some (JArr [], r)
                              else map_option (\<lambda>(vs, r'). (JArr vs, r')) (parse_elems f (d - 1) (x # r))))
          else if c = CHR 34 then map_option (\<lambda>(t, r). (JStr t, r)) (parse_str cs)
          else if c = CHR ''-'' \<or> is_digit c then map_option (\<lambda>(n, r). (JNum n, r)) (parse_num (c # cs))
          else if has_prefix (c # cs) ''true'' then Some (JBool True, drop 4 (c # cs))
          else if has_prefix (c # cs) ''false'' then Some (JBool False, drop 5 (c # cs))
          else if has_prefix (c # cs) ''null'' then Some (JNull, drop 4 (c # cs))
          else None)"
| "parse_elems 0 d s = None"
| "parse_elems (Suc f) d s =
     (case parse_val f d s of None \<Rightarrow> None
      | Some (v, r) \<Rightarrow>
          (case skip_ws r of [] \<Rightarrow> None
           | x # r' \<Rightarrow>
               if x = CHR '']'' then Some ([v], r')
               else if x = CHR '','' then map_option (\<lambda>(vs, r''). (v # vs, r'')) (parse_elems f d r')
               else None))"
| "parse_members 0 d s = None"
| "parse_members (Suc f) d s =
     (case skip_ws s of [] \<Rightarrow> None
      | q # s1 \<Rightarrow>
          if q \<noteq> CHR 34 then None
          else (case parse_str s1 of None \<Rightarrow> None
      | Some (k, s2) \<Rightarrow>
          (case skip_ws s2 of [] \<Rightarrow> None
      | col # s3 \<Rightarrow>
          if col \<noteq> CHR '':'' then None
          else (case parse_val f d s3 of None \<Rightarrow> None
      | Some (v, r) \<Rightarrow>
          (case skip_ws r of [] \<Rightarrow> None
           | x # r' \<Rightarrow>
               if x = CHR ''}'' then Some ([(k, v)], r')
               else if x = CHR '','' then map_option (\<lambda>(ms, r''). ((k, v) # ms, r'')) (parse_members f d r')
               else None)))))"

definition max_nesting :: int where "max_nesting = 10000"

text \<open>\<open>json.NewDecoder(r).Decode\<close> reads one value; \<open>json.Unmarshal\<close> and \<open>json.Valid\<close> the whole text.\<close>

definition json_decode :: "string \<Rightarrow> (json \<times> string) option" where
  "json_decode s = parse_val (2 * length s + 2) max_nesting s"

definition json_parse :: "string \<Rightarrow> json option" where
  "json_parse s =
     (case json_decode s of Some (v, r) \<Rightarrow> if skip_ws r = [] then Some v else None | None \<Rightarrow> None)"

definition json_valid :: "string \<Rightarrow> bool" where
  "json_valid s \<longleftrightarrow> json_parse s \<noteq> None"

section \<open>Decoding into structs\<close>

text \<open>
  A struct is described by its fields: the JSON name and how a value is stored. \<open>None\<close>
  is an \<open>UnmarshalTypeError\<close>. The program never looks at a target whose decoding failed.
\<close>

type_synonym 'r json_field = "string \<times> (json \<Rightarrow> 'r \<Rightarrow> 'r option)"

definition set_string :: "((string \<Rightarrow> string) \<Rightarrow> 'r \<Rightarrow> 'r) \<Rightarrow> json \<Rightarrow> 'r \<Rightarrow> 'r option" where
  "set_string upd j r =
     (case j of JStr s \<Rightarrow> Some (upd (\<lambda>_. s) r) | JNull \<Rightarrow> Some r | _ \<Rightarrow> None)"

definition set_int :: "nat \<Rightarrow> ((int \<Rightarrow> int) \<Rightarrow> 'r \<Rightarrow> 'r) \<Rightarrow> json \<Rightarrow> 'r \<Rightarrow> 'r option" where
  "set_int bits upd j r =
     (case j of
        JNum n \<Rightarrow> (case parse_int n of
            (i, None) \<Rightarrow> if - (2 ^ (bits - 1)) \<le> i \<and> i < 2 ^ (bits - 1) then Some (upd (\<lambda>_. i) r) else None
          | (_, Some _) \<Rightarrow> None)
      | JNull \<Rightarrow> Some r
      | _ \<Rightarrow> None)"

fun decode_list :: "(json \<Rightarrow> 'a option) \<Rightarrow> json list \<Rightarrow> 'a list option" where
  "decode_list dec [] = Some []"
| "decode_list dec (j # js) =
     (case dec j of None \<Rightarrow> None | Some x \<Rightarrow> map_option ((#) x) (decode_list dec js))"

definition set_slice :: "(json \<Rightarrow> 'a option) \<Rightarrow> (('a list \<Rightarrow> 'a list) \<Rightarrow> 'r \<Rightarrow> 'r) \<Rightarrow> json \<Rightarrow> 'r \<Rightarrow> 'r option" where
  "set_slice dec upd j r =
     (case j of
        JArr js \<Rightarrow> map_option (\<lambda>xs. upd (\<lambda>_. xs) r) (decode_list dec js)
      | JNull \<Rightarrow> Some (upd (\<lambda>_. []) r)
      | _ \<Rightarrow> None)"

definition decode_string :: "json \<Rightarrow> string option" where
  "decode_string j = (case j of JStr s \<Rightarrow> Some s | JNull \<Rightarrow> Some [] | _ \<Rightarrow> None)"

text \<open>
  \<open>foldName\<close>: ASCII letters in upper case, and the two characters outside ASCII that fold
  to an ASCII letter (U+017F to S, U+212A to K).
\<close>

fun fold_name :: "string \<Rightarrow> string" where
  "fold_name [] = []"
| "fold_name (c # cs) =
     (if take 2 (bytes (c # cs)) = [0xC5, 0xBF] then CHR ''S'' # fold_name (drop 1 cs)
      else if take 3 (bytes (c # cs)) = [0xE2, 0x84, 0xAA] then CHR ''K'' # fold_name (drop 2 cs)
      else (if 97 \<le> (of_char c :: int) \<and> (of_char c :: int) \<le> 122 then char_of ((of_char c :: int) - 32) else c)
             # fold_name cs)"

definition find_field :: "'r json_field list \<Rightarrow> string \<Rightarrow> (json \<Rightarrow> 'r \<Rightarrow> 'r option) option" where
  "find_field fs k =
     (case map_of fs k of
        Some st \<Rightarrow> Some st
      | None \<Rightarrow> map_option snd (find (\<lambda>(n, _). fold_name n = fold_name k) fs))"

fun decode_members :: "'r json_field list \<Rightarrow> (string \<times> json) list \<Rightarrow> 'r \<Rightarrow> 'r option" where
  "decode_members fs [] r = Some r"
| "decode_members fs ((k, v) # ms) r =
     (case find_field fs k of
        None \<Rightarrow> decode_members fs ms r
      | Some st \<Rightarrow> (case st v r of None \<Rightarrow> None | Some r' \<Rightarrow> decode_members fs ms r'))"

definition decode_struct :: "'r json_field list \<Rightarrow> json \<Rightarrow> 'r \<Rightarrow> 'r option" where
  "decode_struct fs j r =
     (case j of JObj ms \<Rightarrow> decode_members fs ms r | JNull \<Rightarrow> Some r | _ \<Rightarrow> None)"

text \<open>\<open>json.Unmarshal(data, &r)\<close> with \<open>r\<close> a struct variable that holds \<open>r0\<close>.\<close>

definition unmarshal :: "'r json_field list \<Rightarrow> 'r \<Rightarrow> string \<Rightarrow> 'r option" where
  "unmarshal fs r0 s = (case json_parse s of None \<Rightarrow> None | Some j \<Rightarrow> decode_struct fs j r0)"

end
