(* ===== verification/Go_Json_Facts.thy ===== *)
theory Go_Json_Facts
  imports Go_Json
begin

text \<open>
  What the JSON model satisfies: the fuel of the reader is enough (its result does not
  depend on the fuel once it exceeds the length of the text), and reading what
  \<open>jprint\<close> wrote gives the value back, with invalid UTF-8 replaced as Go does.
\<close>

section \<open>Every reader consumes\<close>

lemma skip_ws_le: "length (skip_ws s) \<le> length s"
  unfolding skip_ws_def by (rule length_dropWhile_le)

lemma skip_ws_Cons: "skip_ws s = c # cs \<Longrightarrow> length cs < length s"
  using skip_ws_le [of s] by simp

lemma utf8_len_le: "utf8_len bs \<le> length bs"
  by (cases bs rule: utf8_len.cases) (auto split: list.splits)

lemma rune_len_le: "rune_len s \<le> length s"
  using utf8_len_le [of "bytes (take 4 s)"] by (simp add: rune_len_def bytes_def)

lemma parse_str_length: "parse_str s = Some (t, r) \<Longrightarrow> length r < length s"
proof (induction s arbitrary: t r rule: parse_str.induct)
  case (2 c cs)
  from "2.prems" show ?case
    by (subst (asm) parse_str.simps)
      (use "2.IH" in \<open>fastforce split: if_splits list.splits option.splits simp del: hex4.simps\<close>)
qed simp

lemma digits_length: "digits s = Some (t, r) \<Longrightarrow> length r < length s"
proof -
  assume "digits s = Some (t, r)"
  then have t: "t = takeWhile is_digit s" "t \<noteq> []" and r: "r = dropWhile is_digit s"
    by (auto simp: digits_def split: if_splits)
  have "length s = length t + length r"
    unfolding t r by (metis length_append takeWhile_dropWhile_id)
  with t(2) show ?thesis by simp
qed

lemma parse_natural_length: "parse_natural s = Some (t, r) \<Longrightarrow> length r < length s"
  by (auto simp: parse_natural_def split: list.splits if_splits dest: digits_length)

lemma parse_frac_length: "parse_frac s = Some (t, r) \<Longrightarrow> length r \<le> length s"
  by (auto simp: parse_frac_def split: list.splits if_splits dest!: digits_length)

lemma parse_exp_length: "parse_exp s = Some (t, r) \<Longrightarrow> length r \<le> length s"
  by (auto simp: parse_exp_def split: list.splits if_splits dest!: digits_length)

lemma parse_num_length: "parse_num s = Some (t, r) \<Longrightarrow> length r < length s"
  by (fastforce simp: parse_num_def Let_def split: prod.splits option.splits list.splits if_splits
      dest: parse_natural_length parse_frac_length parse_exp_length)

lemma parse_length:
  "parse_val f d s = Some (v, r) \<Longrightarrow> length r < length s"
  "parse_elems f d s = Some (vs, r) \<Longrightarrow> length r < length s"
  "parse_members f d s = Some (ms, r) \<Longrightarrow> length r < length s"
proof (induction f d s and f d s and f d s arbitrary: v r and vs r and ms r
    rule: parse_val_parse_elems_parse_members.induct)
  case (2 f d s)
  obtain c cs where s: "skip_ws s = c # cs" using "2.prems" by (auto split: list.splits)
  note l = skip_ws_Cons [OF s]
  show ?case
    using "2.prems" s l skip_ws_le [of cs] "2.IH"
    by (fastforce split: if_splits list.splits dest: parse_str_length parse_num_length)
next
  case (4 f d s)
  then show ?case
    by (fastforce split: if_splits list.splits option.splits dest: skip_ws_Cons)
next
  case (6 f d s)
  then show ?case
    by (fastforce split: if_splits list.splits option.splits dest: skip_ws_Cons parse_str_length)
qed auto

section \<open>Enough fuel\<close>

definition fuel_ok :: "nat \<Rightarrow> nat \<Rightarrow> string \<Rightarrow> bool" where
  "fuel_ok f g s \<longleftrightarrow> (\<forall>d.
     (2 * length s < f \<longrightarrow> 2 * length s < g \<longrightarrow> parse_val f d s = parse_val g d s) \<and>
     (2 * length s + 1 < f \<longrightarrow> 2 * length s + 1 < g \<longrightarrow>
        parse_elems f d s = parse_elems g d s \<and> parse_members f d s = parse_members g d s))"

lemma fuel_okD:
  "fuel_ok f g s \<Longrightarrow> 2 * length s < f \<Longrightarrow> 2 * length s < g \<Longrightarrow> parse_val f d s = parse_val g d s"
  "fuel_ok f g s \<Longrightarrow> 2 * length s + 1 < f \<Longrightarrow> 2 * length s + 1 < g \<Longrightarrow> parse_elems f d s = parse_elems g d s"
  "fuel_ok f g s \<Longrightarrow> 2 * length s + 1 < f \<Longrightarrow> 2 * length s + 1 < g \<Longrightarrow> parse_members f d s = parse_members g d s"
  by (auto simp: fuel_ok_def)

lemma fuel_ok_val_step:
  assumes "\<And>s. fuel_ok f g s" "2 * length s < Suc f" "2 * length s < Suc g"
  shows "parse_val (Suc f) d s = parse_val (Suc g) d s"
proof (cases "skip_ws s")
  case (Cons c cs)
  have sub: "parse_members f (d - 1) (x # r) = parse_members g (d - 1) (x # r)"
    "parse_elems f (d - 1) (x # r) = parse_elems g (d - 1) (x # r)"
    if "skip_ws cs = x # r" for x r
    using skip_ws_Cons [OF Cons] skip_ws_Cons [OF that] assms by (auto intro!: fuel_okD)
  show ?thesis using Cons sub by (simp split: list.splits)
qed simp

lemma fuel_ok_elems_step:
  assumes "\<And>s. fuel_ok f g s" "2 * length s < f" "2 * length s < g"
  shows "parse_elems (Suc f) d s = parse_elems (Suc g) d s"
proof -
  have v: "parse_val f d s = parse_val g d s" using assms by (auto intro: fuel_okD)
  have "parse_elems f d r' = parse_elems g d r'"
    if "parse_val g d s = Some (v, r)" "skip_ws r = x # r'" for v r x r'
    using skip_ws_Cons [OF that(2)] parse_length(1) [OF that(1)] assms by (auto intro!: fuel_okD)
  then show ?thesis using v by (auto split: list.splits option.splits)
qed

lemma fuel_ok_members_step:
  assumes "\<And>s. fuel_ok f g s" "2 * length s < f" "2 * length s < g"
  shows "parse_members (Suc f) d s = parse_members (Suc g) d s"
proof (cases "skip_ws s")
  case (Cons q s1)
  note l1 = skip_ws_Cons [OF this]
  have v: "parse_val f d s3 = parse_val g d s3" and
    m: "parse_val g d s3 = Some (v, r) \<Longrightarrow> skip_ws r = x # r' \<Longrightarrow> parse_members f d r' = parse_members g d r'"
    if "parse_str s1 = Some (k, s2)" "skip_ws s2 = col # s3" for k s2 col s3 v r x r'
    using l1 skip_ws_Cons [OF that(2)] parse_str_length [OF that(1)] assms
    by (auto intro!: fuel_okD dest!: skip_ws_Cons parse_length(1))
  show ?thesis using Cons v m by (auto split: list.splits option.splits)
qed simp

lemma fuel_ok: "fuel_ok f g s"
proof (induction f arbitrary: g s)
  case (Suc f)
  show ?case
  proof (cases g)
    case (Suc g')
    then show ?thesis unfolding fuel_ok_def
      using fuel_ok_val_step [OF Suc.IH] fuel_ok_elems_step [OF Suc.IH] fuel_ok_members_step [OF Suc.IH]
      by (metis Suc_eq_plus1 Suc_less_eq)
  qed (simp add: fuel_ok_def)
qed (simp add: fuel_ok_def)

text \<open>\<open>json_decode\<close>'s fuel is enough: any larger fuel gives the same result.\<close>

lemma json_decode_fuel: "2 * length s < f \<Longrightarrow> parse_val f max_nesting s = json_decode s"
  unfolding json_decode_def by (rule fuel_okD(1) [OF fuel_ok]) auto

section \<open>Strings read back\<close>

lemma utf8_len_prefix: "utf8_len bs = n \<Longrightarrow> n \<noteq> 0 \<Longrightarrow> utf8_len (take n bs @ ys) = n"
  by (cases bs rule: utf8_len.cases) (auto split: list.splits if_splits simp: numeral_eq_Suc)

lemma utf8_len_bound: "utf8_len bs \<le> 4"
  by (cases bs rule: utf8_len.cases) (auto split: list.splits)

definition is_rune :: "string \<Rightarrow> bool" where
  "is_rune q \<longleftrightarrow> q \<noteq> [] \<and> length q \<le> 4 \<and> (\<forall>ys. utf8_len (bytes q @ ys) = length q)"

lemma is_rune_take: "rune_len s \<noteq> 0 \<Longrightarrow> is_rune (take (rune_len s) s)"
proof -
  assume n: "rune_len s \<noteq> 0"
  let ?n = "rune_len s"
  have "?n \<le> 4" "?n \<le> length s" using utf8_len_bound rune_len_le by (auto simp: rune_len_def)
  moreover have "bytes (take ?n s) = take ?n (bytes (take 4 s))"
    using \<open>?n \<le> 4\<close> by (simp add: bytes_def take_map min_def)
  ultimately show ?thesis
    using n utf8_len_prefix [of "bytes (take 4 s)" ?n] by (auto simp: is_rune_def rune_len_def)
qed

lemma rune_len_rune: "is_rune q \<Longrightarrow> rune_len (q @ s) = length q"
  by (simp add: rune_len_def is_rune_def bytes_def)

lemma runes_are_runes: "Some q \<in> set (runes s) \<Longrightarrow> is_rune q"
proof (induction s rule: runes.induct)
  case (1 s)
  then show ?case
    by (subst (asm) runes.simps) (auto split: if_splits intro: is_rune_take)
qed

lemma rune_head: "is_rune q \<Longrightarrow> \<exists>c cs. q = c # cs \<and> ((cs = [] \<and> (of_char c :: int) < 0x80) \<or> (cs \<noteq> [] \<and> 0xC2 \<le> (of_char c :: int)))"
proof -
  assume q: "is_rune q"
  then obtain c cs where "q = c # cs" by (auto simp: is_rune_def neq_Nil_conv)
  moreover have "utf8_len (bytes (c # cs)) = length (c # cs)"
    using q calculation is_rune_def by (metis append_Nil2)
  ultimately show ?thesis
    by (auto simp: bytes_def split: list.splits if_splits)
qed

lemma hex_val_digit: "0 \<le> n \<Longrightarrow> n < 16 \<Longrightarrow> hex_val (hex_digit n) = Some n"
  by (simp add: hex_val_def hex_digit_def of_char_of take_bit_eq_mod)

lemma parse_str_plain:
  assumes "is_rune q" "hd q \<noteq> CHR 34" "hd q \<noteq> CHR 92" "32 \<le> (of_char (hd q) :: int)"
  shows "parse_str (q @ s) = cons_str q (parse_str s)"
proof -
  from assms(1) obtain c cs where q: "q = c # cs" by (auto simp: is_rune_def neq_Nil_conv)
  have "rune_len (c # cs @ s) = length q" using rune_len_rune [OF assms(1), of s] q by simp
  then show ?thesis using assms q
    by (simp add: parse_str.simps(2))
qed


text \<open>Reading one escaped character.\<close>

lemma parse_str_u:
  assumes "hex4 (h @ s) = Some r" "length h = 4" "r < 0xD800 \<or> 0xE000 \<le> r"
  shows "parse_str (CHR 92 # CHR ''u'' # h @ s) = cons_str (utf8_encode r) (parse_str s)"
  using assms by (subst parse_str.simps(2)) (auto simp del: hex4.simps)

lemma of_char_nonneg [simp]: "0 \<le> (of_char c :: int)"
  by (metis of_nat_0_le_iff of_nat_of_char)

lemma map_char_of_bytes [simp]: "map char_of (bytes q) = q"
  by (simp add: bytes_def)

lemma parse_str_esc:
  assumes "simple_escape e = Some x" "e \<noteq> CHR ''u''"
  shows "parse_str (CHR 92 # e # s) = cons_str [x] (parse_str s)"
  using assms by (subst parse_str.simps(2)) simp

lemma parse_str_esc_ascii:
  assumes "(of_char c :: int) < 0x80"
  shows "parse_str (esc_ascii c @ s) = cons_str [c] (parse_str s)"
proof -
  define n where "n = (of_char c :: int)"
  have c: "c = char_of n" and n: "0 \<le> n" "n < 128" using assms by (simp_all add: n_def)
  have hex: "hex4 ([CHR ''0'', CHR ''0'', hex_digit (n div 16), hex_digit (n mod 16)] @ s) = Some n"
    using n by (simp add: hex_val_digit hex_val_def [of "CHR ''0''"])
  have u: "parse_str ([CHR 92, CHR ''u'', CHR ''0'', CHR ''0'', hex_digit (n div 16), hex_digit (n mod 16)] @ s)
             = cons_str [c] (parse_str s)"
    using parse_str_u [OF hex] n c by (simp add: utf8_encode_def)
  have r: "is_rune [c]" using assms by (simp add: is_rune_def bytes_def)
  have p: "parse_str ([c] @ s) = cons_str [c] (parse_str s)" if "n \<noteq> 34" "n \<noteq> 92" "32 \<le> n"
  proof -
    have "c \<noteq> CHR 34" "c \<noteq> CHR 92" using that(1,2) by (auto simp: n_def)
    then show ?thesis using parse_str_plain [OF r, of s] that(3) by (simp add: n_def)
  qed
  have cs: "char_of (8::int) = CHR 8" "char_of (9::int) = CHR 9" "char_of (10::int) = CHR 10"
    "char_of (12::int) = CHR 12" "char_of (13::int) = CHR 13" "char_of (34::int) = CHR 34"
    "char_of (92::int) = CHR 92"
    by code_simp+
  show ?thesis
    unfolding esc_ascii_def Let_def n_def [symmetric]
    using u p by (auto simp: parse_str_esc simple_escape_def c cs not_less)
qed

lemma replacement_ufffd: "utf8_encode 0xFFFD = replacement"
  by (simp add: utf8_encode_def replacement_def)

lemma parse_str_esc_rune:
  assumes "\<And>q. r = Some q \<Longrightarrow> is_rune q"
  shows "parse_str (esc_rune r @ s) = cons_str (case r of None \<Rightarrow> replacement | Some q \<Rightarrow> q) (parse_str s)"
proof (cases r)
  case None
  have "hex4 (''fffd'' @ s) = Some 0xFFFD" by (simp add: hex_val_def)
  from parse_str_u [OF this] show ?thesis using None by (simp add: esc_rune_def replacement_ufffd)
next
  case (Some q)
  with assms have q: "is_rune q" by simp
  from rune_head [OF q] obtain c cs where qc: "q = c # cs"
    and alt: "(cs = [] \<and> (of_char c :: int) < 0x80) \<or> (cs \<noteq> [] \<and> 0xC2 \<le> (of_char c :: int))" by blast
  show ?thesis
  proof (cases "cs = []")
    case True
    with alt qc Some show ?thesis by (simp add: esc_rune_def parse_str_esc_ascii)
  next
    case False
    then have big: "0xC2 \<le> (of_char c :: int)" using alt by simp
    have plain: "parse_str (q @ s) = cons_str q (parse_str s)"
      by (rule parse_str_plain [OF q]) (use qc big in auto)
    have h: "hex4 (''2028'' @ s) = Some 0x2028" "hex4 (''2029'' @ s) = Some 0x2029"
      by (simp_all add: hex_val_def)
    have e: "utf8_encode 0x2028 = q" if "bytes q = [0xE2, 0x80, 0xA8]"
      using map_char_of_bytes [of q] that by (simp add: utf8_encode_def)
    have e': "utf8_encode 0x2029 = q" if "bytes q = [0xE2, 0x80, 0xA9]"
      using map_char_of_bytes [of q] that by (simp add: utf8_encode_def)
    show ?thesis
      using Some False qc plain parse_str_u [OF h(1)] parse_str_u [OF h(2)] e e'
      by (auto simp: esc_rune_def)
  qed
qed


lemma parse_str_esc_runes:
  assumes "\<And>q. Some q \<in> set rs \<Longrightarrow> is_rune q"
  shows "parse_str (concat (map esc_rune rs) @ CHR 34 # s) =
    Some (concat (map (\<lambda>r. case r of None \<Rightarrow> replacement | Some q \<Rightarrow> q) rs), s)"
  using assms
proof (induction rs)
  case Nil
  then show ?case by (simp add: parse_str.simps(2))
next
  case (Cons r rs)
  then show ?case using parse_str_esc_rune [of r "concat (map esc_rune rs) @ CHR 34 # s"]
    by simp
qed

theorem parse_str_quote: "parse_str (tl (quote_str t) @ s) = Some (to_valid t, s)"
  using parse_str_esc_runes [of "runes t" s] runes_are_runes
  by (simp add: quote_str_def to_valid_def)

section \<open>Values read back\<close>

definition num_end :: "string \<Rightarrow> bool" where
  "num_end s \<longleftrightarrow> (case s of [] \<Rightarrow> True | c # _ \<Rightarrow> \<not> is_digit c \<and> c \<notin> {CHR ''.'', CHR ''e'', CHR ''E''})"

lemma num_end_simps [simp]:
  "num_end []" "num_end (CHR '','' # s)" "num_end (CHR ''}'' # s)" "num_end (CHR '']'' # s)"
  by (simp_all add: num_end_def is_digit_def)

lemma digits_all:
  assumes "\<forall>c \<in> set ds. is_digit c" "ds \<noteq> []" "num_end s"
  shows "digits (ds @ s) = Some (ds, s)"
proof -
  have "takeWhile is_digit s = [] \<and> dropWhile is_digit s = s"
    using assms(3) by (auto simp: num_end_def split: list.splits)
  with assms(1,2) show ?thesis by (simp add: digits_def)
qed

lemma show_uint_no_lead_zero: "0 \<le> n \<Longrightarrow> show_uint n = c # cs \<Longrightarrow> c = CHR ''0'' \<Longrightarrow> cs = []"
proof (induction n arbitrary: c cs rule: show_uint.induct)
  case (1 n)
  show ?case
  proof (cases "n < 10")
    case True
    with "1.prems" show ?thesis by (subst (asm) show_uint.simps) simp
  next
    case False
    then have pos: "0 < n div 10" by simp
    obtain d ds where d: "show_uint (n div 10) = d # ds" by (meson neq_Nil_conv show_uint_not_Nil)
    from False "1.prems"(2) d have c: "c = d" "cs = ds @ [digit_char (n mod 10)]"
      by (subst (asm) show_uint.simps; simp)+
    with "1.IH" False d "1.prems"(3) pos have "ds = []" by simp
    with d c "1.prems"(3) have z: "show_uint (n div 10) = ''0''" by simp
    have "n div 10 < 10"
    proof (rule ccontr)
      assume "\<not> n div 10 < 10"
      with z show False by (subst (asm) show_uint.simps) simp
    qed
    with z have "digit_char (n div 10) = CHR ''0''" by (subst (asm) show_uint.simps) simp
    with \<open>n div 10 < 10\<close> pos digit_char_inverse(2) [of "n div 10"] show ?thesis
      by (simp add: digit_val_def)
  qed
qed

lemma parse_natural_show:
  assumes "0 \<le> n" "num_end s"
  shows "parse_natural (show_uint n @ s) = Some (show_uint n, s)"
proof -
  obtain c cs where c: "show_uint n = c # cs" by (meson neq_Nil_conv show_uint_not_Nil)
  have "digits (show_uint n @ s) = Some (show_uint n, s)"
    using show_uint_digits [OF assms(1)] assms(2) by (intro digits_all) auto
  with c show_uint_no_lead_zero [OF assms(1) c] show ?thesis
    by (auto simp: parse_natural_def)
qed

lemma parse_num_show_int:
  assumes "num_end s"
  shows "parse_num (show_int i @ s) = Some (show_int i, s)"
proof -
  have f: "parse_frac s = Some ([], s)" "parse_exp s = Some ([], s)"
    using assms by (auto simp: parse_frac_def parse_exp_def num_end_def split: list.splits)
  show ?thesis
  proof (cases "i < 0")
    case True
    with f parse_natural_show [of "- i" s] assms show ?thesis
      by (simp add: parse_num_def show_int_def)
  next
    case False
    then obtain c cs where c: "show_uint i = c # cs" "c \<noteq> CHR ''-''"
      using show_uint_Cons [of i] by auto
    with False f parse_natural_show [of i s] assms show ?thesis
      by (simp add: parse_num_def show_int_def)
  qed
qed


text \<open>Values whose numbers are written as integers, their depth, and what reading makes of them.\<close>

fun jwf :: "json \<Rightarrow> bool" where
  "jwf (JNum n) \<longleftrightarrow> (\<exists>i. n = show_int i)"
| "jwf (JArr vs) \<longleftrightarrow> (\<forall>v \<in> set vs. jwf v)"
| "jwf (JObj ms) \<longleftrightarrow> (\<forall>(k, v) \<in> set ms. jwf v)"
| "jwf _ \<longleftrightarrow> True"

fun jdepth :: "json \<Rightarrow> nat" where
  "jdepth (JArr vs) = Suc (fold max (map jdepth vs) 0)"
| "jdepth (JObj ms) = Suc (fold max (map (\<lambda>(k, v). jdepth v) ms) 0)"
| "jdepth _ = 0"

fun jnorm :: "json \<Rightarrow> json" where
  "jnorm (JStr s) = JStr (to_valid s)"
| "jnorm (JArr vs) = JArr (map jnorm vs)"
| "jnorm (JObj ms) = JObj (map (\<lambda>(k, v). (to_valid k, jnorm v)) ms)"
| "jnorm v = v"

lemma fold_max_le: "fold max ns (m::nat) \<le> d \<longleftrightarrow> m \<le> d \<and> (\<forall>n \<in> set ns. n \<le> d)"
  by (induction ns arbitrary: m) auto

lemma not_ws_digit: "is_digit c \<Longrightarrow> \<not> is_ws c"
  by (auto simp: is_digit_def is_ws_def)

lemma show_int_head: "\<exists>c cs. show_int i = c # cs \<and> (c = CHR ''-'' \<or> is_digit c)"
proof (cases "i < 0")
  case False
  obtain c cs where "show_uint i = c # cs" by (meson neq_Nil_conv show_uint_not_Nil)
  with False show_uint_digits [of i c] show ?thesis by (simp add: show_int_def)
qed (simp add: show_int_def)

lemma num_head: 
  assumes "c = CHR ''-'' \<or> is_digit c"
  shows "\<not> is_ws c \<and> c \<notin> {CHR ''{'', CHR ''['', CHR 34}"
  using assms by (auto simp: is_digit_def is_ws_def)

lemma parse_val_num:
  assumes "num_end s"
  shows "parse_val (Suc f) d (show_int i @ s) = Some (JNum (show_int i), s)"
proof -
  obtain c cs where c: "show_int i = c # cs" "c = CHR ''-'' \<or> is_digit c"
    using show_int_head by blast
  from parse_num_show_int [OF assms, of i] c num_head [OF c(2)] show ?thesis by auto
qed

lemma not_ws [simp]:
  "\<not> is_ws (CHR ''{'')" "\<not> is_ws (CHR ''}'')" "\<not> is_ws (CHR ''['')" "\<not> is_ws (CHR '']'')"
  "\<not> is_ws (CHR '','')" "\<not> is_ws (CHR '':'')" "\<not> is_ws (CHR 34)" "\<not> is_ws (CHR ''t'')"
  "\<not> is_ws (CHR ''f'')" "\<not> is_ws (CHR ''n'')"
  by (simp_all add: is_ws_def)

lemma not_digit [simp]:
  "\<not> is_digit (CHR ''{'')" "\<not> is_digit (CHR ''['')" "\<not> is_digit (CHR 34)" "\<not> is_digit (CHR ''t'')"
  "\<not> is_digit (CHR ''f'')" "\<not> is_digit (CHR ''n'')"
  by (simp_all add: is_digit_def)

lemma quote_str_Cons: "quote_str t @ s = CHR 34 # tl (quote_str t) @ s"
  by (simp add: quote_str_def)

lemma parse_val_str: "parse_val (Suc f) d (quote_str t @ s) = Some (JStr (to_valid t), s)"
  unfolding quote_str_Cons by (simp add: parse_str_quote)

lemma jprint_head: "jwf v \<Longrightarrow> \<exists>c cs. jprint v = c # cs \<and> \<not> is_ws c \<and> c \<noteq> CHR '']''"
  by (cases v) (use show_int_head not_ws_digit in \<open>fastforce simp: quote_str_def is_digit_def is_ws_def\<close>)+

lemma parse_jprint:
  "jwf v \<Longrightarrow> jdepth v \<le> nat d \<Longrightarrow> 2 * length (jprint v) < f \<Longrightarrow> num_end s \<Longrightarrow>
     parse_val f d (jprint v @ s) = Some (jnorm v, s)"
  "\<forall>v \<in> set vs. jwf v \<and> jdepth v \<le> nat d \<Longrightarrow> vs \<noteq> [] \<Longrightarrow> 2 * length (jprint_elems vs) + 1 < f \<Longrightarrow>
     parse_elems f d (jprint_elems vs @ s) = Some (map jnorm vs, s)"
  "\<forall>(k, v) \<in> set ms. jwf v \<and> jdepth v \<le> nat d \<Longrightarrow> ms \<noteq> [] \<Longrightarrow> 2 * length (jprint_members ms) + 1 < f \<Longrightarrow>
     parse_members f d (jprint_members ms @ s) = Some (map (\<lambda>(k, v). (to_valid k, jnorm v)) ms, s)"
proof (induction v and vs and ms arbitrary: f d s and f d s and f d s
    rule: jprint_jprint_elems_jprint_members.induct)
  case 1
  then obtain f' where "f = Suc f'" by (cases f) auto
  then show ?case by (simp add: has_prefix_def)
next
  case (2 b)
  then obtain f' where "f = Suc f'" by (cases f) auto
  then show ?case by (simp add: has_prefix_def)
next
  case (3 n)
  then obtain f' i where "f = Suc f'" "n = show_int i" by (cases f) auto
  with 3 show ?case by (simp add: parse_val_num del: parse_val.simps)
next
  case (4 t)
  then obtain f' where "f = Suc f'" by (cases f) auto
  then show ?case by (simp add: parse_val_str del: parse_val.simps)
next
  case (5 vs)
  then obtain f' where f: "f = Suc f'" by (cases f) auto
  show ?case
  proof (cases vs)
    case Nil
    with 5 f show ?thesis by auto
  next
    case (Cons v ws)
    then obtain c cs where c: "jprint_elems vs = c # cs" "\<not> is_ws c" "c \<noteq> CHR '']''"
      using jprint_head [of v] "5.prems"(1) by auto
    have n: "nat (d - 1) = nat d - 1" by simp
    have "fold max (map jdepth vs) 0 \<le> nat d - 1" using "5.prems"(2) by simp
    then have dv: "\<forall>v \<in> set vs. jdepth v \<le> nat (d - 1)" unfolding n by (simp add: fold_max_le)
    have "parse_elems f' (d - 1) (jprint_elems vs @ s) = Some (map jnorm vs, s)"
      using "5.prems" f Cons dv by (intro "5.IH") (auto simp del: jprint_elems.simps)
    with c f Cons "5.prems"(2) show ?thesis by auto
  qed
next
  case (6 ms)
  then obtain f' where f: "f = Suc f'" by (cases f) auto
  show ?case
  proof (cases ms)
    case Nil
    with 6 f show ?thesis by auto
  next
    case (Cons m ns)
    then obtain c cs where c: "jprint_members ms = c # cs" "\<not> is_ws c" "c \<noteq> CHR ''}''"
      by (cases m) (auto simp: quote_str_def)
    have n: "nat (d - 1) = nat d - 1" by simp
    have "fold max (map (\<lambda>(k, v). jdepth v) ms) 0 \<le> nat d - 1" using "6.prems"(2) by simp
    then have dv: "\<forall>(k, v) \<in> set ms. jdepth v \<le> nat (d - 1)" unfolding n by (auto simp: fold_max_le)
    have "parse_members f' (d - 1) (jprint_members ms @ s) = Some (map (\<lambda>(k, v). (to_valid k, jnorm v)) ms, s)"
      using "6.prems" f Cons dv by (intro "6.IH") (auto simp del: jprint_members.simps)
    with c f Cons "6.prems"(2) show ?thesis by auto
  qed
next
  case (8 v vs)
  then obtain f' where f: "f = Suc f'" by (cases f) auto
  let ?rest = "(if vs = [] then '']'' else CHR '','' # jprint_elems vs) @ s"
  have "num_end ?rest" by simp
  with 8 f have v: "parse_val f' d (jprint v @ ?rest) = Some (jnorm v, ?rest)" by auto
  have "parse_elems f' d (jprint_elems vs @ s) = Some (map jnorm vs, s)" if "vs \<noteq> []"
    using 8 f that by auto
  with v f show ?case by auto
next
  case (10 k v ms)
  then obtain f' where f: "f = Suc f'" by (cases f) auto
  let ?rest = "(if ms = [] then ''}'' else CHR '','' # jprint_members ms) @ s"
  have "num_end ?rest" by simp
  with 10 f have v: "parse_val f' d (jprint v @ ?rest) = Some (jnorm v, ?rest)" by auto
  have m: "parse_members f' d (jprint_members ms @ s) = Some (map (\<lambda>(k, v). (to_valid k, jnorm v)) ms, s)"
    if "ms \<noteq> []" using 10 f that by auto
  have p: "jprint_members ((k, v) # ms) @ s = CHR 34 # tl (quote_str k) @ CHR '':'' # jprint v @ ?rest"
    using quote_str_Cons [of k "CHR '':'' # jprint v @ ?rest"] by simp
  show ?case unfolding p f using v m by (auto simp: parse_str_quote)
qed auto

theorem json_parse_jprint:
  assumes "jwf v" "int (jdepth v) \<le> max_nesting"
  shows "json_parse (jprint v) = Some (jnorm v)"
proof -
  have "parse_val (2 * length (jprint v) + 2) max_nesting (jprint v @ []) = Some (jnorm v, [])"
    using assms by (intro parse_jprint(1)) (auto simp: max_nesting_def)
  then show ?thesis by (simp add: json_parse_def json_decode_def)
qed


section \<open>No control character is written\<close>

definition no_control :: "string \<Rightarrow> bool" where
  "no_control s \<longleftrightarrow> (\<forall>c \<in> set s. 32 \<le> (of_char c :: int))"

lemma no_control_simps [simp]:
  "no_control []" "no_control (c # s) \<longleftrightarrow> 32 \<le> (of_char c :: int) \<and> no_control s"
  "no_control (s @ t) \<longleftrightarrow> no_control s \<and> no_control t"
  by (auto simp: no_control_def)

lemma no_control_newline: "no_control s \<Longrightarrow> CHR 10 \<notin> set s \<and> CHR 13 \<notin> set s"
  by (auto simp: no_control_def)

lemma no_control_concat: "(\<And>s. s \<in> set ss \<Longrightarrow> no_control s) \<Longrightarrow> no_control (concat ss)"
  by (induction ss) auto

lemma rune_tail_high:
  assumes "is_rune q" "length q \<noteq> 1"
  shows "\<forall>c \<in> set q. 0x80 \<le> (of_char c :: int)"
proof -
  have "utf8_len (bytes q) = length q" "q \<noteq> []"
    using assms(1) unfolding is_rune_def by (metis append_Nil2, blast)
  with assms(2) show ?thesis
    by (cases q; cases "tl q"; cases "tl (tl q)"; cases "tl (tl (tl q))")
       (auto simp: bytes_def cont_def split: if_splits)
qed

lemma no_control_hex_digit: "0 \<le> n \<Longrightarrow> n < 16 \<Longrightarrow> 32 \<le> (of_char (hex_digit n) :: int)"
  by (simp add: hex_digit_def of_char_of take_bit_eq_mod)

lemma no_control_esc_ascii: "no_control (esc_ascii c)"
proof -
  have "0 \<le> (of_char c :: int)" "(of_char c :: int) < 256" 
    using of_nat_of_char[of c, where 'a=int] by (auto simp: of_char_def)
  then have "0 \<le> (of_char c :: int) div 16" "(of_char c :: int) div 16 < 16" by linarith+
  then show ?thesis by (auto simp: esc_ascii_def Let_def no_control_hex_digit)
qed

lemma no_control_esc_rune:
  assumes "\<And>q. r = Some q \<Longrightarrow> is_rune q"
  shows "no_control (esc_rune r)"
proof (cases r)
  case (Some q)
  have "no_control q" if "length q \<noteq> 1"
    using rune_tail_high [OF assms [OF Some] that] by (force simp: no_control_def)
  with Some show ?thesis by (auto simp: esc_rune_def no_control_esc_ascii)
qed (simp add: esc_rune_def)

lemma no_control_quote_str [simp]: "no_control (quote_str s)"
proof -
  have "no_control (concat (map esc_rune (runes s)))"
    by (rule no_control_concat) (auto intro!: no_control_esc_rune runes_are_runes)
  then show ?thesis by (simp add: quote_str_def)
qed

lemma no_control_show_int [simp]: "no_control (show_int i)"
proof -
  have "no_control (show_uint n)" if "0 \<le> n" for n
    using show_uint_digits [OF that] unfolding no_control_def is_digit_def by force
  then show ?thesis by (simp add: show_int_def)
qed

lemma no_control_jprint:
  "jwf v \<Longrightarrow> no_control (jprint v)"
  "\<forall>v \<in> set vs. jwf v \<Longrightarrow> no_control (jprint_elems vs)"
  "\<forall>(k, v) \<in> set ms. jwf v \<Longrightarrow> no_control (jprint_members ms)"
  by (induction v and vs and ms rule: jprint_jprint_elems_jprint_members.induct) auto

end
