(* ===== verification/Api_Types.thy ===== *)
theory Api_Types
  imports Go_Json_Facts
begin

text \<open>
  The data of the program: the wire types of \<open>pkg/api/v1/feature.go\<close>, the constants of
  \<open>pkg/constraints/protocol.go\<close>, the table rows of \<open>internal/model\<close>, the request and
  response bodies of \<open>internal/dto\<close>, and the key of a feature in etcd. Each struct is a
  record with the fields of the source in their order; the field names carry the
  struct's initials.
\<close>

section \<open>pkg/constraints/protocol.go\<close>

type_synonym action = int

definition DELETE :: action where "DELETE = 0"
definition PUT :: action where "PUT = 1"

definition TypeBool :: string where "TypeBool = ''bool''"
definition TypeString :: string where "TypeString = ''string''"
definition TypeJSON :: string where "TypeJSON = ''json''"
definition TypeStrategy :: string where "TypeStrategy = ''strategy''"
definition TypeNumber :: string where "TypeNumber = ''number''"

lemmas type_defs = TypeBool_def TypeString_def TypeJSON_def TypeStrategy_def TypeNumber_def

section \<open>pkg/api/v1/feature.go\<close>

record FeatureFlag =
  ff_Namespace :: string
  ff_Env :: string
  ff_Key :: string
  ff_Value :: string
  ff_Version :: int
  ff_Revision :: int
  ff_Type :: string

record Rule =
  ru_Attribute :: string
  ru_Operator :: string
  ru_Values :: "string list"
  ru_Result :: string

record FeatureStrategy =
  fs_DefaultValue :: string
  fs_Rules :: "Rule list"

record Message =
  msg_Namespace :: string
  msg_Env :: string
  msg_Key :: string
  msg_Value :: string
  msg_Type :: string
  msg_Version :: int
  msg_Revision :: int
  msg_Action :: action
  msg_UpdatedAt :: int

text \<open>The zero values of \<open>var f v1.FeatureFlag\<close> and its kin.\<close>

definition zero_flag :: FeatureFlag where
  "zero_flag = \<lparr>ff_Namespace = [], ff_Env = [], ff_Key = [], ff_Value = [], ff_Version = 0,
     ff_Revision = 0, ff_Type = []\<rparr>"

definition zero_rule :: Rule where
  "zero_rule = \<lparr>ru_Attribute = [], ru_Operator = [], ru_Values = [], ru_Result = []\<rparr>"

definition zero_strategy :: FeatureStrategy where
  "zero_strategy = \<lparr>fs_DefaultValue = [], fs_Rules = []\<rparr>"

definition zero_message :: Message where
  "zero_message = \<lparr>msg_Namespace = [], msg_Env = [], msg_Key = [], msg_Value = [], msg_Type = [],
     msg_Version = 0, msg_Revision = 0, msg_Action = 0, msg_UpdatedAt = 0\<rparr>"

text \<open>The JSON fields, from the struct tags.\<close>

definition flag_fields :: "FeatureFlag json_field list" where
  "flag_fields =
     [(''namespace'', set_string ff_Namespace_update), (''env'', set_string ff_Env_update),
      (''key'', set_string ff_Key_update), (''value'', set_string ff_Value_update),
      (''version'', set_int 64 ff_Version_update), (''revision'', set_int 64 ff_Revision_update),
      (''type'', set_string ff_Type_update)]"

definition rule_fields :: "Rule json_field list" where
  "rule_fields =
     [(''attribute'', set_string ru_Attribute_update), (''operator'', set_string ru_Operator_update),
      (''value'', set_slice decode_string ru_Values_update), (''result'', set_string ru_Result_update)]"

definition strategy_fields :: "FeatureStrategy json_field list" where
  "strategy_fields =
     [(''default_value'', set_string fs_DefaultValue_update),
      (''rules'', set_slice (\<lambda>j. decode_struct rule_fields j zero_rule) fs_Rules_update)]"

definition message_fields :: "Message json_field list" where
  "message_fields =
     [(''namespace'', set_string msg_Namespace_update), (''env'', set_string msg_Env_update),
      (''key'', set_string msg_Key_update), (''value'', set_string msg_Value_update),
      (''type'', set_string msg_Type_update), (''version'', set_int 64 msg_Version_update),
      (''revision'', set_int 64 msg_Revision_update), (''action'', set_int 32 msg_Action_update),
      (''updated_at'', set_int 64 msg_UpdatedAt_update)]"

definition unmarshal_flag :: "string \<Rightarrow> FeatureFlag option" where
  "unmarshal_flag s = unmarshal flag_fields zero_flag s"

definition unmarshal_strategy :: "string \<Rightarrow> FeatureStrategy option" where
  "unmarshal_strategy s = unmarshal strategy_fields zero_strategy s"

definition unmarshal_message :: "string \<Rightarrow> Message option" where
  "unmarshal_message s = unmarshal message_fields zero_message s"

text \<open>\<open>json.Marshal(flag)\<close>, which is also \<open>(*FeatureFlag).ToJSON\<close>: it cannot fail here.\<close>

definition flag_json :: "FeatureFlag \<Rightarrow> json" where
  "flag_json f =
     JObj [(''namespace'', JStr (ff_Namespace f)), (''env'', JStr (ff_Env f)),
           (''key'', JStr (ff_Key f)), (''value'', JStr (ff_Value f)),
           (''version'', JNum (show_int (ff_Version f))),
           (''revision'', JNum (show_int (ff_Revision f))),
           (''type'', JStr (ff_Type f))]"

definition ToJSON :: "FeatureFlag \<Rightarrow> string" where
  "ToJSON f = jprint (flag_json f)"

text \<open>\<open>json.Marshal(msg)\<close>, the data of a server-sent event.\<close>

definition message_json :: "Message \<Rightarrow> json" where
  "message_json m =
     JObj [(''namespace'', JStr (msg_Namespace m)), (''env'', JStr (msg_Env m)),
           (''key'', JStr (msg_Key m)), (''value'', JStr (msg_Value m)),
           (''type'', JStr (msg_Type m)), (''version'', JNum (show_int (msg_Version m))),
           (''revision'', JNum (show_int (msg_Revision m))),
           (''action'', JNum (show_int (msg_Action m))),
           (''updated_at'', JNum (show_int (msg_UpdatedAt m)))]"

definition message_ok :: "Message \<Rightarrow> bool" where
  "message_ok m \<longleftrightarrow> valid_utf8 (msg_Namespace m) \<and> valid_utf8 (msg_Env m) \<and> valid_utf8 (msg_Key m) \<and>
     valid_utf8 (msg_Value m) \<and> valid_utf8 (msg_Type m) \<and> is_int64 (msg_Version m) \<and>
     is_int64 (msg_Revision m) \<and> - (2 ^ 31) \<le> msg_Action m \<and> msg_Action m < 2 ^ 31 \<and>
     is_int64 (msg_UpdatedAt m)"

text \<open>What the code keeps of a flag: 64-bit numbers; and the flag with its text made valid.\<close>

definition flag_ints :: "FeatureFlag \<Rightarrow> bool" where
  "flag_ints f \<longleftrightarrow> is_int64 (ff_Version f) \<and> is_int64 (ff_Revision f)"

definition flag_utf8 :: "FeatureFlag \<Rightarrow> bool" where
  "flag_utf8 f \<longleftrightarrow> valid_utf8 (ff_Namespace f) \<and> valid_utf8 (ff_Env f) \<and> valid_utf8 (ff_Key f) \<and>
     valid_utf8 (ff_Value f) \<and> valid_utf8 (ff_Type f)"

definition flag_valid :: "FeatureFlag \<Rightarrow> FeatureFlag" where
  "flag_valid f = f\<lparr>ff_Namespace := to_valid (ff_Namespace f), ff_Env := to_valid (ff_Env f),
     ff_Key := to_valid (ff_Key f), ff_Value := to_valid (ff_Value f), ff_Type := to_valid (ff_Type f)\<rparr>"

lemma set_int_show [simp]:
  "is_int64 i \<Longrightarrow> set_int 64 upd (JNum (show_int i)) r = Some (upd (\<lambda>_. i) r)"
  by (simp add: set_int_def parse_int_show_int is_int64_def int64_min_def int64_max_def)

lemma set_string_JStr [simp]: "set_string upd (JStr s) r = Some (upd (\<lambda>_. s) r)"
  by (simp add: set_string_def)

lemma is_ascii_names [simp]:
  "valid_utf8 ''namespace''" "valid_utf8 ''env''" "valid_utf8 ''key''" "valid_utf8 ''value''"
  "valid_utf8 ''version''" "valid_utf8 ''revision''" "valid_utf8 ''type''"
  by (simp_all add: ascii_valid is_ascii_def)

lemma json_parse_ToJSON: "json_parse (ToJSON f) = Some (flag_json (flag_valid f))"
proof -
  have "jwf (flag_json f)" "int (jdepth (flag_json f)) \<le> max_nesting"
    by (auto simp: flag_json_def max_nesting_def)
  then have "json_parse (ToJSON f) = Some (jnorm (flag_json f))"
    unfolding ToJSON_def by (rule json_parse_jprint)
  then show ?thesis by (simp add: flag_json_def flag_valid_def)
qed

lemma unmarshal_ToJSON: "flag_ints f \<Longrightarrow> unmarshal_flag (ToJSON f) = Some (flag_valid f)"
  by (simp add: unmarshal_flag_def unmarshal_def json_parse_ToJSON decode_struct_def flag_json_def
      flag_fields_def find_field_def flag_ints_def flag_valid_def zero_flag_def)

lemma jwf_flag_json [simp]: "jwf (flag_json f)" "jdepth (flag_json f) = 1"
  by (auto simp: flag_json_def)

lemma jwf_message_json [simp]: "jwf (message_json m)" "jdepth (message_json m) = 1"
  by (auto simp: message_json_def)

lemma set_int32_show [simp]:
  "- (2 ^ 31) \<le> i \<Longrightarrow> i < 2 ^ 31 \<Longrightarrow> set_int 32 upd (JNum (show_int i)) r = Some (upd (\<lambda>_. i) r)"
  by (simp add: set_int_def parse_int_show_int is_int64_def int64_min_def int64_max_def)

lemma is_ascii_message_names [simp]: "valid_utf8 ''action''" "valid_utf8 ''updated_at''"
  by (simp_all add: ascii_valid is_ascii_def)

lemma unmarshal_message_json:
  assumes "message_ok m"
  shows "unmarshal_message (jprint (message_json m)) = Some m"
proof -
  have "json_parse (jprint (message_json m)) = Some (jnorm (message_json m))"
    by (rule json_parse_jprint) (simp_all add: max_nesting_def)
  then show ?thesis
    using assms by (simp add: unmarshal_message_def unmarshal_def decode_struct_def message_json_def
        message_fields_def find_field_def zero_message_def message_ok_def)
qed

lemma flag_valid_id [simp]: "flag_utf8 f \<Longrightarrow> flag_valid f = f"
  by (simp add: flag_valid_def flag_utf8_def)

text \<open>
  The codec as an interface: what is written reads back. The users of the stored form of
  a flag (the etcd repository and the outbox worker) rely on this only.
\<close>

locale flag_codec =
  fixes enc :: "FeatureFlag \<Rightarrow> string"
    and dec :: "string \<Rightarrow> FeatureFlag option"
    and ok :: "FeatureFlag \<Rightarrow> bool"
    and norm :: "FeatureFlag \<Rightarrow> FeatureFlag"
  assumes dec_enc: "ok f \<Longrightarrow> dec (enc f) = Some (norm f)"
    and norm_version: "ff_Version (norm f) = ff_Version f"
begin

lemma stored_version: "ok f \<Longrightarrow> map_option ff_Version (dec (enc f)) = Some (ff_Version f)"
  by (simp add: dec_enc norm_version)

end

lemma flag_valid_version [simp]:
  "ff_Version (flag_valid f) = ff_Version f" "ff_Revision (flag_valid f) = ff_Revision f"
  by (simp_all add: flag_valid_def)

interpretation json_codec: flag_codec ToJSON unmarshal_flag flag_ints flag_valid
  by unfold_locales (simp_all add: unmarshal_ToJSON)

text \<open>Whatever is read as a flag has 64-bit numbers.\<close>

lemma decode_members_invariant:
  assumes "\<And>n st v r r'. (n, st) \<in> set fs \<Longrightarrow> P r \<Longrightarrow> st v r = Some r' \<Longrightarrow> P r'"
  shows "P r \<Longrightarrow> decode_members fs ms r = Some r' \<Longrightarrow> P r'"
proof (induction ms arbitrary: r)
  case (Cons m ms)
  obtain k v where m: "m = (k, v)" by (cases m)
  show ?case
  proof (cases "find_field fs k")
    case None
    with Cons m show ?thesis by simp
  next
    case (Some st)
    then obtain n where n: "(n, st) \<in> set fs"
      by (auto simp: find_field_def find_Some_iff in_set_conv_nth split: option.splits dest: map_of_SomeD) metis+
    obtain r1 where r1: "st v r = Some r1" "decode_members fs ms r1 = Some r'"
      using Cons.prems(2) Some m by (auto split: option.splits)
    from Cons.IH [OF assms [OF n Cons.prems(1) r1(1)] r1(2)] show ?thesis .
  qed
qed simp

lemma set_int64_range: "set_int 64 upd j r = Some r' \<Longrightarrow> r' = r \<or> (\<exists>i. is_int64 i \<and> r' = upd (\<lambda>_. i) r)"
  by (auto simp: set_int_def is_int64_def int64_min_def int64_max_def split: json.splits prod.splits option.splits if_splits)

lemma set_string_result: "set_string upd j r = Some r' \<Longrightarrow> r' = r \<or> (\<exists>s. r' = upd (\<lambda>_. s) r)"
  by (auto simp: set_string_def split: json.splits)

lemma unmarshal_flag_ints:
  assumes "unmarshal_flag s = Some f"
  shows "flag_ints f"
proof -
  have "flag_ints zero_flag" by (simp add: flag_ints_def zero_flag_def is_int64_small)
  moreover have "flag_ints r'" if "(n, st) \<in> set flag_fields" "flag_ints r" "st v r = Some r'" for n st v r r'
    using that by (auto simp: flag_fields_def flag_ints_def dest!: set_int64_range set_string_result)
  ultimately show ?thesis
    using assms decode_members_invariant [of flag_fields flag_ints zero_flag _ f]
    by (auto simp: unmarshal_flag_def unmarshal_def decode_struct_def split: option.splits json.splits)
qed

section \<open>internal/model\<close>

record FeatureMaster =
  fm_ID :: int
  fm_Namespace :: string
  fm_Env :: string
  fm_Key :: string
  fm_Type :: string
  fm_Version :: int
  fm_CurrentVal :: string
  fm_UpdatedAt :: int
  fm_UpdatedBy :: string

record FeatureAudit =
  fa_ID :: int
  fa_Namespace :: string
  fa_Env :: string
  fa_Key :: string
  fa_OldValue :: string
  fa_NewValue :: string
  fa_Type :: string
  fa_Operator :: string
  fa_TraceID :: string
  fa_IP :: string
  fa_CreatedAt :: int

record OutboxTask =
  ot_ID :: int
  ot_Key :: string
  ot_Payload :: string
  ot_Status :: int
  ot_RetryCount :: int
  ot_TraceID :: string
  ot_CreatedAt :: int
  ot_UpdatedAt :: int

definition StatusPending :: int where "StatusPending = 0"
definition StatusCompleted :: int where "StatusCompleted = 1"
definition StatusFailed :: int where "StatusFailed = 2"

lemmas status_defs = StatusPending_def StatusCompleted_def StatusFailed_def

record SDKClient =
  sc_ID :: int
  sc_AppID :: string
  sc_APIKey :: string
  sc_Env :: string
  sc_Status :: int

section \<open>internal/dto\<close>

record LoginReq =
  lr_Username :: string
  lr_Password :: string

record RefreshReq =
  rr_RefreshToken :: string

record CreateFeatureRequest =
  cr_Namespace :: string
  cr_Env :: string
  cr_Key :: string
  cr_Value :: string
  cr_Type :: string

record GetFeatureRequest =
  gr_Namespace :: string
  gr_Env :: string
  gr_Key :: string

record RollbackFeatureRequest =
  rf_Namespace :: string
  rf_Env :: string
  rf_AuditID :: int

record UserInfo =
  ui_ID :: string
  ui_Username :: string
  ui_Role :: string

record TokenResp =
  tk_AccessToken :: string
  tk_RefreshToken :: string
  tk_ExpiresIn :: int
  tk_User :: UserInfo

record SnapshotResponse =
  sr_Data :: "FeatureFlag list"
  sr_Revision :: int

record FeatureItem =
  fi_ID :: int
  fi_Namespace :: string
  fi_Env :: string
  fi_Key :: string
  fi_Type :: string
  fi_Version :: int
  fi_Value :: string
  fi_UpdatedAt :: int
  fi_UpdatedBy :: string

record AuditLogItem =
  al_ID :: int
  al_Namespace :: string
  al_Env :: string
  al_Key :: string
  al_OldValue :: string
  al_NewValue :: string
  al_Type :: string
  al_Operator :: string
  al_CreatedAt :: int

section \<open>The key of a feature in etcd\<close>

definition FeatureRootPrefix :: string where
  "FeatureRootPrefix = ''/mizuflow/''"

definition BuildFeatureKey :: "string \<Rightarrow> string \<Rightarrow> string \<Rightarrow> string" where
  "BuildFeatureKey env namespace key =
     FeatureRootPrefix @ env @ ''/'' @ namespace @ ''/features/'' @ key"

text \<open>
  The parser of \<open>Run\<close> for delete events: environment, namespace and key of a stored key.
\<close>

definition parse_feature_key :: "string \<Rightarrow> string \<times> string \<times> string" where
  "parse_feature_key k =
     (let parts = split_on (CHR ''/'') k in
      if length parts \<ge> 6 then (parts ! 2, parts ! 3, parts ! 5) else ([], [], k))"

lemma split_BuildFeatureKey:
  assumes "CHR ''/'' \<notin> set env" "CHR ''/'' \<notin> set ns"
  shows "split_on (CHR ''/'') (BuildFeatureKey env ns key) =
    [[], ''mizuflow'', env, ns, ''features''] @ split_on (CHR ''/'') key"
proof -
  have "BuildFeatureKey env ns key = CHR ''/'' # ''mizuflow'' @ CHR ''/'' # env @ CHR ''/'' # ns @
      CHR ''/'' # ''features'' @ CHR ''/'' # key"
    by (simp add: BuildFeatureKey_def FeatureRootPrefix_def)
  moreover have "split_on (CHR ''/'') (''mizuflow'' @ CHR ''/'' # s) = ''mizuflow'' # split_on (CHR ''/'') s"
    "split_on (CHR ''/'') (''features'' @ CHR ''/'' # s) = ''features'' # split_on (CHR ''/'') s" for s
    by (rule split_on_append_sep; simp)+
  ultimately show ?thesis using assms by (simp add: split_on_append_sep del: append.simps)
qed

lemma BuildFeatureKey_inj:
  assumes "CHR ''/'' \<notin> set e1" "CHR ''/'' \<notin> set n1" "CHR ''/'' \<notin> set e2" "CHR ''/'' \<notin> set n2"
  shows "BuildFeatureKey e1 n1 k1 = BuildFeatureKey e2 n2 k2 \<longleftrightarrow> e1 = e2 \<and> n1 = n2 \<and> k1 = k2"
proof
  assume eq: "BuildFeatureKey e1 n1 k1 = BuildFeatureKey e2 n2 k2"
  from arg_cong [OF eq, of "split_on (CHR ''/'')"] assms have "e1 = e2" "n1 = n2"
    by (simp_all add: split_BuildFeatureKey)
  with eq show "e1 = e2 \<and> n1 = n2 \<and> k1 = k2" by (simp add: BuildFeatureKey_def)
qed simp

end
