(* ===== verification/Revision_Buffer.thy ===== *)
theory Revision_Buffer
  imports Api_Types
begin

text \<open>
  \<open>internal/buffer/revision_buffer.go\<close>: the ring buffer of recent messages from which a
  reconnecting client is brought up to date. \<open>AddMessage\<close> and \<open>GetSince\<close> are translated
  with their index arithmetic and the binary search of \<open>sort.Search\<close>; \<open>None\<close> is an index
  panic. The abstraction \<open>rb_log\<close> is the buffered history, oldest first; \<open>since_spec\<close> says
  what \<open>GetSince\<close> promises in terms of it. The mutex makes each operation one step.
\<close>

section \<open>The code\<close>

record RevisionBuffer =
  rb_messages :: "Message list"
  rb_size :: nat
  rb_head :: nat
  rb_isFull :: bool

definition NewRevisionBuffer :: "int \<Rightarrow> RevisionBuffer" where
  "NewRevisionBuffer sz =
     (let n = (if sz \<le> 0 then 1000 else nat sz) in
      \<lparr>rb_messages = replicate n zero_message, rb_size = n, rb_head = 0, rb_isFull = False\<rparr>)"

definition AddMessage :: "Message \<Rightarrow> RevisionBuffer \<Rightarrow> RevisionBuffer option" where
  "AddMessage msg b =
     (case slice_set (rb_messages b) (rb_head b) msg of
        None \<Rightarrow> None
      | Some ms \<Rightarrow>
          let head = (rb_head b + 1) mod rb_size b in
          Some (b\<lparr>rb_messages := ms, rb_head := head,
                   rb_isFull := (if head = 0 then True else rb_isFull b)\<rparr>))"

text \<open>\<open>sort.Search(n, f)\<close> with the loop variables \<open>i\<close> and \<open>j\<close>; \<open>f\<close> may panic.\<close>

function sort_search :: "(nat \<Rightarrow> bool option) \<Rightarrow> nat \<Rightarrow> nat \<Rightarrow> nat option" where
  "sort_search f i j =
     (if i < j then
        (let h = (i + j) div 2 in
         case f h of
           None \<Rightarrow> None
         | Some b \<Rightarrow> if \<not> b then sort_search f (h + 1) j else sort_search f i h)
      else Some i)"
  by pat_completeness auto
termination by (relation "measure (\<lambda>(f, i, j). j - i)") auto

declare sort_search.simps [simp del]

definition GetSince :: "RevisionBuffer \<Rightarrow> int \<Rightarrow> (Message list \<times> bool) option" where
  "GetSince b lastRev =
     (let count = (if rb_isFull b then rb_size b else rb_head b);
          start = (if rb_isFull b then rb_head b else 0)
      in if count = 0 then Some ([], True)
      else (case slice_get (rb_messages b) start of
          None \<Rightarrow> None
        | Some oldest \<Rightarrow>
            if lastRev < msg_Revision oldest then Some ([], False)
            else
              (let physIdx = (\<lambda>i. (start + i) mod rb_size b);
                   searchFunc = (\<lambda>i. map_option (\<lambda>m. lastRev < msg_Revision m)
                                       (slice_get (rb_messages b) (physIdx i)))
               in case sort_search searchFunc 0 count of
                    None \<Rightarrow> None
                  | Some idx \<Rightarrow>
                      if idx = count then Some ([], True)
                      else map_option (\<lambda>result. (result, True))
                             (those (map (\<lambda>i. slice_get (rb_messages b) (physIdx i)) [idx..<count])))))"

section \<open>The specification\<close>

text \<open>The buffered history, oldest first.\<close>

definition rb_log :: "RevisionBuffer \<Rightarrow> Message list" where
  "rb_log b = (if rb_isFull b then drop (rb_head b) (rb_messages b) @ take (rb_head b) (rb_messages b)
               else take (rb_head b) (rb_messages b))"

definition rb_inv :: "RevisionBuffer \<Rightarrow> bool" where
  "rb_inv b \<longleftrightarrow> 0 < rb_size b \<and> length (rb_messages b) = rb_size b \<and> rb_head b < rb_size b"

definition increasing :: "Message list \<Rightarrow> bool" where
  "increasing ms \<longleftrightarrow> sorted_wrt (\<lambda>a b. msg_Revision a < msg_Revision b) ms"

definition since_spec :: "Message list \<Rightarrow> int \<Rightarrow> Message list \<times> bool" where
  "since_spec log r =
     (if log = [] then ([], True)
      else if r < msg_Revision (hd log) then ([], False)
      else (filter (\<lambda>m. r < msg_Revision m) log, True))"

section \<open>The ring and its history\<close>

lemma rb_inv_new [inv_intros]: "rb_inv (NewRevisionBuffer n)"
  by (simp add: rb_inv_def NewRevisionBuffer_def Let_def)

lemma rb_log_new [simp]: "rb_log (NewRevisionBuffer n) = []"
  by (simp add: rb_log_def NewRevisionBuffer_def Let_def)

lemma rb_size_new: "rb_size (NewRevisionBuffer n) = (if n \<le> 0 then 1000 else nat n)"
  by (simp add: NewRevisionBuffer_def Let_def)

lemma length_rb_log: "rb_inv b \<Longrightarrow> length (rb_log b) = (if rb_isFull b then rb_size b else rb_head b)"
  by (simp add: rb_log_def rb_inv_def)

lemma AddMessage_total:
  assumes "rb_inv b"
  obtains b' where "AddMessage m b = Some b'" "rb_inv b'" "rb_size b' = rb_size b"
  using assms by (auto simp: AddMessage_def rb_inv_def Let_def)

lemma AddMessage_log:
  assumes inv: "rb_inv b" and add: "AddMessage m b = Some b'"
  shows "rb_log b' = last_n (rb_size b) (rb_log b @ [m])"
proof -
  let ?h = "rb_head b" and ?ms = "rb_messages b" and ?n = "rb_size b"
  have len: "length ?ms = ?n" "?h < ?n" "0 < ?n" using inv by (auto simp: rb_inv_def)
  have b': "b' = b\<lparr>rb_messages := ?ms[?h := m], rb_head := (?h + 1) mod ?n,
      rb_isFull := (if (?h + 1) mod ?n = 0 then True else rb_isFull b)\<rparr>"
    using add len by (simp add: AddMessage_def Let_def)
  have upd: "take (Suc ?h) (?ms[?h := m]) = take ?h ?ms @ [m]"
    using len by (simp add: take_Suc_conv_app_nth)
  have d: "drop (Suc ?h) (?ms[?h := m]) = drop (Suc ?h) ?ms" by simp
  show ?thesis
  proof (cases "Suc ?h = ?n")
    case True
    then have full: "?ms[?h := m] = take ?h ?ms @ [m]" using upd len by simp
    show ?thesis
    proof (cases "rb_isFull b")
      case True
      have "drop ?h ?ms = [?ms ! ?h]" using \<open>Suc ?h = ?n\<close> len
        by (metis Cons_nth_drop_Suc drop_all le_refl)
      with True \<open>Suc ?h = ?n\<close> len show ?thesis
        by (simp add: rb_log_def b' full last_n_def)
    next
      case False
      with \<open>Suc ?h = ?n\<close> len show ?thesis by (simp add: rb_log_def b' full)
    qed
  next
    case False
    then have h: "(?h + 1) mod ?n = Suc ?h" using len by simp
    show ?thesis
    proof (cases "rb_isFull b")
      case True
      have "drop ?h ?ms = ?ms ! ?h # drop (Suc ?h) ?ms" using len by (simp add: Cons_nth_drop_Suc)
      with True h upd d len show ?thesis
        by (simp add: rb_log_def b' last_n_def)
    next
      case False
      with h upd len show ?thesis by (simp add: rb_log_def b')
    qed
  qed
qed

lemma rb_log_nth:
  assumes inv: "rb_inv b" and i: "i < length (rb_log b)"
  shows "rb_log b ! i = rb_messages b ! (((if rb_isFull b then rb_head b else 0) + i) mod rb_size b)"
proof (cases "rb_isFull b")
  case True
  let ?h = "rb_head b" and ?n = "rb_size b"
  have len: "length (rb_messages b) = ?n" "?h < ?n" "i < ?n"
    using inv i True by (auto simp: rb_inv_def length_rb_log [OF inv])
  show ?thesis
  proof (cases "i < ?n - ?h")
    case True
    then have "(?h + i) mod ?n = ?h + i" by simp
    with True len \<open>rb_isFull b\<close> show ?thesis by (simp add: rb_log_def nth_append)
  next
    case False
    with len have "?n \<le> ?h + i" "?h + i - ?n < ?n" by auto
    then have "(?h + i) mod ?n = ?h + i - ?n" by (simp add: le_mod_geq)
    also have "\<dots> = i - (?n - ?h)" using len by simp
    finally have "(?h + i) mod ?n = i - (?n - ?h)" .
    with False len \<open>rb_isFull b\<close> show ?thesis by (simp add: rb_log_def nth_append)
  qed
next
  case False
  with inv i have "i < rb_head b" "rb_head b < rb_size b" by (auto simp: rb_inv_def length_rb_log [OF inv])
  with False show ?thesis by (simp add: rb_log_def)
qed

section \<open>The binary search\<close>

text \<open>
  On a predicate that stays true once it is true, \<open>sort.Search\<close> returns the first index
  where it holds, or \<open>n\<close>: \<open>k\<close> here.
\<close>

lemma sort_search_least:
  assumes "\<And>h. h < n \<Longrightarrow> f h = Some (k \<le> h)"
  shows "i \<le> k \<Longrightarrow> k \<le> j \<Longrightarrow> j \<le> n \<Longrightarrow> sort_search f i j = Some k"
  using assms
proof (induction f i j rule: sort_search.induct)
  case (1 f i j)
  show ?case
  proof (cases "i < j")
    case True
    let ?h = "(i + j) div 2"
    have h: "i \<le> ?h" "?h < j" "?h < n" using True "1.prems" by auto
    then have f: "f ?h = Some (k \<le> ?h)" using "1.prems" by blast
    show ?thesis
    proof (cases "k \<le> ?h")
      case True
      with f h "1.prems" \<open>i < j\<close> have "sort_search f i ?h = Some k"
        by (intro "1.IH"(2)) auto
      with True f \<open>i < j\<close> show ?thesis by (subst sort_search.simps) (simp add: Let_def)
    next
      case False
      with f h "1.prems" \<open>i < j\<close> have "sort_search f (?h + 1) j = Some k"
        by (intro "1.IH"(1)) auto
      with False f \<open>i < j\<close> show ?thesis by (subst sort_search.simps) (simp add: Let_def)
    qed
  next
    case False
    with "1.prems" show ?thesis by (subst sort_search.simps) simp
  qed
qed

text \<open>In an increasing history, the messages after \<open>r\<close> are those from the first newer one on.\<close>

lemma increasing_split:
  assumes "increasing ms" and k: "k = length (filter (\<lambda>m. msg_Revision m \<le> r) ms)"
  shows "filter (\<lambda>m. r < msg_Revision m) ms = drop k ms"
    and "i < length ms \<Longrightarrow> (r < msg_Revision (ms ! i)) = (k \<le> i)"
proof -
  show f: "filter (\<lambda>m. r < msg_Revision m) ms = drop k ms"
    using assms filter_sorted_wrt_drop unfolding increasing_def by blast
  assume i: "i < length ms"
  have t: "filter (\<lambda>m. msg_Revision m \<le> r) ms = take k ms"
    using assms(1) unfolding k increasing_def
  proof (induction ms)
    case (Cons m ms)
    show ?case
    proof (cases "msg_Revision m \<le> r")
      case False
      with Cons.prems have "\<forall>y \<in> set ms. \<not> msg_Revision y \<le> r" by auto
      then have "filter (\<lambda>m. msg_Revision m \<le> r) ms = []" by (simp add: filter_empty_conv)
      with False show ?thesis by simp
    qed (use Cons in simp)
  qed simp
  show "(r < msg_Revision (ms ! i)) = (k \<le> i)"
  proof (cases "k \<le> i")
    case True
    then have "drop k ms ! (i - k) \<in> set (drop k ms)" using i by (intro nth_mem) simp
    then have "ms ! i \<in> set (drop k ms)" using True i by simp
    then have "ms ! i \<in> set (filter (\<lambda>m. r < msg_Revision m) ms)" using f by simp
    with True show ?thesis by simp
  next
    case False
    then have "ms ! i \<in> set (take k ms)" using i by (metis in_set_conv_nth length_take min_less_iff_conj not_le nth_take)
    then have "ms ! i \<in> set (filter (\<lambda>m. msg_Revision m \<le> r) ms)" using t by simp
    with False show ?thesis by simp
  qed
qed

section \<open>GetSince does what it promises\<close>

lemma GetSince_spec:
  assumes inv: "rb_inv b" and inc: "increasing (rb_log b)"
  shows "GetSince b r = Some (since_spec (rb_log b) r)"
proof -
  define st where "st = (if rb_isFull b then rb_head b else 0)"
  define n where "n = length (rb_log b)"
  define k where "k = length (filter (\<lambda>m. msg_Revision m \<le> r) (rb_log b))"
  have cnt: "(if rb_isFull b then rb_size b else rb_head b) = n"
    by (simp add: n_def length_rb_log [OF inv])
  have get: "slice_get (rb_messages b) ((st + i) mod rb_size b) = Some (rb_log b ! i)" if "i < n" for i
    using rb_log_nth [OF inv, of i] that inv by (simp add: n_def st_def rb_inv_def)
  have k: "k \<le> n" by (simp add: k_def n_def)
  have search: "sort_search (\<lambda>i. map_option (\<lambda>m. r < msg_Revision m)
      (slice_get (rb_messages b) ((st + i) mod rb_size b))) 0 n = Some k"
    using increasing_split(2) [OF inc k_def] get k by (intro sort_search_least [of n]) (auto simp: n_def)
  have res: "those (map (\<lambda>i. slice_get (rb_messages b) ((st + i) mod rb_size b)) [k..<n])
      = Some (filter (\<lambda>m. r < msg_Revision m) (rb_log b))"
  proof -
    have "map ((!) (rb_log b)) [k..<n] = drop k (rb_log b)"
      unfolding n_def by (rule nth_equalityI) auto
    then show ?thesis using increasing_split(1) [OF inc k_def]
      by (subst those_map_Some [where g = "(!) (rb_log b)"]) (simp_all add: get)
  qed
  have first: "slice_get (rb_messages b) st = Some (hd (rb_log b))" if "0 < n"
    using get [OF that] inv that by (simp add: rb_inv_def n_def hd_conv_nth st_def split: if_splits)
  show ?thesis
  proof (cases "n = 0")
    case True
    then show ?thesis using cnt by (simp add: GetSince_def since_spec_def n_def Let_def)
  next
    case False
    then have ne: "rb_log b \<noteq> []" by (auto simp: n_def)
    have last: "filter (\<lambda>m. r < msg_Revision m) (rb_log b) = []" if "k = n"
      using increasing_split(1) [OF inc k_def] that by (simp add: n_def)
    show ?thesis
      unfolding GetSince_def Let_def cnt st_def [symmetric] since_spec_def
      using False ne first search res last by simp
  qed
qed

section \<open>The replay log as an interface\<close>

text \<open>
  What \<open>FeatureService\<close> and the stream handler use of the buffer: messages are appended,
  the last \<open>cap\<close> of them are kept, and \<open>since\<close> answers by \<open>since_spec\<close>.
\<close>

locale replay_log =
  fixes add :: "Message \<Rightarrow> 'b \<Rightarrow> 'b option"
    and since :: "'b \<Rightarrow> int \<Rightarrow> (Message list \<times> bool) option"
    and log :: "'b \<Rightarrow> Message list"
    and cap :: "'b \<Rightarrow> nat"
    and inv :: "'b \<Rightarrow> bool"
  assumes add_ok: "inv b \<Longrightarrow> \<exists>b'. add m b = Some b' \<and> inv b' \<and> cap b' = cap b \<and> log b' = last_n (cap b) (log b @ [m])"
    and since_ok: "inv b \<Longrightarrow> increasing (log b) \<Longrightarrow> since b r = Some (since_spec (log b) r)"
    and log_bound: "inv b \<Longrightarrow> length (log b) \<le> cap b"
begin

lemma add_all_ok:
  "inv b \<Longrightarrow> \<exists>b'. fold_opt add ms b = Some b' \<and> inv b' \<and> cap b' = cap b \<and>
     log b' = last_n (cap b) (log b @ ms)"
proof (induction ms arbitrary: b)
  case (Cons m ms)
  from add_ok [OF Cons.prems, of m] obtain b1
    where b1: "add m b = Some b1" "inv b1" "cap b1 = cap b" "log b1 = last_n (cap b) (log b @ [m])" by blast
  from Cons.IH [OF b1(2)] b1 show ?case
    by (auto simp: last_n_last_n_append [of _ "log b @ [m]", simplified])
qed (simp add: log_bound)

lemma add_all_SomeD:
  assumes "inv b" "fold_opt add ms b = Some b'"
  shows "inv b'" "cap b' = cap b" "log b' = last_n (cap b) (log b @ ms)"
  using add_all_ok [OF assms(1), of ms] assms(2) by auto

lemma increasing_last_n: "increasing ms \<Longrightarrow> increasing (last_n n ms)"
  unfolding increasing_def by (rule sorted_wrt_last_n)

text \<open>
  Starting from an empty log, an affirmative answer to a client is the whole of what it
  missed: nothing newer than its revision has been overwritten.
\<close>

lemma since_complete:
  assumes "inv b0" "log b0 = []" "fold_opt add ms b0 = Some b"
    and inc: "increasing ms" and "0 < cap b0" "ms \<noteq> []"
    and ans: "since b r = Some (res, True)"
  shows "res = filter (\<lambda>m. r < msg_Revision m) ms"
proof -
  have log: "inv b" "log b = last_n (cap b0) ms"
    using add_all_SomeD [OF assms(1,3)] assms(2) by simp_all
  obtain old where ms: "ms = old @ log b" using last_n_suffix log(2) by metis
  have ne: "log b \<noteq> []" using assms(5,6) log(2) by (metis length_0_conv length_last_n min_def not_gr0)
  have "since b r = Some (since_spec (log b) r)"
    using log increasing_last_n [OF inc] by (intro since_ok) simp_all
  with ans ne have res: "res = filter (\<lambda>m. r < msg_Revision m) (log b)" and le: "msg_Revision (hd (log b)) \<le> r"
    by (auto simp: since_spec_def split: if_splits)
  have "\<forall>m \<in> set old. \<not> r < msg_Revision m"
    using inc ms ne le by (fastforce simp: increasing_def sorted_wrt_append neq_Nil_conv)
  then have "filter (\<lambda>m. r < msg_Revision m) old = []" by (simp add: filter_empty_conv)
  then show ?thesis using res by (subst ms) simp
qed

text \<open>A refusal means the client's revision is older than everything kept.\<close>

lemma since_refused:
  assumes "inv b" "increasing (log b)" "since b r = Some (res, False)"
  shows "res = [] \<and> log b \<noteq> [] \<and> (\<forall>m \<in> set (log b). r < msg_Revision m)"
proof -
  have "since_spec (log b) r = (res, False)" using since_ok [OF assms(1,2)] assms(3) by simp
  then show ?thesis using assms(2)
    by (cases "log b") (auto simp: since_spec_def increasing_def split: if_splits)
qed

end

interpretation ring: replay_log AddMessage GetSince rb_log rb_size rb_inv
proof unfold_locales
  fix b m assume inv: "rb_inv b"
  from AddMessage_total [OF inv, of m] AddMessage_log [OF inv, of m]
  show "\<exists>b'. AddMessage m b = Some b' \<and> rb_inv b' \<and> rb_size b' = rb_size b \<and>
      rb_log b' = last_n (rb_size b) (rb_log b @ [m])" by metis
qed (auto simp: GetSince_spec length_rb_log rb_inv_def)

section \<open>Properties\<close>

text \<open>
  C2. The ring buffer refines a bounded log. After any increasing sequence of messages has
  been added to a new buffer (nothing panics on the way), \<open>GetSince\<close> answers for every
  revision as the specification does on the last \<open>size\<close> messages: a refusal when the
  revision is older than the oldest one kept, otherwise exactly the newer ones, in order.
\<close>

theorem ring_refines_log:
  assumes "increasing ms"
  shows "\<exists>b. fold_opt AddMessage ms (NewRevisionBuffer n) = Some b \<and>
    (\<forall>r. GetSince b r = Some (since_spec (last_n (if n \<le> 0 then 1000 else nat n) ms) r))"
proof -
  obtain b where b: "fold_opt AddMessage ms (NewRevisionBuffer n) = Some b" "rb_inv b"
    "rb_log b = last_n (if n \<le> 0 then 1000 else nat n) ms"
    using ring.add_all_ok [OF rb_inv_new, of ms n] by (auto simp: rb_size_new)
  then show ?thesis using GetSince_spec [of b] ring.increasing_last_n [OF assms] by metis
qed

definition rev_msg :: "int \<Rightarrow> Message" where
  "rev_msg r = zero_message\<lparr>msg_Revision := r\<rparr>"

lemma rev_msg_simps [simp]: "msg_Revision (rev_msg r) = r" "rev_msg r = rev_msg s \<longleftrightarrow> r = s"
  by (auto simp: rev_msg_def zero_message_def)

theorem ring_refines_log_witness:
  "\<exists>b. fold_opt AddMessage (map rev_msg [1, 2, 3, 4]) (NewRevisionBuffer 3) = Some b \<and>
    GetSince b 1 = Some ([], False) \<and> GetSince b 2 = Some (map rev_msg [3, 4], True) \<and>
    GetSince b 4 = Some ([], True)"
proof -
  have "increasing (map rev_msg [1, 2, 3, 4])" by (simp add: increasing_def)
  from ring_refines_log [OF this, of 3] show ?thesis by (auto simp: since_spec_def last_n_def)
qed

text \<open>
  C19. An affirmative answer is complete: if a buffer that has seen the increasing, non-empty
  history \<open>ms\<close> since it was created answers \<open>true\<close>, the messages it returns are all the
  messages of the whole history (not only of the part still kept) that are newer than the
  client's revision.
\<close>

theorem replay_complete:
  assumes "increasing ms" "ms \<noteq> []"
    and "fold_opt AddMessage ms (NewRevisionBuffer n) = Some b"
    and "GetSince b r = Some (res, True)"
  shows "res = filter (\<lambda>m. r < msg_Revision m) ms"
  using ring.since_complete [OF rb_inv_new rb_log_new assms(3,1) _ assms(2,4)]
  by (simp add: rb_size_new)

theorem replay_complete_witness:
  "\<exists>b. fold_opt AddMessage (map rev_msg [1, 2, 3, 4]) (NewRevisionBuffer 2) = Some b \<and>
    GetSince b 3 = Some (filter (\<lambda>m. 3 < msg_Revision m) (map rev_msg [1, 2, 3, 4]), True)"
proof -
  have inc: "increasing (map rev_msg [1, 2, 3, 4])" by (simp add: increasing_def)
  obtain b where b: "fold_opt AddMessage (map rev_msg [1, 2, 3, 4]) (NewRevisionBuffer 2) = Some b"
    "rb_inv b" "rb_log b = last_n 2 (map rev_msg [1, 2, 3, 4])"
    using ring.add_all_ok [OF rb_inv_new, of "map rev_msg [1, 2, 3, 4]" 2] by (auto simp: rb_size_new)
  have "GetSince b 3 = Some (map rev_msg [4], True)"
    using GetSince_spec [OF b(2)] b(3) by (simp add: since_spec_def last_n_def increasing_def)
  with replay_complete [OF inc _ b(1)] b(1) show ?thesis by fastforce
qed

end
