(* ===== verification/Feature_Cache.thy ===== *)
theory Feature_Cache
  imports Api_Types
begin

text \<open>
  \<open>internal/service/cache.go\<close>: the snapshot of all flags that new clients are given. The
  map is keyed by the caller's choice of key; \<open>GetSnapshot\<close> ranges over the map in an order
  the run time picks, the argument \<open>ord\<close>. The mutex makes each operation one step.
\<close>

section \<open>The code\<close>

record FeatureCache =
  fc_data :: "(string, FeatureFlag) gomap"
  fc_revision :: int

definition NewFeatureCache :: FeatureCache where
  "NewFeatureCache = \<lparr>fc_data = [], fc_revision = 0\<rparr>"

definition cache_Update :: "FeatureFlag \<Rightarrow> FeatureCache \<Rightarrow> FeatureCache" where
  "cache_Update f c =
     (let c1 = c\<lparr>fc_data := gm_put (ff_Key f) f (fc_data c)\<rparr> in
      if ff_Revision f > fc_revision c then c1\<lparr>fc_revision := ff_Revision f\<rparr> else c1)"

definition cache_Delete :: "string \<Rightarrow> int \<Rightarrow> FeatureCache \<Rightarrow> FeatureCache" where
  "cache_Delete key rv c =
     (let c1 = c\<lparr>fc_data := gm_del key (fc_data c)\<rparr> in
      if rv > fc_revision c then c1\<lparr>fc_revision := rv\<rparr> else c1)"

definition GetSnapshot ::
  "((string \<times> FeatureFlag) list \<Rightarrow> (string \<times> FeatureFlag) list) \<Rightarrow> FeatureCache \<Rightarrow> FeatureFlag list \<times> int" where
  "GetSnapshot ord c = (map snd (ord (fc_data c)), fc_revision c)"

section \<open>Invariant and functional behaviour\<close>

text \<open>The map has one entry per key, stored under the flag's own key.\<close>

definition cache_inv :: "FeatureCache \<Rightarrow> bool" where
  "cache_inv c \<longleftrightarrow> gm_wf (fc_data c) \<and> (\<forall>k f. gm_get (fc_data c) k = Some f \<longrightarrow> ff_Key f = k)"

lemma cache_inv_new [inv_intros]: "cache_inv NewFeatureCache"
  by (simp add: cache_inv_def NewFeatureCache_def)

lemma cache_data_Update [simp]:
  "gm_get (fc_data (cache_Update f c)) k = (if k = ff_Key f then Some f else gm_get (fc_data c) k)"
  by (simp add: cache_Update_def Let_def)

lemma cache_data_Delete [simp]:
  "gm_get (fc_data (cache_Delete key rv c)) k = (if k = key then None else gm_get (fc_data c) k)"
  by (simp add: cache_Delete_def Let_def)

lemma cache_revision_Update [simp]:
  "fc_revision (cache_Update f c) = max (fc_revision c) (ff_Revision f)"
  by (simp add: cache_Update_def Let_def)

lemma cache_revision_Delete [simp]:
  "fc_revision (cache_Delete key rv c) = max (fc_revision c) rv"
  by (simp add: cache_Delete_def Let_def)

lemma cache_inv_Update [inv_intros]: "cache_inv c \<Longrightarrow> cache_inv (cache_Update f c)"
  by (auto simp: cache_inv_def cache_Update_def Let_def)

lemma cache_inv_Delete [inv_intros]: "cache_inv c \<Longrightarrow> cache_inv (cache_Delete key rv c)"
  by (auto simp: cache_inv_def cache_Delete_def Let_def)

lemma GetSnapshot_set:
  assumes "cache_inv c" "iteration_order ord"
  shows "set (fst (GetSnapshot ord c)) = {f. \<exists>k. gm_get (fc_data c) k = Some f}"
  using assms gm_values [of "fc_data c"] iteration_order_set [OF assms(2), of "fc_data c"]
  by (simp add: GetSnapshot_def cache_inv_def)

lemma GetSnapshot_distinct_keys:
  assumes "cache_inv c" "iteration_order ord"
  shows "distinct (map ff_Key (fst (GetSnapshot ord c)))"
proof -
  let ?xs = "ord (fc_data c)"
  have keys: "ff_Key (snd p) = fst p" if "p \<in> set ?xs" for p
  proof -
    have "p \<in> set (fc_data c)" using that iteration_order_set [OF assms(2), of "fc_data c"] by blast
    then have "gm_get (fc_data c) (fst p) = Some (snd p)"
      using assms(1) gm_wf_in_iff [of "fc_data c" "fst p" "snd p"] by (simp add: cache_inv_def)
    then show ?thesis using assms(1) unfolding cache_inv_def by blast
  qed
  have eq: "mset (map fst ?xs) = mset (map fst (fc_data c))"
    using assms(2) by (simp add: iteration_order_def)
  have "distinct (map fst ?xs)"
    using assms(1) mset_eq_imp_distinct_iff [OF eq] by (simp add: cache_inv_def gm_wf_def)
  moreover have "map ff_Key (map snd ?xs) = map fst ?xs" using keys by simp
  ultimately show ?thesis by (simp only: GetSnapshot_def fst_conv)
qed

end
