(* ===== verification/Etcd_Repo.thy ===== *)
theory Etcd_Repo
  imports Api_Types
begin

text \<open>
  \<open>internal/repository/etcd.go\<close>: the repository over etcd, with the compare-and-swap loop
  of \<open>SaveFeatureIfNewer\<close>.

  etcd itself is not part of the program: it is a parameter \<open>c\<close> of every operation, a
  record of the calls the code makes on \<open>EtcdInterface\<close>, over a state of any type. What the
  code relies on is the predicate \<open>etcd_ok\<close>: each call takes effect atomically at one
  moment on a key-value store whose revision grows with every write, while other clients
  may change the store before and after that moment (the relation \<open>env\<close>). A call that
  returns an error may or may not have taken effect. \<open>mem_client\<close> is one instance.
\<close>

section \<open>The interface of etcd\<close>

record etcd_kv =
  kv_Key :: string
  kv_Value :: string
  kv_CreateRevision :: int
  kv_ModRevision :: int

datatype etcd_cmp =
    CmpCreateRevision string int
  | CmpModRevision string int

datatype etcd_op = OpPut string string

record txn_response =
  tr_Succeeded :: bool
  tr_Revision :: int

type_synonym etcd_error = string

record 'e etcd_client =
  ec_Get :: "string \<Rightarrow> 'e \<Rightarrow> (etcd_error + etcd_kv list) \<times> 'e"
  ec_GetPrefix :: "string \<Rightarrow> 'e \<Rightarrow> (etcd_error + etcd_kv list \<times> int) \<times> 'e"
  ec_Put :: "string \<Rightarrow> string \<Rightarrow> 'e \<Rightarrow> (etcd_error + int) \<times> 'e"
  ec_Txn :: "etcd_cmp list \<Rightarrow> etcd_op list \<Rightarrow> 'e \<Rightarrow> (etcd_error + txn_response) \<times> 'e"

section \<open>The code\<close>

datatype repo_error =
    EtcdError etcd_error
  | ErrFeatureNotFound
  | MaxRetriesExceeded
  | InvalidStoredValue

definition GetFeature :: "'e etcd_client \<Rightarrow> string \<Rightarrow> 'e \<Rightarrow> (repo_error + FeatureFlag) \<times> 'e" where
  "GetFeature c key s =
     (case ec_Get c key s of
        (Inl e, s1) \<Rightarrow> (Inl (EtcdError e), s1)
      | (Inr kvs, s1) \<Rightarrow>
          (case kvs of
             [] \<Rightarrow> (Inl ErrFeatureNotFound, s1)
           | kv # _ \<Rightarrow> (Inr (zero_flag\<lparr>ff_Key := kv_Key kv, ff_Value := kv_Value kv,
                                    ff_Revision := kv_ModRevision kv\<rparr>), s1)))"

definition etcd_SaveFeature :: "'e etcd_client \<Rightarrow> string \<Rightarrow> string \<Rightarrow> 'e \<Rightarrow> (repo_error + int) \<times> 'e" where
  "etcd_SaveFeature c key val s =
     (case ec_Put c key val s of
        (Inl e, s1) \<Rightarrow> (Inl (EtcdError e), s1)
      | (Inr r, s1) \<Rightarrow> (Inr r, s1))"

definition save_maxRetries :: nat where "save_maxRetries = 3"

text \<open>
  One round of the \<open>for\<close> loop of \<open>SaveFeatureIfNewer\<close>: \<open>Some\<close> of what it returns, or
  \<open>None\<close> when the transaction found the key changed. \<open>save_commit\<close> is the guarded write.
\<close>

definition save_commit ::
  "'e etcd_client \<Rightarrow> etcd_cmp \<Rightarrow> string \<Rightarrow> FeatureFlag \<Rightarrow> 'e \<Rightarrow> (repo_error + int) option \<times> 'e" where
  "save_commit c cmp key newValue s =
     (case ec_Txn c [cmp] [OpPut key (ToJSON newValue)] s of
        (Inl e, s2) \<Rightarrow> (Some (Inl (EtcdError e)), s2)
      | (Inr tResp, s2) \<Rightarrow>
          if tr_Succeeded tResp then (Some (Inr (tr_Revision tResp)), s2) else (None, s2))"

definition save_round ::
  "'e etcd_client \<Rightarrow> string \<Rightarrow> FeatureFlag \<Rightarrow> 'e \<Rightarrow> (repo_error + int) option \<times> 'e" where
  "save_round c key newValue s =
     (case ec_Get c key s of
        (Inl e, s1) \<Rightarrow> (Some (Inl (EtcdError e)), s1)
      | (Inr kvs, s1) \<Rightarrow>
          (case kvs of
             [] \<Rightarrow> save_commit c (CmpCreateRevision key 0) key newValue s1
           | kv # _ \<Rightarrow>
               (case unmarshal_flag (kv_Value kv) of
                  None \<Rightarrow> (Some (Inl InvalidStoredValue), s1)
                | Some currentFlag \<Rightarrow>
                    if ff_Version currentFlag \<ge> ff_Version newValue
                    then (Some (Inr (kv_ModRevision kv)), s1)
                    else save_commit c (CmpModRevision key (kv_ModRevision kv)) key newValue s1)))"

text \<open>The loop, with its counter of failed rounds.\<close>

function save_loop ::
  "'e etcd_client \<Rightarrow> string \<Rightarrow> FeatureFlag \<Rightarrow> nat \<Rightarrow> 'e \<Rightarrow> (repo_error + int) \<times> 'e" where
  "save_loop c key newValue retries s =
     (case save_round c key newValue s of
        (Some r, s1) \<Rightarrow> (r, s1)
      | (None, s1) \<Rightarrow>
          if retries + 1 > save_maxRetries then (Inl MaxRetriesExceeded, s1)
          else save_loop c key newValue (retries + 1) s1)"
  by pat_completeness auto
termination
  by (relation "measure (\<lambda>(c, key, v, retries, s). Suc save_maxRetries - retries)") auto

declare save_loop.simps [simp del]

definition SaveFeatureIfNewer ::
  "'e etcd_client \<Rightarrow> string \<Rightarrow> FeatureFlag \<Rightarrow> 'e \<Rightarrow> (repo_error + int) \<times> 'e" where
  "SaveFeatureIfNewer c key newValue s = save_loop c key newValue 0 s"

definition GetWithRevision ::
  "'e etcd_client \<Rightarrow> string \<Rightarrow> 'e \<Rightarrow> (repo_error + etcd_kv list \<times> int) \<times> 'e" where
  "GetWithRevision c prefix s =
     (case ec_GetPrefix c prefix s of
        (Inl e, s1) \<Rightarrow> (Inl (EtcdError e), s1)
      | (Inr r, s1) \<Rightarrow> (Inr r, s1))"

definition etcd_Health :: "'e etcd_client \<Rightarrow> 'e \<Rightarrow> repo_error option \<times> 'e" where
  "etcd_Health c s =
     (case ec_Get c ''health_check'' s of
        (Inl e, s1) \<Rightarrow> (Some (EtcdError e), s1)
      | (Inr _, s1) \<Rightarrow> (None, s1))"

section \<open>What the code relies on\<close>

text \<open>A store: the current value of each key, and the revision of the last write.\<close>

record etcd_store =
  es_kvs :: "string \<rightharpoonup> etcd_kv"
  es_rev :: int

definition store_put :: "string \<Rightarrow> string \<Rightarrow> etcd_store \<Rightarrow> etcd_store" where
  "store_put k v st =
     (let r = es_rev st + 1;
          cr = (case es_kvs st k of None \<Rightarrow> r | Some kv \<Rightarrow> kv_CreateRevision kv)
      in st\<lparr>es_kvs := (es_kvs st)(k \<mapsto> \<lparr>kv_Key = k, kv_Value = v, kv_CreateRevision = cr, kv_ModRevision = r\<rparr>),
            es_rev := r\<rparr>)"

fun store_op :: "etcd_op \<Rightarrow> etcd_store \<Rightarrow> etcd_store" where
  "store_op (OpPut k v) st = store_put k v st"

fun cmp_holds :: "etcd_store \<Rightarrow> etcd_cmp \<Rightarrow> bool" where
  "cmp_holds st (CmpCreateRevision k r) \<longleftrightarrow>
     (case es_kvs st k of None \<Rightarrow> 0 | Some kv \<Rightarrow> kv_CreateRevision kv) = r"
| "cmp_holds st (CmpModRevision k r) \<longleftrightarrow>
     (case es_kvs st k of None \<Rightarrow> 0 | Some kv \<Rightarrow> kv_ModRevision kv) = r"

definition store_wf :: "etcd_store \<Rightarrow> bool" where
  "store_wf st \<longleftrightarrow> 0 \<le> es_rev st \<and>
     (\<forall>k kv. es_kvs st k = Some kv \<longrightarrow> 0 < kv_CreateRevision kv \<and> 0 < kv_ModRevision kv \<and> kv_ModRevision kv \<le> es_rev st)"

text \<open>How a store may change over time: a key keeps its entry or gets a fresh revision.\<close>

definition evolves :: "etcd_store \<Rightarrow> etcd_store \<Rightarrow> bool" where
  "evolves a b \<longleftrightarrow> (store_wf a \<longrightarrow> store_wf b \<and> es_rev a \<le> es_rev b \<and>
     (\<forall>k kv. es_kvs b k = Some kv \<longrightarrow> es_kvs a k = Some kv \<or> es_rev a < kv_ModRevision kv))"

definition get_ok :: "'e etcd_client \<Rightarrow> ('e \<Rightarrow> etcd_store) \<Rightarrow> (etcd_store \<Rightarrow> etcd_store \<Rightarrow> bool) \<Rightarrow> bool" where
  "get_ok c view env \<longleftrightarrow> (\<forall>k s r s'. ec_Get c k s = (r, s') \<longrightarrow>
     (\<exists>st. env (view s) st \<and> env st (view s') \<and>
        (\<forall>kvs. r = Inr kvs \<longrightarrow> kvs = (case es_kvs st k of None \<Rightarrow> [] | Some kv \<Rightarrow> [kv]))))"

definition txn_ok :: "'e etcd_client \<Rightarrow> ('e \<Rightarrow> etcd_store) \<Rightarrow> (etcd_store \<Rightarrow> etcd_store \<Rightarrow> bool) \<Rightarrow> bool" where
  "txn_ok c view env \<longleftrightarrow> (\<forall>cmps ops s r s'. ec_Txn c cmps ops s = (r, s') \<longrightarrow>
     (\<exists>st st'. env (view s) st \<and> env st' (view s') \<and>
        (st' = st \<or> (\<forall>x \<in> set cmps. cmp_holds st x) \<and> st' = fold store_op ops st) \<and>
        (\<forall>resp. r = Inr resp \<longrightarrow>
           (tr_Succeeded resp = (\<forall>x \<in> set cmps. cmp_holds st x)) \<and>
           (tr_Succeeded resp \<longrightarrow> st' = fold store_op ops st \<and> tr_Revision resp = es_rev st') \<and>
           (\<not> tr_Succeeded resp \<longrightarrow> st' = st))))"

definition etcd_ok :: "'e etcd_client \<Rightarrow> ('e \<Rightarrow> etcd_store) \<Rightarrow> (etcd_store \<Rightarrow> etcd_store \<Rightarrow> bool) \<Rightarrow> bool" where
  "etcd_ok c view env \<longleftrightarrow> get_ok c view env \<and> txn_ok c view env \<and>
     (\<forall>a b. env a b \<longrightarrow> evolves a b)"

text \<open>The version stored under a key, where a flag can be read there.\<close>

definition stored_version :: "etcd_store \<Rightarrow> string \<Rightarrow> int option" where
  "stored_version st k =
     (case es_kvs st k of None \<Rightarrow> None
      | Some kv \<Rightarrow> map_option ff_Version (unmarshal_flag (kv_Value kv)))"

definition versions_le :: "etcd_store \<Rightarrow> etcd_store \<Rightarrow> bool" where
  "versions_le a b \<longleftrightarrow>
     (\<forall>k v. stored_version a k = Some v \<longrightarrow> (\<exists>v'. stored_version b k = Some v' \<and> v \<le> v'))"

lemma versions_le_refl [simp, intro]: "versions_le a a"
  by (auto simp: versions_le_def)

lemma versions_le_trans [trans]: "versions_le a b \<Longrightarrow> versions_le b c \<Longrightarrow> versions_le a c"
  unfolding versions_le_def by (meson order_trans)

lemma evolves_refl [simp, intro]: "evolves a a"
  by (auto simp: evolves_def)

lemma evolves_trans [trans]: "evolves a b \<Longrightarrow> evolves b c \<Longrightarrow> evolves a c"
  unfolding evolves_def by (meson order.strict_trans1 order_trans)

lemma evolves_put: "evolves st (store_put k v st)"
  by (fastforce simp: evolves_def store_put_def store_wf_def Let_def split: option.splits if_splits)

lemma stored_version_put:
  "flag_ints f \<Longrightarrow> stored_version (store_put k (ToJSON f) st) k' =
     (if k' = k then Some (ff_Version f) else stored_version st k')"
  using json_codec.stored_version [of f] by (simp add: stored_version_def store_put_def Let_def)

text \<open>An unchanged mod revision means an unchanged entry.\<close>

lemma same_mod_revision:
  assumes "evolves a b" "store_wf a" "es_kvs a k = Some kv" "cmp_holds b (CmpModRevision k (kv_ModRevision kv))"
  shows "es_kvs b k = Some kv"
proof -
  have le: "0 < kv_ModRevision kv" "kv_ModRevision kv \<le> es_rev a" using assms(2,3) by (auto simp: store_wf_def)
  with assms(4) obtain kv' where b: "es_kvs b k = Some kv'" "kv_ModRevision kv' = kv_ModRevision kv"
    by (auto split: option.splits)
  with assms(1,2,3) le show ?thesis by (fastforce simp: evolves_def)
qed

section \<open>The compare-and-swap loop\<close>

text \<open>Reading the specification of the two calls off \<open>etcd_ok\<close>.\<close>

lemma etcd_get:
  assumes "etcd_ok c view env" "ec_Get c k s = (r, s')"
  shows "\<exists>st. env (view s) st \<and> env st (view s') \<and>
    (\<forall>kvs. r = Inr kvs \<longrightarrow> kvs = (case es_kvs st k of None \<Rightarrow> [] | Some kv \<Rightarrow> [kv]))"
proof -
  have "get_ok c view env" using assms(1) by (simp add: etcd_ok_def)
  then show ?thesis unfolding get_ok_def using assms(2) by metis
qed

lemma etcd_txn:
  assumes "etcd_ok c view env" "ec_Txn c [cmp] [op] s = (r, s')"
  shows "\<exists>st st'. env (view s) st \<and> env st' (view s') \<and>
    (st' = st \<or> cmp_holds st cmp \<and> st' = store_op op st) \<and>
    (\<forall>resp. r = Inr resp \<longrightarrow>
       (tr_Succeeded resp = cmp_holds st cmp) \<and>
       (tr_Succeeded resp \<longrightarrow> st' = store_op op st \<and> tr_Revision resp = es_rev st') \<and>
       (\<not> tr_Succeeded resp \<longrightarrow> st' = st))"
proof -
  have "txn_ok c view env" using assms(1) by (simp add: etcd_ok_def)
  note this [unfolded txn_ok_def, rule_format, OF assms(2)]
  then show ?thesis by simp
qed

text \<open>
  The rely of the loop: the other clients of etcd only make the store evolve, and never
  lower a stored version. Under it the loop itself never lowers a stored version, whatever
  happens in between, and a returned revision means that the store holds at least the
  version asked for.
\<close>

definition rely :: "(etcd_store \<Rightarrow> etcd_store \<Rightarrow> bool) \<Rightarrow> bool" where
  "rely env \<longleftrightarrow> (\<forall>a b. env a b \<longrightarrow> versions_le a b)"

definition progress :: "etcd_store \<Rightarrow> etcd_store \<Rightarrow> bool" where
  "progress a b \<longleftrightarrow> evolves a b \<and> versions_le a b"

lemma progress_refl [simp]: "progress a a"
  by (simp add: progress_def)

lemma progress_trans [trans]: "progress a b \<Longrightarrow> progress b c \<Longrightarrow> progress a c"
  unfolding progress_def using evolves_trans versions_le_trans by blast

lemma env_progress: "etcd_ok c view env \<Longrightarrow> rely env \<Longrightarrow> env a b \<Longrightarrow> progress a b"
  by (auto simp: etcd_ok_def rely_def progress_def)

text \<open>Writing a flag where the key is absent or holds an older version is progress.\<close>

lemma put_progress:
  assumes "flag_ints f" "\<And>v. stored_version st k = Some v \<Longrightarrow> v \<le> ff_Version f"
  shows "progress st (store_put k (ToJSON f) st)"
  using assms evolves_put by (auto simp: progress_def versions_le_def stored_version_put)

definition has_version :: "etcd_store \<Rightarrow> string \<Rightarrow> int \<Rightarrow> bool" where
  "has_version st k v \<longleftrightarrow> (\<exists>v'. stored_version st k = Some v' \<and> v \<le> v')"

lemma has_version_progress: "has_version a k v \<Longrightarrow> progress a b \<Longrightarrow> has_version b k v"
  unfolding has_version_def progress_def versions_le_def by (meson order_trans)

lemma has_version_put: "flag_ints f \<Longrightarrow> has_version (store_put k (ToJSON f) st) k (ff_Version f)"
  by (simp add: has_version_def stored_version_put)

text \<open>One guarded write: the guard says what the entry was at the moment of the write.\<close>

lemma txn_progress:
  assumes ok: "etcd_ok c view env" "rely env" and f: "flag_ints f"
    and txn: "ec_Txn c [cmp] [OpPut k (ToJSON f)] s = (r, s')"
    and old: "\<And>st v. progress (view s) st \<Longrightarrow> cmp_holds st cmp \<Longrightarrow> stored_version st k = Some v \<Longrightarrow> v \<le> ff_Version f"
  shows "progress (view s) (view s') \<and>
    (\<forall>resp. r = Inr resp \<and> tr_Succeeded resp \<longrightarrow> has_version (view s') k (ff_Version f))"
proof -
  obtain st st' where t: "env (view s) st" "env st' (view s')"
    "st' = st \<or> cmp_holds st cmp \<and> st' = store_put k (ToJSON f) st"
    "\<forall>resp. r = Inr resp \<longrightarrow> tr_Succeeded resp \<longrightarrow> st' = store_put k (ToJSON f) st"
    using etcd_txn [OF ok(1) txn] by auto
  have a: "progress (view s) st" and z: "progress st' (view s')" using env_progress [OF ok] t(1,2) by auto
  have m: "progress st st'" using t(3) put_progress [OF f old [OF a]] by auto
  have "has_version (view s') k (ff_Version f)" if "r = Inr resp" "tr_Succeeded resp" for resp
    using t(4) that has_version_put [OF f] has_version_progress [OF _ z] by metis
  then show ?thesis using progress_trans [OF a progress_trans [OF m z]] by auto
qed

text \<open>The store as the loop read it, and what the two guards say of it later.\<close>

lemma guard_absent:
  assumes "progress a st" "store_wf a" "cmp_holds st (CmpCreateRevision k 0)"
  shows "stored_version st k = None"
proof (cases "es_kvs st k")
  case (Some kv)
  have "store_wf st" using assms(1,2) by (simp add: progress_def evolves_def)
  then have "0 < kv_CreateRevision kv" using Some by (auto simp: store_wf_def)
  with assms(3) Some show ?thesis by simp
qed (simp add: stored_version_def)

lemma guard_unchanged:
  assumes "progress a st" "store_wf a" "es_kvs a k = Some kv"
    and "cmp_holds st (CmpModRevision k (kv_ModRevision kv))"
  shows "stored_version st k = map_option ff_Version (unmarshal_flag (kv_Value kv))"
  using same_mod_revision [of a st k kv] assms by (simp add: progress_def stored_version_def)

lemma progress_wf: "progress a b \<Longrightarrow> store_wf a \<Longrightarrow> store_wf b"
  by (simp add: progress_def evolves_def)

text \<open>One round, and the loop.\<close>

definition saves :: "('e \<Rightarrow> etcd_store) \<Rightarrow> string \<Rightarrow> FeatureFlag \<Rightarrow> 'e \<Rightarrow> (repo_error + int) option \<times> 'e \<Rightarrow> bool" where
  "saves view k f s rs \<longleftrightarrow> progress (view s) (view (snd rs)) \<and>
     (\<forall>rv. fst rs = Some (Inr rv) \<longrightarrow> has_version (view (snd rs)) k (ff_Version f))"

lemma saves_step: "progress (view s) (view s1) \<Longrightarrow> saves view k f s1 rs \<Longrightarrow> saves view k f s rs"
  unfolding saves_def using progress_trans by blast

lemma save_commit_saves:
  assumes ok: "etcd_ok c view env" "rely env" and f: "flag_ints f"
    and old: "\<And>st v. progress (view s) st \<Longrightarrow> cmp_holds st cmp \<Longrightarrow> stored_version st k = Some v \<Longrightarrow> v \<le> ff_Version f"
  shows "saves view k f s (save_commit c cmp k f s)"
proof -
  obtain t s2 where t: "ec_Txn c [cmp] [OpPut k (ToJSON f)] s = (t, s2)" by fastforce
  with txn_progress [OF ok f t old] show ?thesis
    by (auto simp: save_commit_def saves_def split: sum.splits)
qed

lemma save_round_saves:
  assumes ok: "etcd_ok c view env" "rely env" and f: "flag_ints f" and wf: "store_wf (view s)"
  shows "saves view k f s (save_round c k f s)"
proof -
  obtain r s1 where g: "ec_Get c k s = (r, s1)" by fastforce
  from etcd_get [OF ok(1) g] obtain st where st: "env (view s) st" "env st (view s1)"
    "\<forall>kvs. r = Inr kvs \<longrightarrow> kvs = (case es_kvs st k of None \<Rightarrow> [] | Some kv \<Rightarrow> [kv])" by blast
  have p: "progress (view s) st" "progress st (view s1)" using env_progress [OF ok] st(1,2) by auto
  have wf': "store_wf st" using p(1) wf progress_wf by blast
  have commit: "saves view k f s1 (save_commit c cmp k f s1)"
    if "\<And>x v. progress st x \<Longrightarrow> cmp_holds x cmp \<Longrightarrow> stored_version x k = Some v \<Longrightarrow> v \<le> ff_Version f" for cmp
    by (rule save_commit_saves [OF ok f]) (use that progress_trans [OF p(2)] in blast)
  have "saves view k f s1 (save_round c k f s)"
  proof (cases "r")
    case (Inl e)
    with g show ?thesis by (simp add: save_round_def saves_def)
  next
    case (Inr kvs)
    show ?thesis
    proof (cases "es_kvs st k")
      case None
      with g Inr st(3) commit [of "CmpCreateRevision k 0"] guard_absent wf' show ?thesis
        by (simp add: save_round_def)
    next
      case (Some kv)
      have c: "saves view k f s1 (save_commit c (CmpModRevision k (kv_ModRevision kv)) k f s1)"
        if "unmarshal_flag (kv_Value kv) = Some cur" "\<not> ff_Version cur \<ge> ff_Version f" for cur
        using that guard_unchanged [OF _ wf' Some] by (intro commit) simp
      have "has_version (view s1) k (ff_Version f)"
        if "unmarshal_flag (kv_Value kv) = Some cur" "ff_Version cur \<ge> ff_Version f" for cur
        using that Some p(2) has_version_progress [of st k] by (simp add: has_version_def stored_version_def)
      with c g Inr st(3) Some show ?thesis
        by (auto simp: save_round_def saves_def split: option.splits)
    qed
  qed
  then show ?thesis by (rule saves_step [where view = view, OF progress_trans [OF p]])
qed

lemma save_loop_saves:
  assumes ok: "etcd_ok c view env" "rely env" and f: "flag_ints f"
  shows "store_wf (view s) \<Longrightarrow> saves view k f s (apfst Some (save_loop c k f retries s))"
proof (induction "Suc save_maxRetries - retries" arbitrary: retries s rule: less_induct)
  case less
  obtain r s1 where r: "save_round c k f s = (r, s1)" by fastforce
  have s: "saves view k f s (r, s1)" using save_round_saves [OF ok f less.prems, of k] r by simp
  then have p: "progress (view s) (view s1)" by (simp add: saves_def)
  show ?case
  proof (cases r)
    case None
    have "saves view k f s (apfst Some (save_loop c k f (retries + 1) s1))"
      if "\<not> retries + 1 > save_maxRetries"
      by (rule saves_step [where view = view, OF p])
        (use that progress_wf [OF p less.prems] in \<open>intro less.hyps; auto\<close>)
    with None r p show ?thesis
      by (subst save_loop.simps) (auto simp: saves_def)
  next
    case (Some r')
    with r s show ?thesis by (subst save_loop.simps) simp
  qed
qed

text \<open>With no other client, the first round decides.\<close>

definition newer_or_equal :: "etcd_store \<Rightarrow> string \<Rightarrow> FeatureFlag \<Rightarrow> bool" where
  "newer_or_equal st k f \<longleftrightarrow> (case stored_version st k of None \<Rightarrow> False | Some v \<Rightarrow> ff_Version f \<le> v)"

definition alone_result ::
  "etcd_store \<Rightarrow> string \<Rightarrow> FeatureFlag \<Rightarrow> repo_error + int \<Rightarrow> etcd_store \<Rightarrow> bool" where
  "alone_result st k f r st' \<longleftrightarrow>
     (case r of
        Inr rv \<Rightarrow>
          if newer_or_equal st k f then st' = st \<and> (\<exists>kv. es_kvs st k = Some kv \<and> rv = kv_ModRevision kv)
          else st' = store_put k (ToJSON f) st \<and> rv = es_rev st'
      | Inl (EtcdError e) \<Rightarrow> st' = st \<or> \<not> newer_or_equal st k f \<and> st' = store_put k (ToJSON f) st
      | Inl InvalidStoredValue \<Rightarrow>
          st' = st \<and> (\<exists>kv. es_kvs st k = Some kv \<and> unmarshal_flag (kv_Value kv) = None)
      | Inl ErrFeatureNotFound \<Rightarrow> False
      | Inl MaxRetriesExceeded \<Rightarrow> False)"

lemma save_commit_alone:
  assumes "etcd_ok c view (=)" "cmp_holds (view s) cmp" "\<not> newer_or_equal (view s) k f"
  shows "\<exists>r. fst (save_commit c cmp k f s) = Some r \<and> alone_result (view s) k f r (view (snd (save_commit c cmp k f s)))"
proof -
  obtain t s2 where t: "ec_Txn c [cmp] [OpPut k (ToJSON f)] s = (t, s2)" by fastforce
  from etcd_txn [OF assms(1) t] assms(2,3) show ?thesis
    by (auto simp: save_commit_def t alone_result_def split: sum.splits)
qed

lemma save_round_alone:
  assumes "etcd_ok c view (=)"
  shows "\<exists>r. fst (save_round c k f s) = Some r \<and> alone_result (view s) k f r (view (snd (save_round c k f s)))"
proof -
  obtain r s1 where g: "ec_Get c k s = (r, s1)" by fastforce
  from etcd_get [OF assms g] have v: "view s1 = view s"
    and r: "\<And>kvs. r = Inr kvs \<Longrightarrow> kvs = (case es_kvs (view s) k of None \<Rightarrow> [] | Some kv \<Rightarrow> [kv])" by auto
  show ?thesis
  proof (cases "r")
    case (Inl e)
    with g v show ?thesis by (simp add: save_round_def alone_result_def)
  next
    case (Inr kvs)
    show ?thesis
    proof (cases "es_kvs (view s) k")
      case None
      then have "\<not> newer_or_equal (view s1) k f" by (simp add: v newer_or_equal_def stored_version_def)
      with save_commit_alone [OF assms, of s1 "CmpCreateRevision k 0" k f] None g Inr r v
      show ?thesis by (simp add: save_round_def)
    next
      case (Some kv)
      show ?thesis
      proof (cases "unmarshal_flag (kv_Value kv)")
        case None
        with Some g Inr r v show ?thesis by (simp add: save_round_def alone_result_def)
      next
        case cur: (Some cur)
        have n: "newer_or_equal (view s1) k f \<longleftrightarrow> ff_Version f \<le> ff_Version cur"
          by (simp add: v newer_or_equal_def stored_version_def Some cur)
        show ?thesis
          using save_commit_alone [OF assms, of s1 "CmpModRevision k (kv_ModRevision kv)" k f]
            Some cur g Inr r v n
          by (auto simp: save_round_def alone_result_def)
      qed
    qed
  qed
qed

lemma SaveFeatureIfNewer_alone:
  assumes "etcd_ok c view (=)" "SaveFeatureIfNewer c k f s = (r, s')"
  shows "alone_result (view s) k f r (view s')"
proof -
  obtain r0 s0 where r0: "save_round c k f s = (r0, s0)" by fastforce
  from save_round_alone [OF assms(1), of k f s] r0 obtain r1 where
    r1: "r0 = Some r1" "alone_result (view s) k f r1 (view s0)" by auto
  with r0 assms(2) show ?thesis
    by (simp add: SaveFeatureIfNewer_def save_loop.simps [of c k f 0 s])
qed

section \<open>A versioned store as an interface\<close>

text \<open>
  What the outbox worker, the reconciler and \<open>syncToEtcd\<close> rely on: a conditional save, by
  a handle \<open>h\<close> of which \<open>good h\<close> is assumed, never lowers a version and on success
  leaves at least the version saved. A sequence of saves keeps this.
\<close>

locale versioned_store =
  fixes save :: "'h \<Rightarrow> string \<Rightarrow> FeatureFlag \<Rightarrow> 's \<Rightarrow> ('err + int) \<times> 's"
    and leads :: "'h \<Rightarrow> 's \<Rightarrow> 's \<Rightarrow> bool"
    and holds :: "'h \<Rightarrow> 's \<Rightarrow> string \<Rightarrow> int \<Rightarrow> bool"
    and good :: "'h \<Rightarrow> 's \<Rightarrow> bool"
    and okflag :: "FeatureFlag \<Rightarrow> bool"
  assumes save_leads: "good h s \<Longrightarrow> okflag f \<Longrightarrow> save h k f s = (r, s') \<Longrightarrow> leads h s s'"
    and save_holds: "good h s \<Longrightarrow> okflag f \<Longrightarrow> save h k f s = (Inr rv, s') \<Longrightarrow> holds h s' k (ff_Version f)"
    and leads_refl: "leads h s s"
    and leads_trans: "leads h s s' \<Longrightarrow> leads h s' s'' \<Longrightarrow> leads h s s''"
    and leads_good: "leads h s s' \<Longrightarrow> good h s \<Longrightarrow> good h s'"
    and leads_holds: "leads h s s' \<Longrightarrow> holds h s k v \<Longrightarrow> holds h s' k v"
begin

lemma fold_leads:
  assumes step: "\<And>x s. x \<in> set xs \<Longrightarrow> good h s \<Longrightarrow> leads h s (g x s)"
  shows "good h s \<Longrightarrow> leads h s (fold g xs s)"
  using step
proof (induction xs arbitrary: s)
  case Nil
  then show ?case by (simp add: leads_refl)
next
  case (Cons x xs)
  have l: "leads h s (g x s)" using Cons.prems by simp
  have g: "good h (g x s)" using l Cons.prems(1) by (rule leads_good)
  have "leads h (g x s) (fold g xs (g x s))" by (rule Cons.IH [OF g]) (use Cons.prems(2) in simp)
  with l show ?case by (auto intro: leads_trans)
qed

text \<open>If every step of a run that finds its goal unmet establishes it, the run does.\<close>

lemma fold_holds:
  assumes step: "\<And>x s. x \<in> set xs \<Longrightarrow> good h s \<Longrightarrow> leads h s (g x s)"
    and est: "\<And>s. good h s \<Longrightarrow> holds h (g y s) k v"
  shows "y \<in> set xs \<Longrightarrow> good h s \<Longrightarrow> holds h (fold g xs s) k v"
  using step
proof (induction xs arbitrary: s)
  case (Cons x xs)
  have l: "good h (g x s)" using Cons.prems leads_good by (meson list.set_intros(1))
  show ?case
  proof (cases "x = y")
    case True
    then have "holds h (g x s) k v" using est Cons.prems(2) by simp
    moreover have "leads h (g x s) (fold g xs (g x s))"
      using Cons.prems(3) l by (intro fold_leads) auto
    ultimately show ?thesis by (auto intro: leads_holds)
  next
    case False
    with Cons l show ?thesis by simp
  qed
qed simp

end

text \<open>The handle of the model: the client, how to look at its state, and its environment.\<close>

record 'e etcd_handle =
  eh_client :: "'e etcd_client"
  eh_view :: "'e \<Rightarrow> etcd_store"
  eh_env :: "etcd_store \<Rightarrow> etcd_store \<Rightarrow> bool"

definition handle_good :: "'e etcd_handle \<Rightarrow> 'e \<Rightarrow> bool" where
  "handle_good h s \<longleftrightarrow> etcd_ok (eh_client h) (eh_view h) (eh_env h) \<and> rely (eh_env h) \<and> store_wf (eh_view h s)"

interpretation etcd: versioned_store
  "\<lambda>h. SaveFeatureIfNewer (eh_client h)"
  "\<lambda>h s s'. progress (eh_view h s) (eh_view h s')"
  "\<lambda>h s. has_version (eh_view h s)"
  handle_good flag_ints
proof unfold_locales
  fix h :: "'a etcd_handle" and s f k r s'
  assume h: "handle_good h s" "flag_ints f" and "SaveFeatureIfNewer (eh_client h) k f s = (r, s')"
  then have s: "saves (eh_view h) k f s (Some r, s')"
    using save_loop_saves [of "eh_client h" "eh_view h" "eh_env h" f s k 0]
    by (simp add: handle_good_def SaveFeatureIfNewer_def)
  then show "progress (eh_view h s) (eh_view h s')" by (simp add: saves_def)
next
  fix h :: "'a etcd_handle" and s f k rv s'
  assume h: "handle_good h s" "flag_ints f" and "SaveFeatureIfNewer (eh_client h) k f s = (Inr rv, s')"
  then have "saves (eh_view h) k f s (Some (Inr rv), s')"
    using save_loop_saves [of "eh_client h" "eh_view h" "eh_env h" f s k 0]
    by (simp add: handle_good_def SaveFeatureIfNewer_def)
  then show "has_version (eh_view h s') k (ff_Version f)" by (simp add: saves_def)
qed (auto intro: progress_trans has_version_progress simp: handle_good_def progress_wf)

section \<open>An in-memory etcd\<close>

text \<open>One instance of the interface: a map and the revision of its last write.\<close>

type_synonym mem_etcd = "(string, etcd_kv) gomap \<times> int"

definition mem_view :: "mem_etcd \<Rightarrow> etcd_store" where
  "mem_view s = \<lparr>es_kvs = gm_get (fst s), es_rev = snd s\<rparr>"

definition mem_put :: "string \<Rightarrow> string \<Rightarrow> mem_etcd \<Rightarrow> mem_etcd" where
  "mem_put k v s =
     (let r = snd s + 1;
          cr = (case gm_get (fst s) k of None \<Rightarrow> r | Some kv \<Rightarrow> kv_CreateRevision kv)
      in (gm_put k \<lparr>kv_Key = k, kv_Value = v, kv_CreateRevision = cr, kv_ModRevision = r\<rparr> (fst s), r))"

fun mem_op :: "etcd_op \<Rightarrow> mem_etcd \<Rightarrow> mem_etcd" where
  "mem_op (OpPut k v) s = mem_put k v s"

definition mem_client :: "mem_etcd etcd_client" where
  "mem_client = \<lparr>
     ec_Get = (\<lambda>k s. (Inr (case gm_get (fst s) k of None \<Rightarrow> [] | Some kv \<Rightarrow> [kv]), s)),
     ec_GetPrefix = (\<lambda>p s. (Inr (filter (\<lambda>kv. has_prefix (kv_Key kv) p) (map snd (fst s)), snd s), s)),
     ec_Put = (\<lambda>k v s. (Inr (snd s + 1), mem_put k v s)),
     ec_Txn = (\<lambda>cmps ops s.
        if list_all (cmp_holds (mem_view s)) cmps
        then (let s' = fold mem_op ops s in (Inr \<lparr>tr_Succeeded = True, tr_Revision = snd s'\<rparr>, s'))
        else (Inr \<lparr>tr_Succeeded = False, tr_Revision = snd s\<rparr>, s))\<rparr>"

definition mem_empty :: mem_etcd where "mem_empty = ([], 0)"

lemma mem_view_put [simp]: "mem_view (mem_put k v s) = store_put k v (mem_view s)"
  by (auto simp: mem_view_def mem_put_def store_put_def Let_def fun_eq_iff)

lemma mem_view_op [simp]: "mem_view (mem_op x s) = store_op x (mem_view s)"
  by (cases x) simp

lemma mem_view_ops: "mem_view (fold mem_op ops s) = fold store_op ops (mem_view s)"
  by (induction ops arbitrary: s) auto

lemma mem_rev: "snd s = es_rev (mem_view s)"
  by (simp add: mem_view_def)

lemma mem_etcd_ok: "etcd_ok mem_client mem_view (=)"
proof -
  have "get_ok mem_client mem_view (=)"
    by (auto simp: get_ok_def mem_client_def mem_view_def)
  moreover have "txn_ok mem_client mem_view (=)"
    unfolding txn_ok_def
  proof (intro allI impI)
    fix cmps ops s r s'
    assume e: "ec_Txn mem_client cmps ops s = (r, s')"
    show "\<exists>st st'. mem_view s = st \<and> st' = mem_view s' \<and>
        (st' = st \<or> (\<forall>x \<in> set cmps. cmp_holds st x) \<and> st' = fold store_op ops st) \<and>
        (\<forall>resp. r = Inr resp \<longrightarrow>
           (tr_Succeeded resp = (\<forall>x \<in> set cmps. cmp_holds st x)) \<and>
           (tr_Succeeded resp \<longrightarrow> st' = fold store_op ops st \<and> tr_Revision resp = es_rev st') \<and>
           (\<not> tr_Succeeded resp \<longrightarrow> st' = st))"
      using e mem_view_ops [of ops s] mem_rev [of "fold mem_op ops s"]
      by (auto simp: mem_client_def Let_def list_all_iff split: if_splits)
  qed
  ultimately show ?thesis by (auto simp: etcd_ok_def)
qed

lemma rely_eq [simp]: "rely (=)"
  by (auto simp: rely_def)

lemma mem_empty_wf [simp]: "store_wf (mem_view mem_empty)"
  by (simp add: store_wf_def mem_view_def mem_empty_def)

lemma mem_SaveFeatureIfNewer:
  "alone_result (mem_view s) k f (fst (SaveFeatureIfNewer mem_client k f s))
     (mem_view (snd (SaveFeatureIfNewer mem_client k f s)))"
  by (rule SaveFeatureIfNewer_alone [OF mem_etcd_ok]) simp

section \<open>Properties\<close>

text \<open>
  C11. A stale write never wins. While other clients of etcd may write between any two calls
  (never lowering a version themselves), and calls may fail before or after taking effect,
  \<open>SaveFeatureIfNewer\<close> leaves every key with at least the version it had, and when it
  returns a revision the key holds at least the version it was asked to save.
\<close>

theorem save_if_newer_safe:
  assumes "etcd_ok c view env" "rely env" "store_wf (view s)" "flag_ints f"
    and "SaveFeatureIfNewer c k f s = (r, s')"
  shows "versions_le (view s) (view s') \<and> (\<forall>rv. r = Inr rv \<longrightarrow> has_version (view s') k (ff_Version f))"
proof -
  let ?h = "\<lparr>eh_client = c, eh_view = view, eh_env = env\<rparr>"
  have "handle_good ?h s" using assms(1-3) by (simp add: handle_good_def)
  with etcd.save_leads [of ?h s f k r s'] etcd.save_holds [of ?h s f k _ s'] assms(4,5)
  show ?thesis by (auto simp: progress_def)
qed

definition flag_v :: "int \<Rightarrow> FeatureFlag" where
  "flag_v v = zero_flag\<lparr>ff_Key := ''k'', ff_Value := ''true'', ff_Version := v, ff_Type := ''bool''\<rparr>"

lemma flag_v_ints [simp]: "0 \<le> v \<Longrightarrow> v \<le> 100 \<Longrightarrow> flag_ints (flag_v v)"
  by (simp add: flag_ints_def flag_v_def zero_flag_def is_int64_def int64_min_def int64_max_def)

lemma flag_v_version [simp]: "ff_Version (flag_v v) = v"
  by (simp add: flag_v_def)

theorem save_if_newer_safe_witness:
  "let (r, s') = SaveFeatureIfNewer mem_client ''k'' (flag_v 3) mem_empty in
     r = Inr 1 \<and> has_version (mem_view s') ''k'' 3"
proof -
  obtain r s' where e: "SaveFeatureIfNewer mem_client ''k'' (flag_v 3) mem_empty = (r, s')" by (rule prod.exhaust)
  have "r = Inr 1"
    using e by (simp add: SaveFeatureIfNewer_def save_loop.simps save_round_def save_commit_def mem_client_def
        mem_empty_def mem_view_def mem_put_def Let_def)
  with save_if_newer_safe [OF mem_etcd_ok rely_eq mem_empty_wf _ e] e show ?thesis by auto
qed



end
