(* ===== verification/Go_Float.thy ===== *)
theory Go_Float
  imports Complex_Main Go_Text
begin

text \<open>
  \<open>strconv.ParseFloat(s, 64)\<close>: the syntax of decimal and hexadecimal floating-point texts,
  and the value, correctly rounded to IEEE binary64. A float is NaN, an infinity with its
  sign, or a finite number: its sign (for the zero) and its magnitude.
\<close>

datatype float64 = FNaN | FInf bool | FFin bool rat

section \<open>Rounding\<close>

definition two_pow :: "int \<Rightarrow> rat" where
  "two_pow e = (if 0 \<le> e then 2 ^ nat e else 1 / 2 ^ nat (- e))"

function bit_len :: "int \<Rightarrow> int" where
  "bit_len n = (if n \<le> 0 then 0 else 1 + bit_len (n div 2))"
  by pat_completeness auto
termination by (relation "measure nat") auto

declare bit_len.simps [simp del]

definition round_even :: "rat \<Rightarrow> int" where
  "round_even x =
     (let f = \<lfloor>x\<rfloor>; d = x - of_int f in
      if d < 1 / 2 then f else if d > 1 / 2 then f + 1 else if even f then f else f + 1)"

text \<open>
  The exponent of the last place of a positive \<open>x\<close>: the significand has 53 bits, or fewer
  below the smallest normal number. \<open>None\<close> is an overflow.
\<close>

definition ulp_exp :: "rat \<Rightarrow> int" where
  "ulp_exp x =
     (let (p, q) = quotient_of x;
          e0 = bit_len p - bit_len q - 53;
          e1 = (if x < two_pow (e0 + 52) then e0 - 1 else if x \<ge> two_pow (e0 + 53) then e0 + 1 else e0)
      in max e1 (- 1074))"

definition round64 :: "rat \<Rightarrow> rat option" where
  "round64 x =
     (if x \<le> 0 then Some 0
      else let e = ulp_exp x; r = of_int (round_even (x / two_pow e)) * two_pow e in
           if r \<ge> two_pow 1024 then None else Some r)"

section \<open>Reading\<close>

definition lower_byte :: "char \<Rightarrow> char" where
  "lower_byte c = (let n = (of_char c :: int) in if 65 \<le> n \<and> n \<le> 90 then char_of (n + 32) else c)"

definition is_hex :: "char \<Rightarrow> bool" where
  "is_hex c \<longleftrightarrow> (let n = (of_char (lower_byte c) :: int) in 97 \<le> n \<and> n \<le> 102)"

definition mant_digit :: "int \<Rightarrow> char \<Rightarrow> int option" where
  "mant_digit base c =
     (if is_digit c then Some (digit_val c)
      else if base = 16 \<and> is_hex c then Some (of_char (lower_byte c) - 87) else None)"

text \<open>
  The mantissa: value of the digits, number of digits after the point, whether a point
  and a digit were seen, and the rest.
\<close>

fun read_mant :: "int \<Rightarrow> string \<Rightarrow> int \<Rightarrow> int \<Rightarrow> bool \<Rightarrow> bool \<Rightarrow> int \<times> int \<times> bool \<times> string" where
  "read_mant base [] m k dot dig = (m, k, dig, [])"
| "read_mant base (c # cs) m k dot dig =
     (if c = CHR ''_'' then read_mant base cs m k dot dig
      else if c = CHR ''.'' then
        (if dot then (m, k, dig, c # cs) else read_mant base cs m k True dig)
      else case mant_digit base c of
          Some d \<Rightarrow> read_mant base cs (m * base + d) (if dot then k + 1 else k) dot True
        | None \<Rightarrow> (m, k, dig, c # cs))"

fun read_exp :: "string \<Rightarrow> int \<Rightarrow> int \<times> string" where
  "read_exp [] e = (e, [])"
| "read_exp (c # cs) e =
     (if c = CHR ''_'' then read_exp cs e
      else if is_digit c then read_exp cs (if e < 10000 then e * 10 + digit_val c else e)
      else (e, c # cs))"

text \<open>\<open>underscoreOK\<close>: \<open>saw\<close> is the last character's kind, as in the source of strconv.\<close>

fun underscore_loop :: "bool \<Rightarrow> string \<Rightarrow> char \<Rightarrow> bool" where
  "underscore_loop hex [] saw \<longleftrightarrow> saw \<noteq> CHR ''_''"
| "underscore_loop hex (c # cs) saw \<longleftrightarrow>
     (if is_digit c \<or> hex \<and> is_hex c then underscore_loop hex cs (CHR ''0'')
      else if c = CHR ''_'' then saw = CHR ''0'' \<and> underscore_loop hex cs (CHR ''_'')
      else saw \<noteq> CHR ''_'' \<and> underscore_loop hex cs (CHR ''!''))"

definition strip_sign :: "string \<Rightarrow> string" where
  "strip_sign s = (case s of c # cs \<Rightarrow> if c = CHR ''+'' \<or> c = CHR ''-'' then cs else s | [] \<Rightarrow> [])"

definition underscore_ok :: "string \<Rightarrow> bool" where
  "underscore_ok s =
     (let t = strip_sign s in
      case t of
        a # b # u \<Rightarrow>
          if a = CHR ''0'' \<and> lower_byte b \<in> {CHR ''b'', CHR ''o'', CHR ''x''}
          then underscore_loop (lower_byte b = CHR ''x'') u (CHR ''0'')
          else underscore_loop False t (CHR ''^'')
      | _ \<Rightarrow> underscore_loop False t (CHR ''^''))"

text \<open>
  \<open>readFloat\<close> on the whole text: the exact value, or \<open>None\<close> for a syntax error. The value
  is mantissa times base to the exponent, the base of the exponent being 10 or 2.
\<close>

definition exp_part :: "bool \<Rightarrow> string \<Rightarrow> int option" where
  "exp_part hex r =
     (case r of
        [] \<Rightarrow> if hex then None else Some 0
      | c # cs \<Rightarrow>
          if lower_byte c = (if hex then CHR ''p'' else CHR ''e'') then
            (let esign = (if cs \<noteq> [] \<and> hd cs = CHR ''-'' then - 1 else 1); t = strip_sign cs
             in if t = [] \<or> \<not> is_digit (hd t) then None
                else let (e, r') = read_exp t 0 in if r' = [] then Some (esign * e) else None)
          else None)"

definition read_float :: "string \<Rightarrow> rat option" where
  "read_float s =
     (let t = strip_sign s;
          hex = (length t > 2 \<and> hd t = CHR ''0'' \<and> lower_byte (t ! 1) = CHR ''x'');
          (m, k, dig, r) = read_mant (if hex then 16 else 10) (if hex then drop 2 t else t) 0 0 False False
      in if \<not> dig then None
         else case exp_part hex r of
             None \<Rightarrow> None
           | Some e \<Rightarrow>
               if CHR ''_'' \<in> set s \<and> \<not> underscore_ok s then None
               else Some (of_int m *
                 (if hex then two_pow (e - 4 * k)
                  else if e \<ge> k then 10 ^ nat (e - k) else 1 / 10 ^ nat (k - e))))"

definition special :: "string \<Rightarrow> float64 option" where
  "special s =
     (let neg = (s \<noteq> [] \<and> hd s = CHR ''-''); t = map lower_byte (strip_sign s) in
      if t = ''inf'' \<or> t = ''infinity'' then Some (FInf neg)
      else if map lower_byte s = ''nan'' then Some FNaN else None)"

definition ParseFloat :: "string \<Rightarrow> num_error + float64" where
  "ParseFloat s =
     (case special s of
        Some f \<Rightarrow> Inr f
      | None \<Rightarrow>
          (case read_float s of
             None \<Rightarrow> Inl ErrSyntax
           | Some x \<Rightarrow>
               (case round64 x of
                  None \<Rightarrow> Inl ErrRange
                | Some r \<Rightarrow> Inr (FFin (s \<noteq> [] \<and> hd s = CHR ''-'') r))))"

end
