(* ===== verification/Sdk_Client.thy ===== *)
theory Sdk_Client
  imports "HOL-Library.List_Lexorder" "HOL-Library.Char_ord" Go_Float Api_Types
begin

text \<open>
  \<open>client/client.go\<close>: the SDK. It keeps a copy of the flags and the revision of the last
  update it applied, fills them from the snapshot endpoint, follows the event stream, evaluates
  flags locally, and persists its copy to a file.

  The network is an argument (what a GET of a URL with an API key answers, on a state of its
  own), as are the outcomes of the file operations, the random numbers of the jitter and the
  run of the stream. Logging and the clock readings that only feed it are left out (\<open>Logger\<close>
  adds the log calls); a method that takes the mutex for its whole effect is one step on the
  state, and \<open>Sdk_Loops\<close> splits the one that takes it twice.
\<close>

section \<open>The state\<close>

record MizuClient =
  mc_addr :: string
  mc_env :: string
  mc_namespaces :: "string list"
  mc_apiKey :: string
  mc_Timeout :: int
  mc_cacheFile :: string
  mc_snapshotIntervalMin :: int
  mc_snapshotIntervalMax :: int
  mc_features :: "(string, FeatureFlag) gomap option"
  mc_lastRev :: int
  mc_isDirty :: bool

text \<open>
  Of the \<open>http.Client\<close> the model keeps the \<open>Timeout\<close>; the transport is the network argument.
  A nil map is \<open>None\<close>; it reads as empty, deleting from it does nothing, writing panics.
\<close>

definition features_of :: "MizuClient \<Rightarrow> (string, FeatureFlag) gomap" where
  "features_of c = (case mc_features c of None \<Rightarrow> [] | Some m \<Rightarrow> m)"

definition Second :: int where "Second = 1000000000"

definition WithCacheFile :: "string \<Rightarrow> MizuClient \<Rightarrow> MizuClient" where
  "WithCacheFile path c = c\<lparr>mc_cacheFile := path\<rparr>"

definition WithHTTPClient :: "int \<Rightarrow> MizuClient \<Rightarrow> MizuClient" where
  "WithHTTPClient timeout c = c\<lparr>mc_Timeout := timeout\<rparr>"

definition WithSnapshotInterval :: "int \<Rightarrow> int \<Rightarrow> MizuClient \<Rightarrow> MizuClient" where
  "WithSnapshotInterval mn mx c = c\<lparr>mc_snapshotIntervalMin := mn, mc_snapshotIntervalMax := mx\<rparr>"

definition NewMizuClient ::
  "string \<Rightarrow> string \<Rightarrow> string \<Rightarrow> string list \<Rightarrow> (MizuClient \<Rightarrow> MizuClient) list \<Rightarrow> MizuClient" where
  "NewMizuClient addr env apiKey namespaces opts =
     fold (\<lambda>opt c. opt c) opts
       \<lparr>mc_addr = addr, mc_env = env, mc_namespaces = namespaces, mc_apiKey = apiKey,
        mc_Timeout = 10 * Second, mc_cacheFile = ''.mizu_cache.json'', mc_snapshotIntervalMin = 10 * Second,
        mc_snapshotIntervalMax = 30 * Second, mc_features = Some [], mc_lastRev = 0, mc_isDirty = False\<rparr>"

section \<open>Fetching the snapshot\<close>

text \<open>
  What \<open>httpClient.Do\<close> gives: the URL does not parse (the code then uses a nil request, a
  panic), an error, or a body, read up to its end or to the point where the connection broke.
\<close>

datatype http_result = BadURL | TransportError | Body string

type_synonym 'n network = "string \<Rightarrow> string \<Rightarrow> 'n \<Rightarrow> http_result \<times> 'n"

definition snapshot_response_fields :: "SnapshotResponse json_field list" where
  "snapshot_response_fields =
     [(''data'', set_slice (\<lambda>j. decode_struct flag_fields j zero_flag) sr_Data_update),
      (''revision'', set_int 64 sr_Revision_update)]"

definition decode_response :: "string \<Rightarrow> SnapshotResponse option" where
  "decode_response body =
     (case json_decode body of
        None \<Rightarrow> None
      | Some (j, _) \<Rightarrow> decode_struct snapshot_response_fields j \<lparr>sr_Data = [], sr_Revision = 0\<rparr>)"

definition snapshot_url :: "MizuClient \<Rightarrow> string" where
  "snapshot_url c = mc_addr c @ ''/v1/stream/snapshot?env='' @ mc_env c @ ''&namespace='' @
     join_with '','' (mc_namespaces c)"

definition watch_url :: "MizuClient \<Rightarrow> string" where
  "watch_url c = mc_addr c @ ''/v1/stream/watch?last_rev='' @ show_int (mc_lastRev c) @ ''&env='' @
     mc_env c @ ''&namespace='' @ join_with '','' (mc_namespaces c)"

text \<open>\<open>c.features[k] = f\<close>.\<close>

definition put_feature :: "string \<Rightarrow> FeatureFlag \<Rightarrow> MizuClient \<Rightarrow> MizuClient option" where
  "put_feature k f c =
     (case mc_features c of None \<Rightarrow> None | Some m \<Rightarrow> Some (c\<lparr>mc_features := Some (gm_put k f m)\<rparr>))"

definition store_response :: "SnapshotResponse \<Rightarrow> MizuClient \<Rightarrow> MizuClient option" where
  "store_response res c =
     map_option (\<lambda>c1. c1\<lparr>mc_lastRev := sr_Revision res, mc_isDirty := True\<rparr>)
       (fold_opt (\<lambda>f c. put_feature (ff_Key f) f c) (sr_Data res) c)"

text \<open>\<open>Some (err, c')\<close>: the call returned, with an error or not; \<open>None\<close>: it panicked.\<close>

definition fetchAll :: "'n network \<Rightarrow> MizuClient \<Rightarrow> 'n \<Rightarrow> (bool \<times> MizuClient \<times> 'n) option" where
  "fetchAll net c n =
     (case net (snapshot_url c) (mc_apiKey c) n of
        (BadURL, n1) \<Rightarrow> None
      | (TransportError, n1) \<Rightarrow> Some (True, c, n1)
      | (Body b, n1) \<Rightarrow>
          (case decode_response b of
             None \<Rightarrow> Some (True, c, n1)
           | Some res \<Rightarrow> map_option (\<lambda>c1. (False, c1, n1)) (store_response res c)))"

section \<open>Applying an update\<close>

definition message_flag :: "Message \<Rightarrow> FeatureFlag" where
  "message_flag msg = zero_flag\<lparr>ff_Key := msg_Key msg, ff_Value := msg_Value msg,
     ff_Type := msg_Type msg, ff_Version := msg_Version msg, ff_Revision := msg_Revision msg\<rparr>"

definition handleUpdate :: "Message \<Rightarrow> MizuClient \<Rightarrow> MizuClient option" where
  "handleUpdate msg c =
     (if msg_Revision msg \<le> mc_lastRev c then Some c
      else map_option (\<lambda>c1. c1\<lparr>mc_lastRev := msg_Revision msg, mc_isDirty := True\<rparr>)
        (if msg_Action msg = DELETE
         then Some (c\<lparr>mc_features := map_option (gm_del (msg_Key msg)) (mc_features c)\<rparr>)
         else if msg_Action msg = PUT then put_feature (msg_Key msg) (message_flag msg) c
         else Some c))"

section \<open>The event stream\<close>

text \<open>
  \<open>bufio.Scanner\<close> with its default limit: the lines of the bytes received, without their
  end (\<open>\n\<close> or \<open>\r\n\<close>); a last line without end counts unless it is empty; a line of 65536
  bytes or more stops the scan.
\<close>

definition MaxScanTokenSize :: nat where "MaxScanTokenSize = 65536"

definition drop_cr :: "string \<Rightarrow> string" where
  "drop_cr l = (if l \<noteq> [] \<and> last l = CHR 13 then butlast l else l)"

definition scan_lines :: "string \<Rightarrow> string list" where
  "scan_lines s =
     (let ls = split_on (CHR 10) s;
          ls' = (if last ls = [] then butlast ls else ls)
      in map drop_cr (takeWhile (\<lambda>l. length l < MaxScanTokenSize) ls'))"

record Stream =
  st_eventType :: string
  st_data :: string

definition new_stream :: Stream where "new_stream = \<lparr>st_eventType = [], st_data = []\<rparr>"

text \<open>A line that is not empty: a field of the message being read.\<close>

definition stream_field :: "string \<Rightarrow> Stream \<Rightarrow> Stream" where
  "stream_field line st =
     (if has_prefix line ''event: '' then st\<lparr>st_eventType := trim_space (trim_prefix line ''event:'')\<rparr>
      else if has_prefix line ''data:'' then
        st\<lparr>st_data := st_data st @ (if st_data st \<noteq> [] then [CHR 10] else []) @
             trim_space (trim_prefix line ''data:'')\<rparr>
      else st)"

text \<open>The loop over the lines; a reset ends it.\<close>

fun stream_loop ::
  "'n network \<Rightarrow> string list \<Rightarrow> Stream \<Rightarrow> MizuClient \<Rightarrow> 'n \<Rightarrow> (MizuClient \<times> 'n) option" where
  "stream_loop net [] st c n = Some (c, n)"
| "stream_loop net (line # ls) st c n =
     (if line = [] then
        if st_eventType st = ''reset'' then
          map_option snd (fetchAll net c n)
        else if st_eventType st = ''ping'' then stream_loop net ls new_stream c n
        else if st_data st \<noteq> [] then
          (case unmarshal_message (st_data st) of
             Some msg \<Rightarrow>
               (case handleUpdate msg c of
                  None \<Rightarrow> None
                | Some c1 \<Rightarrow> stream_loop net ls new_stream c1 n)
           | None \<Rightarrow> stream_loop net ls new_stream c n)
        else stream_loop net ls new_stream c n
      else stream_loop net ls (stream_field line st) c n)"

text \<open>
  One round of \<open>runWatchLoop\<close>: the delay it sleeps (0 when the connection was made), the next
  backoff and the client after the connection closed. \<open>rnd\<close> is what \<open>rand.Int63n\<close> drew.
\<close>

definition maxBackoff :: int where "maxBackoff = 30 * Second"

definition next_backoff :: "int \<Rightarrow> int" where
  "next_backoff backoff = (let b = wrap64 (backoff * 2) in if b > maxBackoff then maxBackoff else b)"

definition watch_round ::
  "'n network \<Rightarrow> int \<Rightarrow> int \<Rightarrow> MizuClient \<Rightarrow> 'n \<Rightarrow> (int \<times> int \<times> MizuClient \<times> 'n) option" where
  "watch_round net rnd backoff c n =
     (case net (watch_url c) (mc_apiKey c) n of
        (BadURL, n1) \<Rightarrow> None
      | (TransportError, n1) \<Rightarrow>
          if backoff div 2 \<le> 0 then None
          else Some (wrap64 (backoff + rnd mod (backoff div 2)), next_backoff backoff, c, n1)
      | (Body b, n1) \<Rightarrow>
          map_option (\<lambda>(c1, n2). (0, Second, c1, n2))
            (stream_loop net (scan_lines b) new_stream c n1))"

section \<open>Evaluation\<close>

type_synonym eval_context = "(string, string) gomap"

definition matchRule :: "Rule \<Rightarrow> eval_context \<Rightarrow> bool option" where
  "matchRule rule content =
     (case gm_get content (ru_Attribute rule) of
        None \<Rightarrow> Some False
      | Some val \<Rightarrow>
          if ru_Operator rule = ''in'' then Some (val \<in> set (ru_Values rule))
          else if ru_Operator rule = ''eq'' then
            map_option (\<lambda>v0. val = v0) (slice_get (ru_Values rule) 0)
          else if ru_Operator rule = ''mod'' then
            (case slice_get (ru_Values rule) 0 of
               None \<Rightarrow> None
             | Some v0 \<Rightarrow>
                 (case parse_int v0 of
                    (threshold, err) \<Rightarrow>
                      if err \<noteq> None \<or> threshold = 0 then Some False
                      else Some (uint (fnv32a val mod 100) < threshold)))
          else Some False)"

fun eval_rules :: "Rule list \<Rightarrow> eval_context \<Rightarrow> string \<Rightarrow> string option" where
  "eval_rules [] ctx dflt = Some dflt"
| "eval_rules (rule # rs) ctx dflt =
     (case matchRule rule ctx of
        None \<Rightarrow> None
      | Some True \<Rightarrow> Some (ru_Result rule)
      | Some False \<Rightarrow> eval_rules rs ctx dflt)"

definition evaluate :: "string \<Rightarrow> eval_context \<Rightarrow> MizuClient \<Rightarrow> (string \<times> bool) option" where
  "evaluate key ctx c =
     (case gm_get (features_of c) key of
        None \<Rightarrow> Some ([], False)
      | Some feature \<Rightarrow>
          if ff_Type feature \<noteq> TypeStrategy then Some (ff_Value feature, True)
          else (case unmarshal_strategy (ff_Value feature) of
                  None \<Rightarrow> Some (ff_Value feature, True)
                | Some strategy \<Rightarrow>
                    map_option (\<lambda>v. (v, True))
                      (eval_rules (fs_Rules strategy) ctx (fs_DefaultValue strategy))))"

definition IsEnabled :: "string \<Rightarrow> eval_context \<Rightarrow> MizuClient \<Rightarrow> bool option" where
  "IsEnabled key ctx c =
     map_option (\<lambda>(val, ok). ok \<and> (val = ''true'' \<or> val = ''True'' \<or> val = ''TRUE'')) (evaluate key ctx c)"

definition GetString :: "string \<Rightarrow> string \<Rightarrow> eval_context \<Rightarrow> MizuClient \<Rightarrow> string option" where
  "GetString key dflt ctx c = map_option (\<lambda>(val, ok). if ok then val else dflt) (evaluate key ctx c)"

definition GetNumber :: "string \<Rightarrow> float64 \<Rightarrow> eval_context \<Rightarrow> MizuClient \<Rightarrow> float64 option" where
  "GetNumber key dflt ctx c =
     map_option (\<lambda>(val, ok). if \<not> ok then dflt
                  else case ParseFloat val of Inl _ \<Rightarrow> dflt | Inr f \<Rightarrow> f) (evaluate key ctx c)"

text \<open>The target of \<open>GetJSON\<close> is a struct variable, given by its fields and its value.\<close>

datatype json_error = FeatureNotFound | DecodeError

definition GetJSON ::
  "string \<Rightarrow> 'r json_field list \<Rightarrow> 'r \<Rightarrow> eval_context \<Rightarrow> MizuClient \<Rightarrow> (json_error + 'r) option" where
  "GetJSON key fds target ctx c =
     map_option (\<lambda>(val, ok). if \<not> ok then Inl FeatureNotFound
                  else case unmarshal fds target val of None \<Rightarrow> Inl DecodeError | Some r \<Rightarrow> Inr r)
       (evaluate key ctx c)"

section \<open>Persistence\<close>

record snapshot =
  sn_Features :: "(string, FeatureFlag) gomap option"
  sn_Revision :: int

text \<open>
  \<open>json.Marshal\<close> writes a map with its keys in order, a nil map as \<open>null\<close>; decoding into a
  map makes it when it is nil, and \<open>null\<close> sets it to nil.
\<close>

definition snapshot_json :: "snapshot \<Rightarrow> json" where
  "snapshot_json s =
     JObj [(''features'', case sn_Features s of None \<Rightarrow> JNull
              | Some m \<Rightarrow> JObj (map (\<lambda>(k, f). (k, flag_json f)) (sort_key fst m))),
           (''revision'', JNum (show_int (sn_Revision s)))]"

fun decode_flags :: "(string \<times> json) list \<Rightarrow> (string, FeatureFlag) gomap \<Rightarrow> (string, FeatureFlag) gomap option" where
  "decode_flags [] m = Some m"
| "decode_flags ((k, j) # ms) m =
     (case decode_struct flag_fields j zero_flag of
        None \<Rightarrow> None
      | Some f \<Rightarrow> decode_flags ms (gm_put k f m))"

definition set_features :: "json \<Rightarrow> snapshot \<Rightarrow> snapshot option" where
  "set_features j s =
     (case j of
        JNull \<Rightarrow> Some (s\<lparr>sn_Features := None\<rparr>)
      | JObj ms \<Rightarrow> map_option (\<lambda>m. s\<lparr>sn_Features := Some m\<rparr>)
          (decode_flags ms (case sn_Features s of None \<Rightarrow> [] | Some m \<Rightarrow> m))
      | _ \<Rightarrow> None)"

definition snapshot_fields :: "snapshot json_field list" where
  "snapshot_fields = [(''features'', set_features), (''revision'', set_int 64 sn_Revision_update)]"

text \<open>
  The files, by path. Writing truncates, then writes: it succeeds, fails to open, or fails
  (or the process dies) after some bytes; renaming succeeds or fails (or never happens).
\<close>

type_synonym files = "string \<Rightarrow> string option"

datatype write_result = Written | NotOpened | Partial nat

definition WriteFile :: "write_result \<Rightarrow> string \<Rightarrow> string \<Rightarrow> files \<Rightarrow> bool \<times> files" where
  "WriteFile wr path data fs =
     (case wr of
        Written \<Rightarrow> (True, fs(path \<mapsto> data))
      | NotOpened \<Rightarrow> (False, fs)
      | Partial k \<Rightarrow> (False, fs(path \<mapsto> take k data)))"

definition Rename :: "bool \<Rightarrow> string \<Rightarrow> string \<Rightarrow> files \<Rightarrow> files" where
  "Rename ok old new fs =
     (if ok \<and> fs old \<noteq> None then (fs(old := None))(new := fs old) else fs)"

definition saveSnapshot :: "write_result \<Rightarrow> bool \<Rightarrow> MizuClient \<Rightarrow> files \<Rightarrow> files" where
  "saveSnapshot wr rn c fs =
     (let data = jprint (snapshot_json \<lparr>sn_Features = mc_features c, sn_Revision = mc_lastRev c\<rparr>);
          tmpFile = mc_cacheFile c @ ''.tmp'';
          (ok, fs1) = WriteFile wr tmpFile data fs
      in if \<not> ok then fs1 else Rename rn tmpFile (mc_cacheFile c) fs1)"

definition loadSnapshot :: "files \<Rightarrow> MizuClient \<Rightarrow> bool \<times> MizuClient" where
  "loadSnapshot fs c =
     (case fs (mc_cacheFile c) of
        None \<Rightarrow> (True, c)
      | Some data \<Rightarrow>
          (case unmarshal snapshot_fields \<lparr>sn_Features = None, sn_Revision = 0\<rparr> data of
             None \<Rightarrow> (True, c)
           | Some s \<Rightarrow> (False, c\<lparr>mc_features := sn_Features s, mc_lastRev := sn_Revision s\<rparr>)))"

text \<open>One tick of \<open>runSnapshotLoop\<close>, and how long it waits for it (\<open>None\<close>: \<open>rand.Int63n\<close> panics).\<close>

definition snapshot_wait :: "int \<Rightarrow> MizuClient \<Rightarrow> int option" where
  "snapshot_wait rnd c =
     (let d = wrap64 (mc_snapshotIntervalMax c - mc_snapshotIntervalMin c) in
      if d \<le> 0 then None else Some (wrap64 (mc_snapshotIntervalMin c + rnd mod d)))"

definition snapshot_tick :: "write_result \<Rightarrow> bool \<Rightarrow> MizuClient \<times> files \<Rightarrow> MizuClient \<times> files" where
  "snapshot_tick wr rn s =
     (case s of (c, fs) \<Rightarrow>
        if \<not> mc_isDirty c then (c, fs)
        else (let c1 = c\<lparr>mc_isDirty := False\<rparr> in (c1, saveSnapshot wr rn c1 fs)))"

text \<open>\<open>Start\<close> before it launches the two loops: \<open>True\<close> is an error.\<close>

definition Start :: "'n network \<Rightarrow> files \<Rightarrow> MizuClient \<Rightarrow> 'n \<Rightarrow> (bool \<times> MizuClient \<times> 'n) option" where
  "Start net fs c n =
     (case fetchAll net c n of
        None \<Rightarrow> None
      | Some (False, c1, n1) \<Rightarrow> Some (False, c1, n1)
      | Some (True, c1, n1) \<Rightarrow> (case loadSnapshot fs c1 of (err, c2) \<Rightarrow> Some (err, c2, n1)))"

end
