(* ===== verification/Sdk_Facts.thy ===== *)
theory Sdk_Facts
  imports Sdk_Client Revision_Buffer
begin

text \<open>
  What the SDK guarantees: local evaluation is "first matching rule", a percentage rollout
  grows with its threshold, updates converge to the server's history however the stream is
  cut and replayed, a well-formed stream delivers exactly its messages, and the snapshot
  file survives a crash and reads back.
\<close>

section \<open>Evaluation\<close>

text \<open>When a rule matches, said without the order of the tests, and when it is safe to ask.\<close>

definition bucket :: "string \<Rightarrow> int" where
  "bucket val = uint (fnv32a val mod 100)"

definition rule_matches :: "eval_context \<Rightarrow> Rule \<Rightarrow> bool" where
  "rule_matches ctx r \<longleftrightarrow>
     (case gm_get ctx (ru_Attribute r) of
        None \<Rightarrow> False
      | Some val \<Rightarrow>
          ru_Operator r = ''in'' \<and> val \<in> set (ru_Values r)
          \<or> ru_Operator r = ''eq'' \<and> val = hd (ru_Values r)
          \<or> ru_Operator r = ''mod'' \<and> snd (parse_int (hd (ru_Values r))) = None
              \<and> bucket val < fst (parse_int (hd (ru_Values r))))"

definition rule_safe :: "eval_context \<Rightarrow> Rule \<Rightarrow> bool" where
  "rule_safe ctx r \<longleftrightarrow>
     ru_Operator r \<in> {''eq'', ''mod''} \<and> gm_get ctx (ru_Attribute r) \<noteq> None \<longrightarrow> ru_Values r \<noteq> []"

lemma bucket_range: "0 \<le> bucket val" "bucket val < 100"
  by (auto simp: bucket_def uint_mod_distrib uint_word_ariths)

lemma matchRule_safe: "rule_safe ctx r \<Longrightarrow> matchRule r ctx = Some (rule_matches ctx r)"
  using bucket_range(1)
  by (auto simp: matchRule_def rule_matches_def rule_safe_def slice_get_def bucket_def hd_conv_nth
      split: option.splits prod.splits)

lemma matchRule_unsafe: "\<not> rule_safe ctx r \<Longrightarrow> matchRule r ctx = None"
  by (auto simp: matchRule_def rule_safe_def slice_get_def split: option.splits)

text \<open>The rules up to the first that matches are the ones asked.\<close>

definition asked :: "eval_context \<Rightarrow> Rule list \<Rightarrow> Rule list" where
  "asked ctx rs = take (Suc (length (takeWhile (\<lambda>r. \<not> rule_matches ctx r) rs))) rs"

definition rules_spec :: "eval_context \<Rightarrow> Rule list \<Rightarrow> string \<Rightarrow> string" where
  "rules_spec ctx rs dflt =
     (case find (rule_matches ctx) rs of Some r \<Rightarrow> ru_Result r | None \<Rightarrow> dflt)"

text \<open>An unsafe rule counts as one that does not match when we say which rules are asked.\<close>

lemma eval_rules_spec:
  "eval_rules rs ctx dflt =
     (if \<forall>r \<in> set (asked ctx rs). rule_safe ctx r then Some (rules_spec ctx rs dflt) else None)"
proof (induction rs)
  case (Cons r rs)
  show ?case
  proof (cases "rule_safe ctx r")
    case True
    then show ?thesis
      using Cons.IH by (simp add: matchRule_safe asked_def rules_spec_def split: bool.splits)
  next
    case False
    then show ?thesis by (simp add: matchRule_unsafe asked_def)
  qed
qed (simp add: asked_def rules_spec_def)

text \<open>
  C26. Evaluation of a flag, on every branch: a missing flag is reported as missing, a flag
  that is not a strategy (or whose strategy does not parse) gives its raw value, a
  strategy gives the result of its first matching rule or its default; and the call panics
  exactly when a rule that is asked has the operator eq or mod, an attribute present in
  the context, and no values.
\<close>

theorem evaluate_spec:
  "evaluate key ctx c =
     (case gm_get (features_of c) key of
        None \<Rightarrow> Some ([], False)
      | Some f \<Rightarrow>
          (case (if ff_Type f = TypeStrategy then unmarshal_strategy (ff_Value f) else None) of
             None \<Rightarrow> Some (ff_Value f, True)
           | Some st \<Rightarrow>
               if list_all (rule_safe ctx) (asked ctx (fs_Rules st)) then Some (rules_spec ctx (fs_Rules st) (fs_DefaultValue st), True) else None))"
  by (auto simp: evaluate_def eval_rules_spec list_all_iff split: option.splits)

lemma matchRule_rollout:
  assumes "is_int64 t"
  shows "matchRule \<lparr>ru_Attribute = a, ru_Operator = ''mod'', ru_Values = [show_int t], ru_Result = v\<rparr> ctx =
    Some (case gm_get ctx a of None \<Rightarrow> False | Some val \<Rightarrow> bucket val < t)"
  using assms bucket_range(1)
  by (auto simp: matchRule_def slice_get_def parse_int_show_int bucket_def split: option.splits)

text \<open>
  A percentage rollout only grows with its threshold: a user inside a rollout of t
  percent stays inside every larger one.
\<close>

theorem rollout_monotone:
  assumes "is_int64 t" "is_int64 t'" "t \<le> t'"
    and "matchRule \<lparr>ru_Attribute = a, ru_Operator = ''mod'', ru_Values = [show_int t], ru_Result = v\<rparr> ctx = Some True"
  shows "matchRule \<lparr>ru_Attribute = a, ru_Operator = ''mod'', ru_Values = [show_int t'], ru_Result = v\<rparr> ctx = Some True"
  using assms by (auto simp: matchRule_rollout split: option.splits)

definition sample_client :: MizuClient where
  "sample_client = NewMizuClient ''http://h'' ''prod'' ''k'' [''a''] []"

definition put_msg :: "string \<Rightarrow> string \<Rightarrow> int \<Rightarrow> Message" where
  "put_msg k v r = zero_message\<lparr>msg_Key := k, msg_Value := v, msg_Type := TypeString, msg_Revision := r, msg_Action := PUT\<rparr>"

theorem rollout_monotone_witness:
  "matchRule \<lparr>ru_Attribute = ''user'', ru_Operator = ''mod'', ru_Values = [show_int 90], ru_Result = ''true''\<rparr>
     [(''user'', ''user123'')] = Some True"
proof (rule rollout_monotone)
  show "matchRule \<lparr>ru_Attribute = ''user'', ru_Operator = ''mod'', ru_Values = [show_int 75], ru_Result = ''true''\<rparr>
     [(''user'', ''user123'')] = Some True" by code_simp
qed (simp_all add: is_int64_small)

theorem rollout_bounds:
  assumes "is_int64 t" "gm_get ctx a = Some val"
  shows "t \<le> 0 \<Longrightarrow> matchRule \<lparr>ru_Attribute = a, ru_Operator = ''mod'', ru_Values = [show_int t], ru_Result = v\<rparr> ctx = Some False"
    and "t \<ge> 100 \<Longrightarrow> matchRule \<lparr>ru_Attribute = a, ru_Operator = ''mod'', ru_Values = [show_int t], ru_Result = v\<rparr> ctx = Some True"
  using assms bucket_range [of val] by (simp_all add: matchRule_rollout)

section \<open>Updates\<close>

lemma updates_stale:
  "(\<And>m. m \<in> set ms \<Longrightarrow> msg_Revision m \<le> mc_lastRev c) \<Longrightarrow> fold_opt handleUpdate ms c = Some c"
  by (induction ms) (auto simp: handleUpdate_def)

lemma handleUpdate_lastRev:
  "handleUpdate m c = Some c' \<Longrightarrow> mc_lastRev c' = max (mc_lastRev c) (msg_Revision m)"
  by (auto simp: handleUpdate_def put_feature_def split: if_splits option.splits)

lemma updates_lastRev:
  "fold_opt handleUpdate ms c = Some c' \<Longrightarrow>
     mc_lastRev c \<le> mc_lastRev c' \<and> (\<forall>m \<in> set ms. msg_Revision m \<le> mc_lastRev c')"
proof (induction ms arbitrary: c)
  case (Cons m ms)
  then obtain c1 where "handleUpdate m c = Some c1" "fold_opt handleUpdate ms c1 = Some c'"
    by (auto split: option.splits)
  with Cons.IH [of c1] handleUpdate_lastRev [of m c c1] show ?case by fastforce
qed simp

text \<open>
  Reconnecting is idempotent: a client that received the first n messages of a
  history, and is then served the history again from any earlier point k on, ends in the
  state of a client that received the history once.
\<close>

theorem reconnect_idempotent:
  assumes "k \<le> n"
  shows "fold_opt handleUpdate (take n ms @ drop k ms) c = fold_opt handleUpdate ms c"
proof -
  have split: "drop k ms = drop k (take n ms) @ drop n ms"
    using assms by (metis append_take_drop_id drop_take le_add_diff_inverse drop_drop take_drop add.commute)
  have stale: "fold_opt handleUpdate (drop k (take n ms)) c1 = Some c1"
    if "fold_opt handleUpdate (take n ms) c = Some c1" for c1
    using updates_lastRev [OF that] by (intro updates_stale) (meson in_set_dropD)
  have "fold_opt handleUpdate (take n ms @ drop k ms) c = fold_opt handleUpdate (take n ms @ drop n ms) c"
    unfolding split fold_opt_append using stale by (auto simp: fold_opt_append split: option.splits)
  then show ?thesis by simp
qed

theorem reconnect_idempotent_witness:
  "fold_opt handleUpdate
     (take 2 [put_msg ''k'' ''x'' 1, put_msg ''k'' ''y'' 2, put_msg ''k'' ''z'' 3] @
      drop 1 [put_msg ''k'' ''x'' 1, put_msg ''k'' ''y'' 2, put_msg ''k'' ''z'' 3]) sample_client =
   fold_opt handleUpdate [put_msg ''k'' ''x'' 1, put_msg ''k'' ''y'' 2, put_msg ''k'' ''z'' 3] sample_client"
  by (rule reconnect_idempotent) simp

text \<open>The last message that concerns a key, and what it leaves there.\<close>

definition last_change :: "Message list \<Rightarrow> string \<Rightarrow> Message option" where
  "last_change ms k = find (\<lambda>m. msg_Key m = k \<and> msg_Action m \<in> {DELETE, PUT}) (rev ms)"

definition state_after :: "Message list \<Rightarrow> (string \<Rightarrow> FeatureFlag option) \<Rightarrow> string \<Rightarrow> FeatureFlag option" where
  "state_after ms m0 k =
     (case last_change ms k of
        None \<Rightarrow> m0 k
      | Some m \<Rightarrow> if msg_Action m = DELETE then None else Some (message_flag m))"

lemma state_after_Nil [simp]: "state_after [] m0 = m0"
  by (simp add: state_after_def last_change_def fun_eq_iff)

lemma find_append: "find P (xs @ ys) = (case find P xs of None \<Rightarrow> find P ys | Some x \<Rightarrow> Some x)"
  by (induction xs) auto

lemma state_after_append [simp]:
  "state_after (ms1 @ ms2) m0 = state_after ms2 (state_after ms1 m0)"
  by (auto simp: state_after_def last_change_def find_append fun_eq_iff split: option.splits)

lemma state_after_one:
  "state_after [m] m0 = (if msg_Action m = DELETE then m0(msg_Key m := None)
     else if msg_Action m = PUT then m0(msg_Key m := Some (message_flag m)) else m0)"
  by (auto simp: state_after_def last_change_def fun_eq_iff DELETE_def PUT_def)

lemma state_after_Cons: "state_after (m # ms) m0 = state_after ms (state_after [m] m0)"
  using state_after_append [of "[m]" ms m0] by simp

definition client_ok :: "MizuClient \<Rightarrow> bool" where
  "client_ok c \<longleftrightarrow> (\<exists>m. mc_features c = Some m \<and> gm_wf m)"

lemma client_ok_new [inv_intros]: "client_ok (NewMizuClient addr env apiKey nss [])"
  by (simp add: client_ok_def NewMizuClient_def)

lemma handleUpdate_fresh:
  assumes "client_ok c" "mc_lastRev c < msg_Revision m"
  shows "\<exists>c'. handleUpdate m c = Some c' \<and> client_ok c' \<and> mc_lastRev c' = msg_Revision m \<and>
    gm_get (features_of c') = state_after [m] (gm_get (features_of c))"
  using assms
  by (auto simp: handleUpdate_def put_feature_def client_ok_def features_of_def state_after_one
      fun_eq_iff DELETE_def PUT_def)

lemma updates_fresh:
  "client_ok c \<Longrightarrow> increasing ms \<Longrightarrow> (\<forall>m \<in> set ms. mc_lastRev c < msg_Revision m) \<Longrightarrow>
   \<exists>c'. fold_opt handleUpdate ms c = Some c' \<and> client_ok c' \<and>
     mc_lastRev c' = (if ms = [] then mc_lastRev c else msg_Revision (last ms)) \<and>
     gm_get (features_of c') = state_after ms (gm_get (features_of c))"
proof (induction ms arbitrary: c)
  case (Cons m ms)
  then obtain c1 where c1: "handleUpdate m c = Some c1" "client_ok c1" "mc_lastRev c1 = msg_Revision m"
    "gm_get (features_of c1) = state_after [m] (gm_get (features_of c))"
    using handleUpdate_fresh [of c m] by auto
  with Cons.prems have "increasing ms" "\<forall>x \<in> set ms. mc_lastRev c1 < msg_Revision x"
    by (auto simp: increasing_def)
  from Cons.IH [OF c1(2) this] c1 show ?case
    by (auto simp: state_after_Cons [of m ms])
qed simp

lemma updates_max:
  "fold_opt handleUpdate ms c = Some c' \<Longrightarrow> mc_lastRev c' = fold max (map msg_Revision ms) (mc_lastRev c)"
proof (induction ms arbitrary: c)
  case (Cons m ms)
  from Cons.prems obtain c1 where "handleUpdate m c = Some c1" "fold_opt handleUpdate ms c1 = Some c'"
    by (auto split: option.splits)
  with Cons.IH [of c1] handleUpdate_lastRev [of m c c1] show ?case by (simp add: max.commute)
qed simp

lemma updates_filter:
  "increasing ms \<Longrightarrow>
     fold_opt handleUpdate (filter (\<lambda>m. mc_lastRev c < msg_Revision m) ms) c = fold_opt handleUpdate ms c"
proof (induction ms)
  case (Cons m ms)
  show ?case
  proof (cases "mc_lastRev c < msg_Revision m")
    case True
    with Cons.prems have "filter (\<lambda>m. mc_lastRev c < msg_Revision m) ms = ms"
      by (intro filter_True) (fastforce simp: increasing_def)
    with True show ?thesis by simp
  next
    case False
    then have "handleUpdate m c = Some c" by (simp add: handleUpdate_def)
    with False Cons show ?thesis by (simp add: increasing_def)
  qed
qed simp

lemma updates_state:
  assumes "client_ok c" "increasing ms"
  shows "\<exists>c'. fold_opt handleUpdate ms c = Some c' \<and> client_ok c' \<and>
     mc_lastRev c' = fold max (map msg_Revision ms) (mc_lastRev c) \<and>
     gm_get (features_of c') =
       state_after (filter (\<lambda>m. mc_lastRev c < msg_Revision m) ms) (gm_get (features_of c))"
proof -
  let ?new = "filter (\<lambda>m. mc_lastRev c < msg_Revision m) ms"
  have "increasing ?new" using assms(2) unfolding increasing_def by (rule sorted_wrt_filter)
  from updates_fresh [OF assms(1) this] obtain c' where c': "fold_opt handleUpdate ?new c = Some c'"
    "client_ok c'" "gm_get (features_of c') = state_after ?new (gm_get (features_of c))" by auto
  from c'(1) have run: "fold_opt handleUpdate ms c = Some c'"
    by (simp only: updates_filter [OF assms(2)])
  from run c'(2,3) updates_max [OF run] show ?thesis by blast
qed

text \<open>
  C21. Updates converge: after any increasing history, a client with a non-nil map has not
  panicked, holds the largest revision, and each key holds what the last put or delete
  newer than the client's old revision left there (its old flag if there was none).
\<close>

theorem updates_converge:
  assumes "client_ok c" "increasing ms"
  shows "\<exists>c'. fold_opt handleUpdate ms c = Some c' \<and> client_ok c' \<and>
     mc_lastRev c' = fold max (map msg_Revision ms) (mc_lastRev c) \<and>
     gm_get (features_of c') =
       state_after (filter (\<lambda>m. mc_lastRev c < msg_Revision m) ms) (gm_get (features_of c))"
  using assms by (rule updates_state)

theorem updates_converge_witness:
  "\<exists>c'. fold_opt handleUpdate [put_msg ''k'' ''x'' 1, put_msg ''k'' ''y'' 2] sample_client = Some c' \<and>
     mc_lastRev c' = 2 \<and> map_option ff_Value (gm_get (features_of c') ''k'') = Some ''y''"
proof -
  have "client_ok sample_client" unfolding sample_client_def by (rule client_ok_new)
  moreover have "increasing [put_msg ''k'' ''x'' 1, put_msg ''k'' ''y'' 2]"
    by (simp add: increasing_def put_msg_def)
  ultimately obtain c' where c': "fold_opt handleUpdate [put_msg ''k'' ''x'' 1, put_msg ''k'' ''y'' 2] sample_client = Some c'"
    "mc_lastRev c' = fold max (map msg_Revision [put_msg ''k'' ''x'' 1, put_msg ''k'' ''y'' 2]) (mc_lastRev sample_client)"
    "gm_get (features_of c') = state_after (filter (\<lambda>m. mc_lastRev sample_client < msg_Revision m)
       [put_msg ''k'' ''x'' 1, put_msg ''k'' ''y'' 2]) (gm_get (features_of sample_client))"
    using updates_converge by metis
  then show ?thesis
    by (auto simp: put_msg_def sample_client_def NewMizuClient_def state_after_def last_change_def
        message_flag_def DELETE_def PUT_def)
qed

section \<open>The stream\<close>

text \<open>A text made of lines reads back as these lines.\<close>

definition unlines :: "string list \<Rightarrow> string" where
  "unlines ls = concat (map (\<lambda>l. l @ [CHR 10]) ls)"

definition plain_line :: "string \<Rightarrow> bool" where
  "plain_line l \<longleftrightarrow> CHR 10 \<notin> set l \<and> CHR 13 \<notin> set l \<and> length l < MaxScanTokenSize"

lemma split_on_unlines:
  "\<forall>l \<in> set ls. plain_line l \<Longrightarrow> split_on (CHR 10) (unlines ls) = ls @ [[]]"
  by (induction ls) (auto simp: unlines_def plain_line_def split_on_append_sep)

lemma drop_cr_plain: "plain_line l \<Longrightarrow> drop_cr l = l"
  by (metis drop_cr_def last_in_set plain_line_def)

lemma scan_lines_unlines:
  assumes "\<forall>l \<in> set ls. plain_line l"
  shows "scan_lines (unlines ls) = ls"
proof -
  have "takeWhile (\<lambda>l. length l < MaxScanTokenSize) ls = ls"
    using assms by (simp add: takeWhile_eq_all_conv plain_line_def)
  moreover have "map drop_cr ls = ls"
    using assms by (auto intro: map_idI drop_cr_plain)
  ultimately show ?thesis
    unfolding scan_lines_def split_on_unlines [OF assms] by (simp del: takeWhile_eq_all_conv)
qed

lemma trim_left_nonspace: "lead_space (c # s) = 0 \<Longrightarrow> trim_left (c # s) = c # s"
  by (subst trim_left.simps) simp

lemma trim_space_braces: "trim_space (CHR ''{'' # s @ ''}'') = CHR ''{'' # s @ ''}''"
proof -
  have l: "lead_space (CHR ''{'' # s @ ''}'') = 0"
    by (simp add: lead_space_def bytes_def split: list.splits)
  have "trail_space (CHR ''}'' # t) = 0" for t
    by (cases t; cases "tl t") (auto simp: trail_space_def bytes_def)
  then have "trim_rev (CHR ''}'' # t) = CHR ''}'' # t" for t
    by (subst trim_rev.simps) simp
  from this [of "rev (CHR ''{'' # s)"] show ?thesis
    by (simp add: trim_space_def trim_left_nonspace [OF l])
qed

lemma trim_space_blank: "trim_space (CHR '' '' # s) = trim_space s"
proof -
  have "lead_space (CHR '' '' # s) = 1" by (simp add: lead_space_def bytes_def split: list.splits)
  then have "trim_left (CHR '' '' # s) = trim_left s" by (subst trim_left.simps) simp
  then show ?thesis by (simp add: trim_space_def)
qed

lemma jprint_members_end: "ms \<noteq> [] \<Longrightarrow> \<exists>s. jprint_members ms = s @ ''}''"
  by (induction ms) (auto split: if_splits intro: exI [of _ "_ @ _"])

lemma jprint_obj_braces: "\<exists>s. jprint (JObj ms) = CHR ''{'' # s @ ''}''"
  using jprint_members_end [of ms] by auto

text \<open>
  An event of the stream: the field names are followed by a colon and, as the format has it,
  by an optional space.
\<close>

definition event_lines :: "string \<Rightarrow> string \<Rightarrow> string \<Rightarrow> string list" where
  "event_lines sp name text = [''event:'' @ sp @ name, ''data:'' @ sp @ text, []]"

definition message_lines :: "string \<Rightarrow> Message \<Rightarrow> string list" where
  "message_lines sp m = event_lines sp ''message'' (jprint (message_json m))"

lemma trim_space_message: "trim_space '' message'' = ''message''"
  by code_simp

lemma trim_space_json:
  assumes "sp = [] \<or> sp = '' ''"
  shows "trim_space (sp @ jprint (message_json m)) = jprint (message_json m)"
proof -
  obtain s where "jprint (message_json m) = CHR ''{'' # s @ ''}''"
    unfolding message_json_def using jprint_obj_braces by blast
  with assms show ?thesis by (auto simp: trim_space_braces trim_space_blank)
qed

lemma stream_message:
  assumes "sp = [] \<or> sp = '' ''" "message_ok m"
  shows "stream_loop net (message_lines sp m @ ls) new_stream c n =
    (case handleUpdate m c of None \<Rightarrow> None | Some c1 \<Rightarrow> stream_loop net ls new_stream c1 n)"
proof -
  let ?j = "jprint (message_json m)"
  have ne: "?j \<noteq> []" unfolding message_json_def by simp
  have ev: "stream_field (''event:'' @ sp @ ''message'') new_stream =
      \<lparr>st_eventType = (if sp = [] then [] else ''message''), st_data = []\<rparr>"
    using assms(1) trim_space_message
    by (auto simp: stream_field_def has_prefix_def trim_prefix_def new_stream_def)
  have da: "stream_field (''data:'' @ sp @ ?j) \<lparr>st_eventType = e, st_data = []\<rparr> =
      \<lparr>st_eventType = e, st_data = ?j\<rparr>" for e
    using trim_space_json [OF assms(1), of m]
    by (simp add: stream_field_def has_prefix_def trim_prefix_def)
  show ?thesis
    using assms(2) ne ev da
    by (simp add: message_lines_def event_lines_def unmarshal_message_json)
qed

lemma stream_messages:
  assumes "sp = [] \<or> sp = '' ''"
  shows "\<forall>m \<in> set ms. message_ok m \<Longrightarrow>
    stream_loop net (concat (map (message_lines sp) ms)) new_stream c n =
      map_option (\<lambda>c1. (c1, n)) (fold_opt handleUpdate ms c)"
  by (induction ms arbitrary: c) (auto simp: stream_message [OF assms] split: option.splits)

text \<open>
  C30. The stream loop delivers exactly its messages: the bytes of well-formed message
  events, with or without the optional space after the colon, applied to a client, have
  the effect of the messages handled in order, nothing lost or repeated.
\<close>

theorem stream_delivers:
  assumes "sp = [] \<or> sp = '' ''"
    and "\<forall>m \<in> set ms. message_ok m \<and> length (jprint (message_json m)) < 65000"
  shows "stream_loop net (scan_lines (unlines (concat (map (message_lines sp) ms)))) new_stream c n =
    map_option (\<lambda>c1. (c1, n)) (fold_opt handleUpdate ms c)"
proof -
  have "plain_line l" if "m \<in> set ms" "l \<in> set (message_lines sp m)" for m l
    using that assms no_control_newline [OF no_control_jprint(1), of "message_json m"]
    by (auto simp: message_lines_def event_lines_def plain_line_def MaxScanTokenSize_def)
  then have "scan_lines (unlines (concat (map (message_lines sp) ms))) = concat (map (message_lines sp) ms)"
    by (intro scan_lines_unlines) auto
  then show ?thesis using stream_messages [OF assms(1), of ms net c n] assms(2) by simp
qed

lemma put_msg_ok: "valid_utf8 k \<Longrightarrow> valid_utf8 v \<Longrightarrow> is_int64 r \<Longrightarrow> message_ok (put_msg k v r)"
  by (simp add: put_msg_def message_ok_def zero_message_def TypeString_def ascii_valid is_ascii_def is_int64_small PUT_def)

theorem stream_delivers_witness:
  "stream_loop (\<lambda>url key n. (TransportError, n)) (scan_lines (unlines (concat (map (message_lines []) [put_msg ''k'' ''x'' 7])))) new_stream
     sample_client () =
   map_option (\<lambda>c1. (c1, ())) (fold_opt handleUpdate [put_msg ''k'' ''x'' 7] sample_client)"
proof -
  have all: "\<forall>m \<in> set [x]. P m" if "P x" for P and x :: Message using that by simp
  have "length (jprint (message_json (put_msg ''k'' ''x'' 7))) \<le> 200" by code_simp
  then have "length (jprint (message_json (put_msg ''k'' ''x'' 7))) < 65000" by linarith
  moreover have "message_ok (put_msg ''k'' ''x'' 7)"
    by (rule put_msg_ok) (simp_all add: ascii_valid is_ascii_def is_int64_small)
  ultimately have "\<forall>m \<in> set [put_msg ''k'' ''x'' 7]. message_ok m \<and> length (jprint (message_json m)) < 65000"
    by (intro all conjI)
  then show ?thesis by (intro stream_delivers disjI1 refl)
qed

text \<open>
  The reset event is seen only when its field name is followed by a space: the form of
  the event without the optional space is dropped without a re-fetch.
\<close>

theorem reset_needs_space:
  "stream_loop net (event_lines [] ''reset'' ''revision_too_old'' @ ls) new_stream c n =
     stream_loop net ls new_stream c n \<and>
   stream_loop net (event_lines '' '' ''reset'' ''revision_too_old'' @ ls) new_stream c n =
     map_option snd (fetchAll net c n)"
proof -
  have "trim_space ''revision_too_old'' = ''revision_too_old''" "trim_space '' reset'' = ''reset''"
    "unmarshal_message ''revision_too_old'' = None" "trim_space '' revision_too_old'' = ''revision_too_old''"
    by code_simp+
  then show ?thesis
    by (simp add: event_lines_def stream_field_def has_prefix_def trim_prefix_def new_stream_def)
qed

section \<open>The snapshot file\<close>

lemma decode_flag_json: "flag_ints f \<Longrightarrow> decode_struct flag_fields (flag_json f) zero_flag = Some f"
  by (simp add: decode_struct_def flag_json_def flag_fields_def find_field_def flag_ints_def zero_flag_def)

lemma jnorm_flag_json [simp]: "jnorm (flag_json f) = flag_json (flag_valid f)"
  by (simp add: flag_json_def flag_valid_def)

lemma decode_flags_json:
  "\<forall>(k, f) \<in> set xs. flag_ints f \<Longrightarrow>
     decode_flags (map (\<lambda>(k, f). (k, flag_json f)) xs) m = Some (fold (\<lambda>(k, f). gm_put k f) xs m)"
  by (induction xs arbitrary: m) (auto simp: decode_flag_json)

lemma fold_put_get:
  "distinct (map fst xs) \<Longrightarrow>
     gm_get (fold (\<lambda>(k, f). gm_put k f) xs m) k = (case gm_get xs k of Some f \<Rightarrow> Some f | None \<Rightarrow> gm_get m k)"
  by (induction xs arbitrary: m) (auto split: option.splits simp: map_of_eq_None_iff [symmetric])

lemma fold_put_wf: "gm_wf m \<Longrightarrow> gm_wf (fold (\<lambda>(k, f). gm_put k f) xs m)"
  by (induction xs arbitrary: m) auto

lemma sort_key_get:
  assumes "gm_wf m"
  shows "distinct (map fst (sort_key fst m)) \<and> gm_get (sort_key fst m) k = gm_get m k"
proof -
  have "mset (map fst (sort_key fst m)) = mset (map fst m)" by simp
  from mset_eq_imp_distinct_iff [OF this] assms have d: "gm_wf (sort_key fst m)"
    by (simp add: gm_wf_def)
  have "gm_get (sort_key fst m) k = Some v \<longleftrightarrow> gm_get m k = Some v" for v
    using gm_wf_in_iff [OF d] gm_wf_in_iff [OF assms] by simp
  then have "gm_get (sort_key fst m) k = gm_get m k" by (metis not_None_eq)
  with d show ?thesis by (simp add: gm_wf_def)
qed

text \<open>The state that can be written faithfully: valid text and 64-bit numbers.\<close>

definition persistable :: "(string, FeatureFlag) gomap option \<Rightarrow> int \<Rightarrow> bool" where
  "persistable m r \<longleftrightarrow> is_int64 r \<and>
     (case m of None \<Rightarrow> True
      | Some m \<Rightarrow> gm_wf m \<and> (\<forall>(k, f) \<in> set m. valid_utf8 k \<and> flag_ints f \<and> flag_utf8 f))"

definition same_features :: "(string, FeatureFlag) gomap option \<Rightarrow> (string, FeatureFlag) gomap option \<Rightarrow> bool" where
  "same_features a b \<longleftrightarrow>
     (case (a, b) of
        (None, None) \<Rightarrow> True
      | (Some x, Some y) \<Rightarrow> gm_wf x \<and> gm_get x = gm_get y
      | _ \<Rightarrow> False)"

lemma valid_features_name [simp]: "valid_utf8 ''features''"
  by (simp add: ascii_valid is_ascii_def)

lemma snapshot_json_parse:
  assumes "persistable m r"
  shows "json_parse (jprint (snapshot_json \<lparr>sn_Features = m, sn_Revision = r\<rparr>)) =
    Some (snapshot_json \<lparr>sn_Features = m, sn_Revision = r\<rparr>)" (is "_ = Some ?j")
proof -
  have depth: "int (jdepth ?j) \<le> max_nesting"
  proof (cases m)
    case (Some x)
    have "fold max (map (\<lambda>(k, v). jdepth v) (map (\<lambda>(k, f). (k, flag_json f)) (sort_key fst x))) 0 \<le> (1 :: nat)"
      by (auto simp: fold_max_le)
    with Some show ?thesis by (simp add: snapshot_json_def max_nesting_def)
  qed (simp add: snapshot_json_def max_nesting_def)
  have "jnorm ?j = ?j" using assms
    by (auto simp: snapshot_json_def persistable_def split: option.splits)
  moreover have "jwf ?j" by (auto simp: snapshot_json_def split: option.splits)
  ultimately show ?thesis using json_parse_jprint [OF _ depth] by simp
qed

lemma snapshot_decode:
  assumes "persistable m r"
  shows "\<exists>m'. unmarshal snapshot_fields \<lparr>sn_Features = None, sn_Revision = 0\<rparr>
      (jprint (snapshot_json \<lparr>sn_Features = m, sn_Revision = r\<rparr>)) =
    Some \<lparr>sn_Features = m', sn_Revision = r\<rparr> \<and> same_features m' m"
proof (cases m)
  case None
  then show ?thesis using assms snapshot_json_parse [OF assms]
    by (simp add: unmarshal_def snapshot_json_def decode_struct_def snapshot_fields_def find_field_def
        set_features_def persistable_def same_features_def)
next
  case (Some x)
  let ?xs = "sort_key fst x" let ?y = "fold (\<lambda>(k, f). gm_put k f) ?xs []"
  have "gm_wf x" "\<forall>(k, f) \<in> set ?xs. flag_ints f" "is_int64 r"
    using assms Some by (auto simp: persistable_def)
  then have "decode_flags (map (\<lambda>(k, f). (k, flag_json f)) ?xs) [] = Some ?y"
    "gm_wf ?y" "gm_get ?y = gm_get x"
    using sort_key_get [of x]
    by (auto simp: decode_flags_json fold_put_wf fold_put_get fun_eq_iff split: option.splits)
  then show ?thesis using Some \<open>is_int64 r\<close> snapshot_json_parse [OF assms]
    by (simp add: unmarshal_def snapshot_json_def decode_struct_def snapshot_fields_def find_field_def
        set_features_def same_features_def)
qed

text \<open>
  Saving the cache file is atomic: whatever the write and the rename do, the cache
  file then holds its old contents or the complete new snapshot, and no file but it and
  its temporary changes.
\<close>

theorem snapshot_atomic:
  "saveSnapshot wr rn c fs (mc_cacheFile c) \<in>
     {fs (mc_cacheFile c),
      Some (jprint (snapshot_json \<lparr>sn_Features = mc_features c, sn_Revision = mc_lastRev c\<rparr>))} \<and>
   saveSnapshot wr rn c fs |` (- {mc_cacheFile c, mc_cacheFile c @ ''.tmp''}) =
     fs |` (- {mc_cacheFile c, mc_cacheFile c @ ''.tmp''})"
  by (auto simp: saveSnapshot_def WriteFile_def Rename_def Let_def restrict_map_def fun_eq_iff
      split: write_result.splits)

text \<open>
  A saved snapshot loads back: the revision and every flag of a state of valid text
  and 64-bit numbers are restored, and a nil map stays nil.
\<close>

theorem snapshot_roundtrip:
  assumes "persistable (mc_features c) (mc_lastRev c)" "mc_cacheFile c0 = mc_cacheFile c"
  shows "\<exists>m. loadSnapshot (saveSnapshot Written True c fs) c0 =
      (False, c0\<lparr>mc_features := m, mc_lastRev := mc_lastRev c\<rparr>) \<and> same_features m (mc_features c)"
  using snapshot_decode [OF assms(1)] assms(2)
  by (auto simp: loadSnapshot_def saveSnapshot_def WriteFile_def Rename_def Let_def)

theorem snapshot_roundtrip_witness:
  "\<exists>m. loadSnapshot (saveSnapshot Written True
        (sample_client\<lparr>mc_features := Some [(''k'', zero_flag\<lparr>ff_Key := ''k''\<rparr>)], mc_lastRev := 5\<rparr>) (\<lambda>_. None)) sample_client =
      (False, sample_client\<lparr>mc_features := m, mc_lastRev := 5\<rparr>) \<and>
    same_features m (Some [(''k'', zero_flag\<lparr>ff_Key := ''k''\<rparr>)])"
proof -
  let ?c = "sample_client\<lparr>mc_features := Some [(''k'', zero_flag\<lparr>ff_Key := ''k''\<rparr>)], mc_lastRev := 5\<rparr>"
  have "persistable (mc_features ?c) (mc_lastRev ?c)"
    by (simp add: persistable_def gm_wf_def flag_ints_def flag_utf8_def zero_flag_def ascii_valid
        is_ascii_def is_int64_small)
  from snapshot_roundtrip [OF this, of sample_client "\<lambda>_. None"] show ?thesis by simp
qed

section \<open>Backoff\<close>

lemma next_backoff_range:
  "Second \<le> b \<Longrightarrow> b \<le> maxBackoff \<Longrightarrow> Second \<le> next_backoff b \<and> next_backoff b \<le> maxBackoff"
  by (simp add: next_backoff_def maxBackoff_def Second_def is_int64_small Let_def)

text \<open>The backoff after a number of failures in a row.\<close>

lemma next_backoff_min: "Second \<le> b \<Longrightarrow> b \<le> maxBackoff \<Longrightarrow> next_backoff b = min (2 * b) maxBackoff"
  by (simp add: next_backoff_def maxBackoff_def Second_def is_int64_small Let_def)

lemma backoff_failures: "(next_backoff ^^ k) Second = min (2 ^ k * Second) maxBackoff"
proof (induction k)
  case (Suc k)
  have "Second \<le> min (2 ^ k * Second) maxBackoff"
    using one_le_power [of "2::int" k] by (simp add: Second_def maxBackoff_def)
  then have "next_backoff (min (2 ^ k * Second) maxBackoff) = min (2 * min (2 ^ k * Second) maxBackoff) maxBackoff"
    by (intro next_backoff_min) auto
  with Suc show ?case by (auto simp: min_def maxBackoff_def Second_def)
qed (simp add: Second_def maxBackoff_def)

text \<open>
  Reconnection delays stay bounded: from a backoff between one and thirty seconds a
  round of the watch loop goes to one in the same range, and a failed one sleeps at least
  the backoff and less than one and a half of it.
\<close>

theorem watch_round_backoff:
  assumes "Second \<le> b" "b \<le> maxBackoff" "watch_round net rnd b c n = Some (delay, b', c', n')"
  shows "Second \<le> b' \<and> b' \<le> maxBackoff \<and> (delay = 0 \<or> b \<le> delay \<and> 2 * delay < 3 * b)"
proof -
  have r: "is_int64 (b + rnd mod (b div 2)) \<and> 0 \<le> rnd mod (b div 2) \<and> 2 * (rnd mod (b div 2)) < b"
  proof -
    have "0 < b div 2" using assms(1) by (simp add: Second_def)
    then have "0 \<le> rnd mod (b div 2)" "rnd mod (b div 2) < b div 2" by simp_all
    with assms(2) \<open>0 < b div 2\<close> show ?thesis
      by (intro conjI is_int64_small) (auto simp: maxBackoff_def Second_def)
  qed
  show ?thesis using assms(3) r next_backoff_range [OF assms(1,2)]
    by (auto simp: watch_round_def maxBackoff_def Second_def split: prod.splits http_result.splits if_splits)
qed

theorem watch_round_backoff_witness:
  "Second \<le> 2 * Second \<and> 2 * Second \<le> maxBackoff \<and>
    watch_round (\<lambda>url key n. (TransportError, n)) 7 Second sample_client () = Some (Second + 7, 2 * Second, sample_client, ())"
proof -
  have run: "watch_round (\<lambda>url key n. (TransportError, n)) 7 Second sample_client () =
      Some (Second + 7, 2 * Second, sample_client, ())"
    by (simp add: watch_round_def next_backoff_def maxBackoff_def Second_def is_int64_small Let_def)
  with watch_round_backoff [OF _ _ run] show ?thesis by (simp add: Second_def maxBackoff_def)
qed

text \<open>
  A flag update after the client has loaded a cache file without flags panics.
\<close>

theorem load_nil_map_panics:
  "handleUpdate (put_msg ''k'' ''x'' 7)
     (snd (loadSnapshot ((\<lambda>_. None)(mc_cacheFile sample_client := Some ''{}'')) sample_client)) = None"
  by code_simp

end
