(* ===== verification/Feature_Hub.thy ===== *)
theory Feature_Hub
  imports Api_Types
begin

text \<open>
  \<open>internal/service/hub.go\<close>: the fan-out of feature changes to the connected streams. A
  client is a pointer; it is a number here and its struct is found in a heap. Its channel
  is the list of the buffered messages, its capacity, and whether it is closed; sending on
  or closing a closed channel is a panic. \<open>Run\<close> is a loop over one event at a time, so each
  event is a step on the state. A Go map used as a set is a list of distinct elements.
\<close>

section \<open>The state\<close>

type_synonym client_id = nat

record Client =
  cl_Send :: "Message list"
  cl_Cap :: nat
  cl_Closed :: bool
  cl_Namespaces :: "(string, bool) gomap"
  cl_Env :: string

text \<open>
  The calls of the \<open>HubObserver\<close> (\<open>internal/metrics/observer.go\<close>). The hub keeps none of their
  effects; its calls are logged in their order, and Metrics gives them to the Prometheus
  observer. The duration that \<open>ObservePushLatency\<close> is given is a clock reading and left out.
\<close>

datatype observer_call = IncOnline | DecOnline | RecordPush | ObservePushLatency | UpdateEventLag int

type_synonym env_shards = "(string, client_id list) gomap"

record Hub =
  hb_heap :: "client_id \<Rightarrow> Client"
  hb_clients :: "client_id list"
  hb_shards :: "(string, env_shards) gomap"
  hb_wildcards :: "client_id list"
  hb_calls :: "observer_call list"

text \<open>\<open>NewHub\<close> and the locals of \<open>Run\<close>; \<open>register_capacity\<close> is the size of the two queues.\<close>

definition NewHub :: "(client_id \<Rightarrow> Client) \<Rightarrow> Hub" where
  "NewHub heap = \<lparr>hb_heap = heap, hb_clients = [], hb_shards = [], hb_wildcards = [], hb_calls = []\<rparr>"

definition register_capacity :: "int \<Rightarrow> int" where
  "register_capacity bufferSize = (if bufferSize \<le> 0 then 512 else bufferSize)"

definition observe :: "observer_call \<Rightarrow> Hub \<Rightarrow> Hub" where
  "observe call h = h\<lparr>hb_calls := hb_calls h @ [call]\<rparr>"

text \<open>What the calls leave of the online gauge.\<close>

definition hb_online :: "Hub \<Rightarrow> int" where
  "hb_online h = int (count_list (hb_calls h) IncOnline) - int (count_list (hb_calls h) DecOnline)"

section \<open>The operations\<close>

definition is_wildcard :: "Client \<Rightarrow> bool" where
  "is_wildcard c \<longleftrightarrow> gm_get (cl_Namespaces c) ''*'' = Some True"

definition shard_add :: "client_id \<Rightarrow> string \<Rightarrow> env_shards \<Rightarrow> env_shards" where
  "shard_add c ns es =
     gm_put ns (List.insert c (case gm_get es ns of None \<Rightarrow> [] | Some cs \<Rightarrow> cs)) es"

definition addToShards :: "client_id \<Rightarrow> Hub \<Rightarrow> Hub" where
  "addToShards c h =
     (let client = hb_heap h c in
      if is_wildcard client then h\<lparr>hb_wildcards := List.insert c (hb_wildcards h)\<rparr>
      else
        (let es = (case gm_get (hb_shards h) (cl_Env client) of None \<Rightarrow> [] | Some es \<Rightarrow> es)
         in h\<lparr>hb_shards := gm_put (cl_Env client)
                (fold (shard_add c) (gm_keys (cl_Namespaces client)) es) (hb_shards h)\<rparr>))"

definition shard_del :: "client_id \<Rightarrow> string \<Rightarrow> env_shards \<Rightarrow> env_shards" where
  "shard_del c ns es =
     (case gm_get es ns of
        None \<Rightarrow> es
      | Some cs \<Rightarrow>
          (let cs' = removeAll c cs in if cs' = [] then gm_del ns es else gm_put ns cs' es))"

definition removeFromShards :: "client_id \<Rightarrow> Hub \<Rightarrow> Hub" where
  "removeFromShards c h =
     (let client = hb_heap h c in
      if c \<in> set (hb_wildcards h) then h\<lparr>hb_wildcards := removeAll c (hb_wildcards h)\<rparr>
      else case gm_get (hb_shards h) (cl_Env client) of
        None \<Rightarrow> h
      | Some es \<Rightarrow>
          (let es' = fold (shard_del c) (gm_keys (cl_Namespaces client)) es
           in if es' = [] then h\<lparr>hb_shards := gm_del (cl_Env client) (hb_shards h)\<rparr>
              else h\<lparr>hb_shards := gm_put (cl_Env client) es' (hb_shards h)\<rparr>))"

definition removeClient :: "client_id \<Rightarrow> Hub \<Rightarrow> Hub option" where
  "removeClient c h =
     (if c \<notin> set (hb_clients h) then Some h
      else
        (let h1 = removeFromShards c (h\<lparr>hb_clients := removeAll c (hb_clients h)\<rparr>) in
         if cl_Closed (hb_heap h1 c) then None
         else Some (observe DecOnline (h1\<lparr>hb_heap := (hb_heap h1)(c := (hb_heap h1 c)\<lparr>cl_Closed := True\<rparr>)\<rparr>))))"

definition sendMessage :: "Message \<Rightarrow> client_id \<Rightarrow> Hub \<Rightarrow> Hub option" where
  "sendMessage message c h =
     (let client = hb_heap h c in
      if cl_Closed client then None
      else if length (cl_Send client) < cl_Cap client
      then Some (h\<lparr>hb_heap := (hb_heap h)(c := client\<lparr>cl_Send := cl_Send client @ [message]\<rparr>)\<rparr>)
      else removeClient c h)"

definition shard_clients :: "Hub \<Rightarrow> string \<Rightarrow> string \<Rightarrow> client_id list" where
  "shard_clients h env ns =
     (case gm_get (hb_shards h) env of
        None \<Rightarrow> []
      | Some es \<Rightarrow> (case gm_get es ns of None \<Rightarrow> [] | Some cs \<Rightarrow> cs))"

text \<open>
  The events of \<open>Run\<close>, with the order in which its loops range over their maps; and one that
  is not the hub's: a stream handler receives from its channel.
\<close>

type_synonym order = "client_id list \<Rightarrow> client_id list"

definition hub_register :: "client_id \<Rightarrow> Hub \<Rightarrow> Hub" where
  "hub_register c h =
     observe IncOnline (addToShards c (h\<lparr>hb_clients := List.insert c (hb_clients h)\<rparr>))"

definition hub_unregister :: "client_id \<Rightarrow> Hub \<Rightarrow> Hub option" where
  "hub_unregister c h = (if c \<in> set (hb_clients h) then removeClient c h else Some h)"

definition send_to_audience :: "order \<Rightarrow> Message \<Rightarrow> Hub \<Rightarrow> Hub option" where
  "send_to_audience ord message h =
     (case fold_opt (sendMessage message) (ord (hb_wildcards h)) h of
        None \<Rightarrow> None
      | Some h1 \<Rightarrow>
          fold_opt (sendMessage message) (ord (shard_clients h1 (msg_Env message) (msg_Namespace message))) h1)"

definition hub_broadcast :: "order \<Rightarrow> Message \<Rightarrow> Hub \<Rightarrow> Hub option" where
  "hub_broadcast ord message h =
     map_option (\<lambda>h1. observe RecordPush (observe ObservePushLatency h1)) (send_to_audience ord message h)"

text \<open>\<open>len(h.Broadcast)\<close>: the channel has no buffer, and the length of such a channel is 0.\<close>

definition broadcast_len :: int where "broadcast_len = 0"

definition ping :: Message where "ping = zero_message\<lparr>msg_Type := ''ping''\<rparr>"

definition hub_heartbeat :: "order \<Rightarrow> Hub \<Rightarrow> Hub option" where
  "hub_heartbeat ord h =
     fold_opt (sendMessage ping) (ord (hb_clients h)) (observe (UpdateEventLag broadcast_len) h)"

definition hub_receive :: "client_id \<Rightarrow> Hub \<Rightarrow> Hub" where
  "hub_receive c h =
     h\<lparr>hb_heap := (hb_heap h)(c := (hb_heap h c)\<lparr>cl_Send := tl (cl_Send (hb_heap h c))\<rparr>)\<rparr>"

datatype hub_event =
    Register client_id
  | Unregister client_id
  | Broadcast order Message
  | Heartbeat order
  | Receive client_id

fun hub_step :: "hub_event \<Rightarrow> Hub \<Rightarrow> Hub option" where
  "hub_step (Register c) h = Some (hub_register c h)"
| "hub_step (Unregister c) h = hub_unregister c h"
| "hub_step (Broadcast ord m) h = hub_broadcast ord m h"
| "hub_step (Heartbeat ord) h = hub_heartbeat ord h"
| "hub_step (Receive c) h = Some (hub_receive c h)"

section \<open>Shards\<close>

definition es_set :: "env_shards \<Rightarrow> string \<Rightarrow> client_id set" where
  "es_set es n = (case gm_get es n of None \<Rightarrow> {} | Some cs \<Rightarrow> set cs)"

definition es_ok :: "env_shards \<Rightarrow> bool" where
  "es_ok es \<longleftrightarrow> gm_wf es \<and> (\<forall>n cs. gm_get es n = Some cs \<longrightarrow> cs \<noteq> [] \<and> distinct cs)"

lemma es_set_add [simp]: "es_set (shard_add c ns es) n = es_set es n \<union> (if n = ns then {c} else {})"
  by (auto simp: es_set_def shard_add_def split: option.splits)

lemma es_ok_add: "es_ok es \<Longrightarrow> es_ok (shard_add c ns es)"
  by (auto simp: es_ok_def shard_add_def List.insert_def split: option.splits)

lemma es_set_del [simp]: "es_set (shard_del c ns es) n = es_set es n - (if n = ns then {c} else {})"
  by (auto simp: es_set_def shard_del_def Let_def filter_empty_conv removeAll_filter_not_eq split: option.splits)

lemma es_ok_del: "es_ok es \<Longrightarrow> es_ok (shard_del c ns es)"
  by (auto simp: es_ok_def shard_del_def Let_def distinct_removeAll split: option.splits if_splits)

lemma es_set_add_all: "es_set (fold (shard_add c) nss es) n = es_set es n \<union> (if n \<in> set nss then {c} else {})"
  by (induction nss arbitrary: es) auto

lemma es_set_del_all: "es_set (fold (shard_del c) nss es) n = es_set es n - (if n \<in> set nss then {c} else {})"
  by (induction nss arbitrary: es) auto

lemma es_ok_add_all: "es_ok es \<Longrightarrow> es_ok (fold (shard_add c) nss es)"
  by (induction nss arbitrary: es) (auto simp: es_ok_add)

lemma es_ok_del_all: "es_ok es \<Longrightarrow> es_ok (fold (shard_del c) nss es)"
  by (induction nss arbitrary: es) (auto simp: es_ok_del)

section \<open>The invariant\<close>

definition in_shard :: "Client \<Rightarrow> string \<Rightarrow> string \<Rightarrow> bool" where
  "in_shard cl e n \<longleftrightarrow> \<not> is_wildcard cl \<and> cl_Env cl = e \<and> n \<in> set (gm_keys (cl_Namespaces cl))"

definition index_inv :: "(client_id \<Rightarrow> Client) \<Rightarrow> client_id list \<Rightarrow> Hub \<Rightarrow> bool" where
  "index_inv heap cs h \<longleftrightarrow>
     distinct (hb_wildcards h) \<and> gm_wf (hb_shards h) \<and>
     (\<forall>e es. gm_get (hb_shards h) e = Some es \<longrightarrow>
        es_ok es \<and> (\<exists>c \<in> set cs. \<not> is_wildcard (heap c) \<and> cl_Env (heap c) = e)) \<and>
     (\<forall>c. c \<in> set (hb_wildcards h) \<longleftrightarrow> c \<in> set cs \<and> is_wildcard (heap c)) \<and>
     (\<forall>e n c. c \<in> set (shard_clients h e n) \<longleftrightarrow> c \<in> set cs \<and> in_shard (heap c) e n)"

definition hub_inv :: "Hub \<Rightarrow> bool" where
  "hub_inv h \<longleftrightarrow>
     index_inv (hb_heap h) (hb_clients h) h \<and> distinct (hb_clients h) \<and>
     (\<forall>c \<in> set (hb_clients h). \<not> cl_Closed (hb_heap h c)) \<and>
     hb_online h = int (length (hb_clients h))"

lemma set_shard_clients: "set (shard_clients h e n) =
    (case gm_get (hb_shards h) e of None \<Rightarrow> {} | Some es \<Rightarrow> es_set es n)"
  by (auto simp: shard_clients_def es_set_def split: option.splits)

lemma es_set_Nil [simp]: "es_set [] n = {}"
  by (simp add: es_set_def)

lemma distinct_shard_clients: "index_inv heap cs h \<Longrightarrow> distinct (shard_clients h e n)"
  by (auto simp: index_inv_def shard_clients_def es_ok_def split: option.splits)

lemma shard_clients_cong [simp]:
  "shard_clients (h\<lparr>hb_clients := x\<rparr>) = shard_clients h"
  "shard_clients (h\<lparr>hb_calls := y\<rparr>) = shard_clients h"
  "shard_clients (h\<lparr>hb_heap := z\<rparr>) = shard_clients h"
  by (simp_all add: shard_clients_def fun_eq_iff)

lemma index_inv_cong [simp]:
  "index_inv heap cs (h\<lparr>hb_clients := x\<rparr>) = index_inv heap cs h"
  "index_inv heap cs (h\<lparr>hb_calls := y\<rparr>) = index_inv heap cs h"
  "index_inv heap cs (h\<lparr>hb_heap := z\<rparr>) = index_inv heap cs h"
  by (simp_all add: index_inv_def)

lemma observe_frame [simp]:
  "hb_clients (observe call h) = hb_clients h" "hb_heap (observe call h) = hb_heap h"
  "hb_shards (observe call h) = hb_shards h" "hb_wildcards (observe call h) = hb_wildcards h"
  "hb_calls (observe call h) = hb_calls h @ [call]"
  by (simp_all add: observe_def)

lemma index_inv_observe [simp]: "index_inv heap cs (observe call h) = index_inv heap cs h"
  by (simp add: observe_def)

lemma hb_online_simps [simp]:
  "hb_online (observe IncOnline h) = hb_online h + 1" "hb_online (observe DecOnline h) = hb_online h - 1"
  "hb_online (observe RecordPush h) = hb_online h" "hb_online (observe ObservePushLatency h) = hb_online h"
  "hb_online (observe (UpdateEventLag n) h) = hb_online h"
  "hb_online (h\<lparr>hb_clients := x\<rparr>) = hb_online h" "hb_online (h\<lparr>hb_heap := y\<rparr>) = hb_online h"
  "hb_online (h\<lparr>hb_shards := z\<rparr>) = hb_online h" "hb_online (h\<lparr>hb_wildcards := w\<rparr>) = hb_online h"
  by (simp_all add: hb_online_def)

lemma hub_inv_observe [simp]: "hb_online (observe call h) = hb_online h \<Longrightarrow> hub_inv (observe call h) = hub_inv h"
  by (simp add: hub_inv_def)

text \<open>What the index says of a client depends on its namespaces and its environment only.\<close>

lemma index_inv_heap:
  assumes "index_inv heap cs h"
    and "\<And>c. cl_Namespaces (heap' c) = cl_Namespaces (heap c) \<and> cl_Env (heap' c) = cl_Env (heap c)"
  shows "index_inv heap' cs h"
  using assms by (simp add: index_inv_def in_shard_def is_wildcard_def)

lemma shard_clients_addToShards:
  "set (shard_clients (addToShards c h) e n) =
     set (shard_clients h e n) \<union> (if in_shard (hb_heap h c) e n then {c} else {})"
  by (auto simp: set_shard_clients addToShards_def Let_def in_shard_def es_set_add_all
      split: option.splits)

lemma index_inv_addToShards:
  assumes "index_inv (hb_heap h) cs h" "c \<notin> set cs"
  shows "index_inv (hb_heap h) (c # cs) (addToShards c h)"
proof -
  have sh: "\<forall>e n x. x \<in> set (shard_clients (addToShards c h) e n) \<longleftrightarrow>
      x \<in> set (c # cs) \<and> in_shard (hb_heap h x) e n"
    using assms by (auto simp: shard_clients_addToShards index_inv_def)
  have wc: "distinct (hb_wildcards (addToShards c h)) \<and>
      (\<forall>x. x \<in> set (hb_wildcards (addToShards c h)) \<longleftrightarrow> x \<in> set (c # cs) \<and> is_wildcard (hb_heap h x))"
    using assms by (auto simp: addToShards_def Let_def index_inv_def)
  have "gm_wf (hb_shards (addToShards c h)) \<and>
    (\<forall>e es. gm_get (hb_shards (addToShards c h)) e = Some es \<longrightarrow>
        es_ok es \<and> (\<exists>x \<in> set (c # cs). \<not> is_wildcard (hb_heap h x) \<and> cl_Env (hb_heap h x) = e))"
    using assms(1)
    by (auto simp: addToShards_def Let_def index_inv_def es_ok_add_all es_ok_def [of "[]"]
        split: option.splits if_splits)
  with sh wc show ?thesis by (simp add: index_inv_def)
qed

lemma shard_clients_removeFromShards:
  assumes "index_inv (hb_heap h) cs h" "c \<in> set cs"
  shows "set (shard_clients (removeFromShards c h) e n) = set (shard_clients h e n) - {c}"
proof -
  have w: "c \<in> set (hb_wildcards h) \<longleftrightarrow> is_wildcard (hb_heap h c)"
    and s: "c \<in> set (shard_clients h e n) \<longleftrightarrow> in_shard (hb_heap h c) e n"
    using assms by (auto simp: index_inv_def)
  show ?thesis
  proof (cases "is_wildcard (hb_heap h c) \<or> gm_get (hb_shards h) (cl_Env (hb_heap h c)) = None")
    case True
    with s show ?thesis
      by (auto simp: removeFromShards_def Let_def w set_shard_clients in_shard_def split: option.splits)
  next
    case False
    then obtain es where es: "gm_get (hb_shards h) (cl_Env (hb_heap h c)) = Some es" by blast
    let ?es' = "fold (shard_del c) (gm_keys (cl_Namespaces (hb_heap h c))) es"
    have "set (shard_clients (removeFromShards c h) e n) =
        (if e = cl_Env (hb_heap h c) then es_set ?es' n else set (shard_clients h e n))"
      using False es by (simp add: removeFromShards_def Let_def w set_shard_clients)
    with False s es show ?thesis
      by (auto simp: es_set_del_all set_shard_clients in_shard_def)
  qed
qed

lemma hub_inv_new [inv_intros]: "hub_inv (NewHub heap)"
  by (simp add: hub_inv_def index_inv_def NewHub_def shard_clients_def hb_online_def)

lemma index_inv_removeFromShards:
  assumes "index_inv (hb_heap h) cs h" "c \<in> set cs"
  shows "index_inv (hb_heap h) (removeAll c cs) (removeFromShards c h)"
proof -
  let ?h' = "removeFromShards c h" let ?cl = "hb_heap h c"
  let ?es' = "\<lambda>es. fold (shard_del c) (gm_keys (cl_Namespaces ?cl)) es"
  have w: "c \<in> set (hb_wildcards h) \<longleftrightarrow> is_wildcard ?cl"
    using assms by (auto simp: index_inv_def)
  have sh: "x \<in> set (shard_clients ?h' e n) \<longleftrightarrow> x \<in> set (removeAll c cs) \<and> in_shard (hb_heap h x) e n" for x e n
    using assms(1) unfolding shard_clients_removeFromShards [OF assms] by (auto simp: index_inv_def)
  have wc: "distinct (hb_wildcards ?h') \<and>
      (\<forall>x. x \<in> set (hb_wildcards ?h') \<longleftrightarrow> x \<in> set (removeAll c cs) \<and> is_wildcard (hb_heap h x))"
    using assms w by (auto simp: removeFromShards_def Let_def index_inv_def distinct_removeAll split: option.splits)
  have wf: "gm_wf (hb_shards ?h')"
    using assms(1) by (auto simp: removeFromShards_def Let_def index_inv_def split: option.splits)
  have "es_ok es \<and> (\<exists>x \<in> set (removeAll c cs). \<not> is_wildcard (hb_heap h x) \<and> cl_Env (hb_heap h x) = e)"
    if es: "gm_get (hb_shards ?h') e = Some es" for e es
  proof (cases "is_wildcard ?cl \<or> e \<noteq> cl_Env ?cl")
    case True
    then have "gm_get (hb_shards h) e = Some es"
      using es w by (auto simp: removeFromShards_def Let_def split: option.splits if_splits)
    with assms(1) obtain x where "es_ok es" "x \<in> set cs" "\<not> is_wildcard (hb_heap h x)" "cl_Env (hb_heap h x) = e"
      unfolding index_inv_def by blast
    with True show ?thesis by auto
  next
    case False
    with es w obtain es0 where "gm_get (hb_shards h) e = Some es0" "es = ?es' es0" "es \<noteq> []"
      by (auto simp: removeFromShards_def Let_def split: option.splits if_splits)
    with assms(1) have ok: "es_ok es" by (auto simp: index_inv_def es_ok_del_all)
    from \<open>es \<noteq> []\<close> have "gm_get es (fst (hd es)) = Some (snd (hd es))" by (cases es) auto
    then obtain n ds where "gm_get es n = Some ds" by blast
    with ok obtain x where "x \<in> es_set es n" by (cases ds) (auto simp: es_ok_def es_set_def)
    with es have "x \<in> set (shard_clients ?h' e n)" by (simp add: set_shard_clients)
    with sh ok show ?thesis by (auto simp: in_shard_def)
  qed
  with sh wc wf show ?thesis by (simp add: index_inv_def)
qed

lemma removeFromShards_frame [simp]:
  "hb_clients (removeFromShards c h) = hb_clients h" "hb_heap (removeFromShards c h) = hb_heap h"
  "hb_online (removeFromShards c h) = hb_online h" "hb_calls (removeFromShards c h) = hb_calls h"
  by (auto simp: removeFromShards_def Let_def split: option.splits)

lemma addToShards_frame [simp]:
  "hb_clients (addToShards c h) = hb_clients h" "hb_heap (addToShards c h) = hb_heap h"
  "hb_online (addToShards c h) = hb_online h" "hb_calls (addToShards c h) = hb_calls h"
  by (auto simp: addToShards_def Let_def split: option.splits)

lemma length_removeAll_distinct: "distinct xs \<Longrightarrow> x \<in> set xs \<Longrightarrow> Suc (length (removeAll x xs)) = length xs"
  by (induction xs) auto

lemma removeFromShards_clients_update:
  "removeFromShards c (h\<lparr>hb_clients := x\<rparr>) = (removeFromShards c h)\<lparr>hb_clients := x\<rparr>"
  by (simp add: removeFromShards_def Let_def split: option.split)

lemma addToShards_clients_update:
  "addToShards c (h\<lparr>hb_clients := x\<rparr>) = (addToShards c h)\<lparr>hb_clients := x\<rparr>"
  by (simp add: addToShards_def Let_def)

lemma removeClient_member:
  assumes "hub_inv h" "c \<in> set (hb_clients h)"
  shows "\<exists>h'. removeClient c h = Some h' \<and> hub_inv h' \<and> hb_clients h' = removeAll c (hb_clients h) \<and>
    hb_heap h' = (hb_heap h)(c := (hb_heap h c)\<lparr>cl_Closed := True\<rparr>)"
proof -
  let ?cs = "removeAll c (hb_clients h)" and ?heap = "(hb_heap h)(c := (hb_heap h c)\<lparr>cl_Closed := True\<rparr>)"
  let ?h' = "observe DecOnline (removeFromShards c h\<lparr>hb_clients := ?cs, hb_heap := ?heap\<rparr>)"
  have run: "removeClient c h = Some ?h'"
    using assms by (simp add: removeClient_def hub_inv_def Let_def removeFromShards_clients_update)
  have "index_inv (hb_heap h) ?cs (removeFromShards c h)"
    using assms by (intro index_inv_removeFromShards) (simp_all add: hub_inv_def)
  then have "index_inv ?heap ?cs (removeFromShards c h)" by (rule index_inv_heap) simp
  then have "hub_inv ?h'"
    using assms length_removeAll_distinct [of "hb_clients h" c]
    by (auto simp: hub_inv_def distinct_removeAll)
  with run show ?thesis by auto
qed

text \<open>A message offered to a set of clients: those with room have it, the others are dropped.\<close>

definition room :: "Hub \<Rightarrow> client_id \<Rightarrow> bool" where
  "room h c \<longleftrightarrow> length (cl_Send (hb_heap h c)) < cl_Cap (hb_heap h c)"

definition offered :: "Message \<Rightarrow> client_id set \<Rightarrow> Hub \<Rightarrow> Hub \<Rightarrow> bool" where
  "offered m cs h h' \<longleftrightarrow> hub_inv h' \<and>
     set (hb_clients h') = set (hb_clients h) - {c \<in> cs. \<not> room h c} \<and>
     hb_heap h' = (\<lambda>c. if c \<notin> cs then hb_heap h c
                       else if room h c then (hb_heap h c)\<lparr>cl_Send := cl_Send (hb_heap h c) @ [m]\<rparr>
                       else (hb_heap h c)\<lparr>cl_Closed := True\<rparr>)"

lemma offered_none: "hub_inv h \<Longrightarrow> offered m {} h h"
  by (simp add: offered_def)

lemma offered_trans:
  assumes "offered m A h h1" "offered m B h1 h2" "A \<inter> B = {}"
  shows "offered m (A \<union> B) h h2"
proof -
  have same: "hb_heap h1 c = hb_heap h c" "room h1 c = room h c" if "c \<in> B" for c
    using that assms(1,3) by (auto simp: offered_def room_def)
  then have "hb_heap h2 c = (if c \<notin> A \<union> B then hb_heap h c
      else if room h c then (hb_heap h c)\<lparr>cl_Send := cl_Send (hb_heap h c) @ [m]\<rparr>
      else (hb_heap h c)\<lparr>cl_Closed := True\<rparr>)" for c
    using assms by (auto simp: offered_def)
  moreover have "set (hb_clients h2) = set (hb_clients h) - {c \<in> A \<union> B. \<not> room h c}"
    using assms(1,2) same(2) unfolding offered_def by blast
  ultimately show ?thesis using assms(2) unfolding offered_def by blast
qed

lemma sendMessage_offered:
  assumes "hub_inv h" "c \<in> set (hb_clients h)"
  shows "\<exists>h'. sendMessage m c h = Some h' \<and> offered m {c} h h'"
proof (cases "room h c")
  case True
  let ?heap = "(hb_heap h)(c := (hb_heap h c)\<lparr>cl_Send := cl_Send (hb_heap h c) @ [m]\<rparr>)"
  have "index_inv (hb_heap h) (hb_clients h) h" using assms by (simp add: hub_inv_def)
  then have "index_inv ?heap (hb_clients h) h" by (rule index_inv_heap) simp
  then have "hub_inv (h\<lparr>hb_heap := ?heap\<rparr>)" using assms by (simp add: hub_inv_def)
  moreover have "sendMessage m c h = Some (h\<lparr>hb_heap := ?heap\<rparr>)"
    using assms True by (simp add: sendMessage_def hub_inv_def room_def Let_def)
  ultimately show ?thesis using True by (auto simp: offered_def fun_eq_iff)
next
  case False
  then have "sendMessage m c h = removeClient c h"
    using assms by (simp add: sendMessage_def hub_inv_def room_def)
  with removeClient_member [OF assms] False show ?thesis by (auto simp: offered_def fun_eq_iff)
qed

lemma send_all_offered:
  "hub_inv h \<Longrightarrow> distinct cs \<Longrightarrow> set cs \<subseteq> set (hb_clients h) \<Longrightarrow>
     \<exists>h'. fold_opt (sendMessage m) cs h = Some h' \<and> offered m (set cs) h h'"
proof (induction cs arbitrary: h)
  case (Cons c cs)
  then obtain h1 where h1: "sendMessage m c h = Some h1" "offered m {c} h h1"
    using sendMessage_offered [of h c m] by auto
  with Cons.prems have "hub_inv h1" "set cs \<subseteq> set (hb_clients h1)" by (auto simp: offered_def)
  with Cons.IH [of h1] Cons.prems(2) obtain h' where
    h': "fold_opt (sendMessage m) cs h1 = Some h'" "offered m (set cs) h1 h'" by auto
  from offered_trans [OF h1(2) h'(2)] Cons.prems(2) h1(1) h'(1) show ?case by auto
qed (simp add: offered_none)

text \<open>Whom a message is for.\<close>

definition wants :: "Client \<Rightarrow> Message \<Rightarrow> bool" where
  "wants cl m \<longleftrightarrow> is_wildcard cl \<or> in_shard cl (msg_Env m) (msg_Namespace m)"

definition audience :: "Hub \<Rightarrow> Message \<Rightarrow> client_id set" where
  "audience h m = {c \<in> set (hb_clients h). wants (hb_heap h c) m}"

lemma send_to_audience_offered:
  assumes "hub_inv h" "iteration_order ord"
  shows "\<exists>h'. send_to_audience ord m h = Some h' \<and> offered m (audience h m) h h'"
proof -
  let ?ws = "ord (hb_wildcards h)"
  have ix: "index_inv (hb_heap h) (hb_clients h) h" using assms(1) by (simp add: hub_inv_def)
  then have "distinct ?ws" "set ?ws \<subseteq> set (hb_clients h)"
    using iteration_order_distinct [OF assms(2)] iteration_order_set [OF assms(2)]
    by (auto simp: index_inv_def)
  then obtain h1 where h1: "fold_opt (sendMessage m) ?ws h = Some h1" "offered m (set ?ws) h h1"
    using send_all_offered [OF assms(1)] by blast
  let ?ss = "ord (shard_clients h1 (msg_Env m) (msg_Namespace m))"
  have inv1: "hub_inv h1" using h1(2) by (simp add: offered_def)
  then have ix1: "index_inv (hb_heap h1) (hb_clients h1) h1" by (simp add: hub_inv_def)
  have same: "in_shard (hb_heap h1 c) e n = in_shard (hb_heap h c) e n" for c e n
    using h1(2) by (simp add: offered_def in_shard_def is_wildcard_def)
  have ws: "set ?ws = {c \<in> set (hb_clients h). is_wildcard (hb_heap h c)}"
    using ix iteration_order_set [OF assms(2)] by (auto simp: index_inv_def)
  have ss: "set ?ss = {c \<in> set (hb_clients h1). in_shard (hb_heap h c) (msg_Env m) (msg_Namespace m)}"
    using ix1 same iteration_order_set [OF assms(2)] by (auto simp: index_inv_def)
  have "distinct ?ss" "set ?ss \<subseteq> set (hb_clients h1)"
    using iteration_order_distinct [OF assms(2)] distinct_shard_clients [OF ix1] ss by auto
  then obtain h2 where h2: "fold_opt (sendMessage m) ?ss h1 = Some h2" "offered m (set ?ss) h1 h2"
    using send_all_offered [OF inv1] by blast
  have "set ?ws \<inter> set ?ss = {}" unfolding ws ss by (auto simp: in_shard_def)
  then have "offered m (set ?ws \<union> set ?ss) h h2" by (rule offered_trans [OF h1(2) h2(2)])
  moreover have "set ?ws \<union> set ?ss = audience h m"
    using h1(2) unfolding ws ss audience_def wants_def offered_def by (auto simp: in_shard_def ws)
  ultimately show ?thesis using h1(1) h2(1) by (simp add: send_to_audience_def)
qed

lemma room_observe [simp]: "room (observe call h) = room h"
  by (simp add: room_def fun_eq_iff)

lemma offered_observe:
  "hb_online (observe call h') = hb_online h' \<Longrightarrow> offered m cs h (observe call h') = offered m cs h h'"
  "offered m cs (observe call h) h' = offered m cs h h'"
  unfolding offered_def observe_frame room_observe by simp_all

lemma hub_broadcast_offered:
  assumes "hub_inv h" "iteration_order ord"
  shows "\<exists>h'. hub_broadcast ord m h = Some h' \<and> offered m (audience h m) h h'"
  using send_to_audience_offered [OF assms, of m] by (auto simp: hub_broadcast_def offered_observe)

lemma hub_heartbeat_offered:
  assumes "hub_inv h" "iteration_order ord"
  shows "\<exists>h'. hub_heartbeat ord h = Some h' \<and> offered ping (set (hb_clients h)) h h'"
  using send_all_offered [of "observe (UpdateEventLag broadcast_len) h" "ord (hb_clients h)" ping] assms
    iteration_order_distinct [OF assms(2)] iteration_order_set [OF assms(2)]
  by (simp add: hub_heartbeat_def hub_inv_def offered_observe)

text \<open>Registering and receiving.\<close>

lemma hub_register_inv:
  assumes "hub_inv h" "c \<notin> set (hb_clients h)" "\<not> cl_Closed (hb_heap h c)"
  shows "hub_inv (hub_register c h)"
proof -
  have "index_inv (hb_heap h) (c # hb_clients h) (addToShards c h)"
    using assms by (intro index_inv_addToShards) (simp_all add: hub_inv_def)
  then show ?thesis
    using assms by (auto simp: hub_register_def hub_inv_def Let_def addToShards_clients_update)
qed

lemma hub_receive_inv: "hub_inv h \<Longrightarrow> hub_inv (hub_receive c h)"
proof -
  assume inv: "hub_inv h"
  let ?heap = "(hb_heap h)(c := (hb_heap h c)\<lparr>cl_Send := tl (cl_Send (hb_heap h c))\<rparr>)"
  from inv have "index_inv (hb_heap h) (hb_clients h) h" by (simp add: hub_inv_def)
  then have "index_inv ?heap (hb_clients h) h" by (rule index_inv_heap) simp
  with inv show ?thesis by (simp add: hub_receive_def hub_inv_def)
qed

text \<open>
  The runs: every event's order is an iteration order, and a client registers when it is new
  (each handler makes its own and registers it once).
\<close>

fun event_ok :: "hub_event \<Rightarrow> Hub \<Rightarrow> bool" where
  "event_ok (Register c) h \<longleftrightarrow> c \<notin> set (hb_clients h) \<and> \<not> cl_Closed (hb_heap h c)"
| "event_ok (Broadcast ord m) h \<longleftrightarrow> iteration_order ord"
| "event_ok (Heartbeat ord) h \<longleftrightarrow> iteration_order ord"
| "event_ok _ h \<longleftrightarrow> True"

inductive hub_reachable :: "(client_id \<Rightarrow> Client) \<Rightarrow> Hub \<Rightarrow> bool" for heap where
  start: "hub_reachable heap (NewHub heap)"
| step: "hub_reachable heap h \<Longrightarrow> event_ok ev h \<Longrightarrow> hub_step ev h = Some h' \<Longrightarrow> hub_reachable heap h'"

inductive_cases hub_reachableE: "hub_reachable heap h"

lemma hub_step_safe: "hub_inv h \<Longrightarrow> event_ok ev h \<Longrightarrow> \<exists>h'. hub_step ev h = Some h' \<and> hub_inv h'"
proof (cases ev)
  case (Unregister c)
  assume "hub_inv h"
  with Unregister removeClient_member [of h c] show ?thesis by (auto simp: hub_unregister_def)
next
  case (Broadcast ord m)
  assume "hub_inv h" "event_ok ev h"
  with Broadcast hub_broadcast_offered [of h ord m] show ?thesis by (auto simp: offered_def)
next
  case (Heartbeat ord)
  assume "hub_inv h" "event_ok ev h"
  with Heartbeat hub_heartbeat_offered [of h ord] show ?thesis by (auto simp: offered_def)
qed (simp_all add: hub_register_inv hub_receive_inv)

lemma hub_reachable_inv: "hub_reachable heap h \<Longrightarrow> hub_inv h"
proof (induction rule: hub_reachable.induct)
  case (step h ev h')
  with hub_step_safe [of h ev] show ?case by auto
qed (rule hub_inv_new)

section \<open>Delivery along a run\<close>

text \<open>
  A run of events, with what one observer gets out of each of them; and the runs all of whose
  events are allowed where they happen.
\<close>

fun run_log :: "('e \<Rightarrow> 's \<Rightarrow> 's option) \<Rightarrow> ('e \<Rightarrow> 's \<Rightarrow> 'm list) \<Rightarrow> 'e list \<Rightarrow> 's \<Rightarrow> ('m list \<times> 's) option" where
  "run_log step got [] s = Some ([], s)"
| "run_log step got (e # es) s =
     (case step e s of
        None \<Rightarrow> None
      | Some s1 \<Rightarrow> map_option (\<lambda>(ms, s2). (got e s @ ms, s2)) (run_log step got es s1))"

fun run_ok :: "('e \<Rightarrow> 's \<Rightarrow> 's option) \<Rightarrow> ('e \<Rightarrow> 's \<Rightarrow> bool) \<Rightarrow> 'e list \<Rightarrow> 's \<Rightarrow> bool" where
  "run_ok step good [] s \<longleftrightarrow> True"
| "run_ok step good (e # es) s \<longleftrightarrow> good e s \<and> (case step e s of None \<Rightarrow> True | Some s1 \<Rightarrow> run_ok step good es s1)"

text \<open>
  What a stream handler relies on. Every step either drops a connected client for good or
  keeps the balance of its mailbox: what it got and what waits afterwards is what waited
  before and what was due to it.
\<close>

locale mailboxes =
  fixes step :: "'e \<Rightarrow> 's \<Rightarrow> 's option"
    and good :: "'e \<Rightarrow> 's \<Rightarrow> bool"
    and ok :: "'s \<Rightarrow> bool"
    and connected :: "'s \<Rightarrow> 'c set"
    and gone :: "'c \<Rightarrow> 's \<Rightarrow> bool"
    and waiting :: "'s \<Rightarrow> 'c \<Rightarrow> 'm list"
    and got :: "'c \<Rightarrow> 'e \<Rightarrow> 's \<Rightarrow> 'm list"
    and due :: "'s \<Rightarrow> 'c \<Rightarrow> 'e \<Rightarrow> 'm list"
  assumes step_ok: "ok s \<Longrightarrow> good e s \<Longrightarrow> \<exists>s'. step e s = Some s' \<and> ok s'"
    and gone_not_connected: "gone c s \<Longrightarrow> c \<notin> connected s"
    and gone_step: "ok s \<Longrightarrow> good e s \<Longrightarrow> step e s = Some s' \<Longrightarrow> gone c s \<Longrightarrow> gone c s'"
    and step_balance: "ok s \<Longrightarrow> good e s \<Longrightarrow> step e s = Some s' \<Longrightarrow> c \<in> connected s \<Longrightarrow>
      gone c s' \<or> c \<in> connected s' \<and> due s' c = due s c \<and> got c e s @ waiting s' c = waiting s c @ due s c e"
begin

lemma run_total: "ok s \<Longrightarrow> run_ok step good es s \<Longrightarrow> \<exists>ms s'. run_log step (got c) es s = Some (ms, s') \<and> ok s'"
proof (induction es arbitrary: s)
  case (Cons e es)
  then obtain s1 where "step e s = Some s1" "ok s1" using step_ok [of s e] by auto
  with Cons.IH [of s1] Cons.prems(2) show ?case by fastforce
qed simp

lemma run_gone: "ok s \<Longrightarrow> run_ok step good es s \<Longrightarrow> gone c s \<Longrightarrow> run_log step (got d) es s = Some (ms, s') \<Longrightarrow> gone c s'"
proof (induction es arbitrary: s ms)
  case (Cons e es)
  then obtain s1 where s1: "step e s = Some s1" "ok s1" using step_ok [of s e] by auto
  with Cons.prems obtain ms1 where "run_log step (got d) es s1 = Some (ms1, s')" by auto
  with Cons.IH [of s1] Cons.prems gone_step [OF Cons.prems(1) _ s1(1)] s1 show ?case by auto
qed simp

lemma run_balance:
  "ok s \<Longrightarrow> run_ok step good es s \<Longrightarrow> c \<in> connected s \<Longrightarrow> run_log step (got c) es s = Some (ms, s') \<Longrightarrow>
   c \<in> connected s' \<Longrightarrow> ms @ waiting s' c = waiting s c @ concat (map (due s c) es)"
proof (induction es arbitrary: s ms)
  case (Cons e es)
  then obtain s1 where s1: "step e s = Some s1" "ok s1" using step_ok [of s e] by auto
  with Cons.prems obtain ms1 where r: "run_log step (got c) es s1 = Some (ms1, s')" "ms = got c e s @ ms1" by auto
  have good: "good e s" "run_ok step good es s1" using Cons.prems(2) s1 by auto
  have "\<not> gone c s1" using run_gone [OF s1(2) good(2) _ r(1)] gone_not_connected Cons.prems(5) by blast
  with step_balance [OF Cons.prems(1) good(1) s1(1) Cons.prems(3)]
  have c: "c \<in> connected s1" "due s1 c = due s c" "got c e s @ waiting s1 c = waiting s c @ due s c e" by blast+
  from Cons.IH [OF s1(2) good(2) c(1) r(1) Cons.prems(5)] r(2)
  have "ms @ waiting s' c = (got c e s @ waiting s1 c) @ concat (map (due s1 c) es)" by simp
  with c(2,3) show ?case by simp
qed simp

end

text \<open>What the handler of a client receives, and what the hub owes a client.\<close>

definition received :: "client_id \<Rightarrow> hub_event \<Rightarrow> Hub \<Rightarrow> Message list" where
  "received c ev h =
     (case ev of Receive d \<Rightarrow> if d = c then take 1 (cl_Send (hb_heap h c)) else [] | _ \<Rightarrow> [])"

definition posted :: "Client \<Rightarrow> hub_event \<Rightarrow> Message list" where
  "posted cl ev =
     (case ev of Broadcast ord m \<Rightarrow> if wants cl m then [m] else [] | Heartbeat ord \<Rightarrow> [ping] | _ \<Rightarrow> [])"

text \<open>A client that was dropped does not come back.\<close>

definition gone :: "client_id \<Rightarrow> Hub \<Rightarrow> bool" where
  "gone c h \<longleftrightarrow> c \<notin> set (hb_clients h) \<and> cl_Closed (hb_heap h c)"

lemma offered_gone: "offered m cs h h' \<Longrightarrow> gone c h \<Longrightarrow> gone c h'"
  by (auto simp: offered_def gone_def)

lemma wants_posted: "wants cl = wants cl' \<Longrightarrow> posted cl = posted cl'"
  by (simp add: posted_def fun_eq_iff split: hub_event.split)

lemma offered_connected:
  assumes "offered m cs h h'" "c \<in> set (hb_clients h)" "hub_inv h"
  shows "gone c h' \<or> c \<in> set (hb_clients h') \<and> wants (hb_heap h' c) = wants (hb_heap h c) \<and>
    cl_Send (hb_heap h' c) = cl_Send (hb_heap h c) @ (if c \<in> cs then [m] else [])"
  using assms by (auto simp: offered_def gone_def fun_eq_iff wants_def is_wildcard_def in_shard_def)

lemma hub_step_connected:
  assumes "hub_inv h" "event_ok ev h" "hub_step ev h = Some h'"
  shows "(gone c h \<longrightarrow> gone c h') \<and> (c \<in> set (hb_clients h) \<longrightarrow> gone c h' \<or> c \<in> set (hb_clients h') \<and>
      wants (hb_heap h' c) = wants (hb_heap h c) \<and>
      received c ev h @ cl_Send (hb_heap h' c) = cl_Send (hb_heap h c) @ posted (hb_heap h c) ev)"
proof (cases ev)
  case (Register d)
  then show ?thesis using assms by (auto simp: gone_def hub_register_def Let_def received_def posted_def)
next
  case (Unregister d)
  show ?thesis
  proof (cases "d \<in> set (hb_clients h)")
    case True
    with removeClient_member [OF assms(1) True] assms(3) Unregister
    have "hb_clients h' = removeAll d (hb_clients h)" "hb_heap h' = (hb_heap h)(d := (hb_heap h d)\<lparr>cl_Closed := True\<rparr>)"
      by (auto simp: hub_unregister_def)
    with Unregister show ?thesis by (auto simp: gone_def received_def posted_def)
  qed (use assms Unregister in \<open>auto simp: hub_unregister_def received_def posted_def\<close>)
next
  case (Broadcast ord m)
  with hub_broadcast_offered [OF assms(1), of ord m] assms(2,3) have o: "offered m (audience h m) h h'" by auto
  from offered_gone [OF o, of c] offered_connected [OF o _ assms(1), of c] Broadcast show ?thesis
    by (auto simp: audience_def received_def posted_def)
next
  case (Heartbeat ord)
  with hub_heartbeat_offered [OF assms(1), of ord] assms(2,3) have o: "offered ping (set (hb_clients h)) h h'" by auto
  from offered_gone [OF o, of c] offered_connected [OF o _ assms(1), of c] Heartbeat show ?thesis
    by (auto simp: received_def posted_def)
next
  case (Receive d)
  then have h': "h' = hub_receive d h" using assms(3) by simp
  show ?thesis unfolding h' Receive
    by (cases "cl_Send (hb_heap h c)")
       (auto simp: hub_receive_def gone_def received_def posted_def wants_def is_wildcard_def in_shard_def fun_eq_iff)
qed

interpretation hub: mailboxes hub_step event_ok hub_inv "\<lambda>h. set (hb_clients h)" gone
  "\<lambda>h c. cl_Send (hb_heap h c)" received "\<lambda>h c. posted (hb_heap h c)"
proof unfold_locales
  fix h c ev h'
  show "gone c h \<Longrightarrow> c \<notin> set (hb_clients h)" by (simp add: gone_def)
  assume a: "hub_inv h" "event_ok ev h" "hub_step ev h = Some h'"
  show "gone c h \<Longrightarrow> gone c h'" using hub_step_connected [OF a] by blast
  show "c \<in> set (hb_clients h) \<Longrightarrow> gone c h' \<or> c \<in> set (hb_clients h') \<and>
      posted (hb_heap h' c) = posted (hb_heap h c) \<and>
      received c ev h @ cl_Send (hb_heap h' c) = cl_Send (hb_heap h c) @ posted (hb_heap h c) ev"
    using hub_step_connected [OF a, of c] wants_posted by blast
qed (rule hub_step_safe)

lemma events_ok_plain:
  "\<forall>ev \<in> set evs. event_ok ev h \<and> (\<forall>d. ev \<noteq> Register d) \<Longrightarrow> run_ok hub_step event_ok evs h'"
proof (induction evs arbitrary: h')
  case (Cons ev evs)
  then show ?case by (cases ev) (auto split: option.split)
qed simp

lemma register_delivers:
  assumes "hub_inv h" "run_ok hub_step event_ok (Register c # evs) h"
  shows "\<exists>got h'. run_log hub_step (received c) (Register c # evs) h = Some (got, h') \<and>
    (c \<in> set (hb_clients h') \<longrightarrow> got @ cl_Send (hb_heap h' c) = cl_Send (hb_heap h c) @ concat (map (posted (hb_heap h c)) evs))"
proof -
  let ?h1 = "hub_register c h"
  have ok: "hub_inv ?h1" "run_ok hub_step event_ok evs ?h1" using assms by (auto simp: hub_register_inv)
  have reg: "c \<in> set (hb_clients ?h1)" "hb_heap ?h1 = hb_heap h" by (simp_all add: hub_register_def Let_def)
  from hub.run_total [OF ok] obtain got h' where "run_log hub_step (received c) evs ?h1 = Some (got, h')" by blast
  with hub.run_balance [OF ok reg(1) this] reg(2) show ?thesis by (simp add: received_def)
qed

text \<open>The index does not leak.\<close>

lemma index_empty:
  assumes "hub_inv h" "hb_clients h = []"
  shows "hb_shards h = [] \<and> hb_wildcards h = []"
proof -
  have ix: "index_inv (hb_heap h) [] h" using assms by (simp add: hub_inv_def)
  have "gm_get (hb_shards h) e = None" for e
    using ix by (cases "gm_get (hb_shards h) e") (auto simp: index_inv_def)
  from this [of "fst (hd (hb_shards h))"] have "hb_shards h = []" by (cases "hb_shards h") auto
  moreover have "hb_wildcards h = []" using ix by (auto simp: index_inv_def)
  ultimately show ?thesis ..
qed

section \<open>Properties\<close>

text \<open>
  C22. The hub never panics and never leaks: in every reachable state every event that can
  happen (with any iteration order, a new client registering) is processed, and afterwards
  the online count is the number of clients, no client it still knows has a closed channel,
  and the index of environments, namespaces and wildcards is empty when no client is left.
\<close>

theorem hub_safe:
  assumes "hub_reachable heap h" "event_ok ev h"
  shows "\<exists>h'. hub_step ev h = Some h' \<and> hb_online h' = int (length (hb_clients h')) \<and>
    (\<forall>c \<in> set (hb_clients h'). \<not> cl_Closed (hb_heap h' c)) \<and>
    (hb_clients h' = [] \<longrightarrow> hb_shards h' = [] \<and> hb_wildcards h' = [])"
proof -
  obtain h' where "hub_step ev h = Some h'" "hub_inv h'"
    using hub_step_safe [OF hub_reachable_inv [OF assms(1)] assms(2)] by blast
  then show ?thesis using index_empty [of h'] unfolding hub_inv_def by blast
qed

text \<open>
  C14. A broadcast reaches its audience exactly once: in any iteration order, every client
  that wants the message and has room gets it appended once, one that wants it and has no
  room is closed and dropped, and every other client is untouched.
\<close>

theorem broadcast_exactly_once:
  assumes "hub_reachable heap h" "iteration_order ord"
  shows "\<exists>h'. hub_step (Broadcast ord m) h = Some h' \<and>
    set (hb_clients h') = {c \<in> set (hb_clients h). wants (hb_heap h c) m \<longrightarrow> room h c} \<and>
    (\<forall>c. hb_heap h' c =
       (if c \<notin> set (hb_clients h) \<or> \<not> wants (hb_heap h c) m then hb_heap h c
        else if room h c then (hb_heap h c)\<lparr>cl_Send := cl_Send (hb_heap h c) @ [m]\<rparr>
        else (hb_heap h c)\<lparr>cl_Closed := True\<rparr>))"
proof -
  obtain h' where "hub_broadcast ord m h = Some h'" "offered m (audience h m) h h'"
    using hub_broadcast_offered [OF hub_reachable_inv [OF assms(1)] assms(2)] by blast
  then show ?thesis by (auto simp: offered_def audience_def)
qed

text \<open>
  C13. Delivery is complete and in order: whatever happens to a client after it registered
  (broadcasts, heartbeats, other clients coming and going, receives of its handler in
  between), the run does not panic, and if it is still connected at the end, what its handler
  received and what waits in its channel are together exactly the broadcasts it wants and the
  heartbeats, once each and in the order they were published.
\<close>

theorem hub_delivers:
  assumes "hub_reachable heap h" "run_ok hub_step event_ok (Register c # evs) h"
  shows "\<exists>got h'. run_log hub_step (received c) (Register c # evs) h = Some (got, h') \<and>
    (c \<in> set (hb_clients h') \<longrightarrow> got @ cl_Send (hb_heap h' c) = cl_Send (hb_heap h c) @ concat (map (posted (hb_heap h c)) evs))"
  using register_delivers [OF hub_reachable_inv [OF assms(1)] assms(2)] .

definition client_in :: "string list \<Rightarrow> string \<Rightarrow> nat \<Rightarrow> Client" where
  "client_in nss env cap = \<lparr>cl_Send = [], cl_Cap = cap, cl_Closed = False,
     cl_Namespaces = map (\<lambda>n. (n, True)) nss, cl_Env = env\<rparr>"

text \<open>Three clients: one of the namespace a, one wildcard, one of another environment.\<close>

definition sample_heap :: "client_id \<Rightarrow> Client" where
  "sample_heap c = (if c = 0 then client_in [''a'', ''b''] ''prod'' 2
     else if c = 1 then client_in [''*''] ''dev'' 1 else client_in [''a''] ''dev'' 2)"

definition sample_hub :: Hub where
  "sample_hub = hub_register 2 (hub_register 1 (hub_register 0 (NewHub sample_heap)))"

lemma sample_hub_reachable: "hub_reachable sample_heap sample_hub"
proof -
  have r0: "hub_reachable sample_heap (hub_register 0 (NewHub sample_heap))"
    by (rule hub_reachable.step [OF hub_reachable.start, of "Register 0"])
       (simp_all add: NewHub_def sample_heap_def client_in_def)
  have r1: "hub_reachable sample_heap (hub_register 1 (hub_register 0 (NewHub sample_heap)))"
    by (rule hub_reachable.step [OF r0, of "Register 1"])
       (simp_all add: hub_register_def NewHub_def sample_heap_def client_in_def Let_def)
  show ?thesis unfolding sample_hub_def
    by (rule hub_reachable.step [OF r1, of "Register 2"])
       (simp_all add: hub_register_def NewHub_def sample_heap_def client_in_def Let_def)
qed

definition sample_message :: Message where
  "sample_message = zero_message\<lparr>msg_Namespace := ''a'', msg_Env := ''prod'', msg_Revision := 9\<rparr>"

theorem hub_safe_witness:
  "\<exists>h'. hub_step (Unregister 1) sample_hub = Some h' \<and> hb_online h' = int (length (hb_clients h'))"
  using hub_safe [OF sample_hub_reachable, of "Unregister 1"] by auto

theorem broadcast_exactly_once_witness:
  "\<exists>h'. hub_step (Broadcast rev sample_message) sample_hub = Some h' \<and>
    cl_Send (hb_heap h' 0) = [sample_message] \<and> cl_Send (hb_heap h' 1) = [sample_message] \<and>
    cl_Send (hb_heap h' 2) = []"
proof -
  have "\<forall>c \<in> {0, 1, 2}. c \<in> set (hb_clients sample_hub) \<and> room sample_hub c \<and>
      cl_Send (hb_heap sample_hub c) = [] \<and>
      wants (hb_heap sample_hub c) sample_message = (c \<noteq> 2)" by code_simp
  with broadcast_exactly_once [OF sample_hub_reachable iteration_order_rev, of sample_message]
  show ?thesis by force
qed

theorem hub_delivers_witness:
  "\<exists>got h'. run_log hub_step (received 0) [Register 0, Broadcast rev sample_message, Heartbeat id, Receive 0, Unregister 1]
       (NewHub sample_heap) = Some (got, h') \<and>
    got = [sample_message] \<and> cl_Send (hb_heap h' 0) = [ping]"
proof -
  let ?evs = "[Broadcast rev sample_message, Heartbeat id, Receive 0, Unregister 1]"
  have ok: "run_ok hub_step event_ok (Register 0 # ?evs) (NewHub sample_heap)"
    unfolding run_ok.simps(2) [of _ _ "Register 0"] hub_step.simps option.case
    by (intro conjI events_ok_plain [where h = "NewHub sample_heap"]) (simp_all add: NewHub_def sample_heap_def client_in_def)
  have run: "map_option (\<lambda>(got, h'). (got, 0 \<in> set (hb_clients h')))
      (run_log hub_step (received 0) (Register 0 # ?evs) (NewHub sample_heap)) = Some ([sample_message], True)" by code_simp
  have "cl_Send (sample_heap 0) @ concat (map (posted (sample_heap 0)) ?evs) = [sample_message, ping]" by code_simp
  with hub_delivers [OF hub_reachable.start ok] run show ?thesis by (auto simp del: run_log.simps simp: NewHub_def)
qed

end
