(* ===== verification/Mysql_Repo.thy ===== *)
theory Mysql_Repo
  imports Api_Types
begin

text \<open>
  \<open>internal/repository/feature.go\<close>, \<open>audit.go\<close>, \<open>outbox.go\<close> and \<open>sdk.go\<close>: the repositories
  over MySQL.

  gorm and the database are not part of the program: they are a parameter \<open>g\<close>, a record of
  the calls the repositories make, over a state of any type. A query is what the code builds
  with \<open>Where\<close>, \<open>Order\<close>, \<open>Offset\<close> and \<open>Limit\<close>. What the code relies on is \<open>db_ok\<close>: rows are
  selected, ordered and cut as SQL says; a write that fails changes nothing; new rows get
  fresh, growing ids; a transaction that is rolled back leaves what was there before it.
  Text is compared up to the collation of the database, the argument \<open>coll\<close>.
\<close>

section \<open>The interface of gorm\<close>

datatype db_error = ErrRecordNotFound | DbError string

datatype cond =
    NamespaceIs string
  | EnvIs string
  | KeyIs string
  | KeyLike string
  | IdIs int
  | StatusIs int
  | ApiKeyIs string

datatype order_by = Unordered | IdAsc | IdDesc | UpdatedAtDesc | CreatedAtDesc

record query =
  q_where :: "cond list"
  q_order :: order_by
  q_offset :: "int option"
  q_limit :: "int option"

definition where_q :: "cond list \<Rightarrow> query" where
  "where_q cs = \<lparr>q_where = cs, q_order = Unordered, q_offset = None, q_limit = None\<rparr>"

type_synonym ('a, 'd) db_call = "'d \<Rightarrow> (db_error + 'a) \<times> 'd"

record 'd gorm =
  go_FindMasters :: "query \<Rightarrow> (FeatureMaster list, 'd) db_call"
  go_FirstMaster :: "query \<Rightarrow> (FeatureMaster, 'd) db_call"
  go_SaveMaster :: "FeatureMaster \<Rightarrow> (FeatureMaster, 'd) db_call"
  go_FindAudits :: "query \<Rightarrow> (FeatureAudit list, 'd) db_call"
  go_FirstAudit :: "query \<Rightarrow> (FeatureAudit, 'd) db_call"
  go_CountAudits :: "(int, 'd) db_call"
  go_CreateAudit :: "FeatureAudit \<Rightarrow> (FeatureAudit, 'd) db_call"
  go_FindTasks :: "query \<Rightarrow> (OutboxTask list, 'd) db_call"
  go_CreateTask :: "OutboxTask \<Rightarrow> (OutboxTask, 'd) db_call"
  go_UpdateTask :: "query \<Rightarrow> int \<Rightarrow> int \<Rightarrow> (unit, 'd) db_call"
  go_FirstClient :: "query \<Rightarrow> (SDKClient, 'd) db_call"
  go_Ping :: "(unit, 'd) db_call"
  go_Begin :: "(unit, 'd) db_call"
  go_Commit :: "(unit, 'd) db_call"
  go_Rollback :: "'d \<Rightarrow> 'd"

text \<open>\<open>db.Transaction(body)\<close>.\<close>

definition Transaction ::
  "'d gorm \<Rightarrow> ('d \<Rightarrow> ('e + 'a) \<times> 'd) \<Rightarrow> (db_error \<Rightarrow> 'e) \<Rightarrow> 'd \<Rightarrow> ('e + 'a) \<times> 'd" where
  "Transaction g body wrap d =
     (case go_Begin g d of
        (Inl e, d1) \<Rightarrow> (Inl (wrap e), d1)
      | (Inr _, d1) \<Rightarrow>
          (case body d1 of
             (Inl e, d2) \<Rightarrow> (Inl e, go_Rollback g d2)
           | (Inr a, d2) \<Rightarrow>
               (case go_Commit g d2 of
                  (Inl e, d3) \<Rightarrow> (Inl (wrap e), d3)
                | (Inr _, d3) \<Rightarrow> (Inr a, d3))))"

section \<open>repository/feature.go\<close>

definition GetByKey ::
  "'d gorm \<Rightarrow> string \<Rightarrow> string \<Rightarrow> string \<Rightarrow> (FeatureMaster option, 'd) db_call" where
  "GetByKey g namespace env key d =
     (case go_FirstMaster g (where_q [NamespaceIs namespace, EnvIs env, KeyIs key]) d of
        (Inl e, d1) \<Rightarrow> (if e = ErrRecordNotFound then (Inr None, d1) else (Inl e, d1))
      | (Inr feature, d1) \<Rightarrow> (Inr (Some feature), d1))"

definition GetAll :: "'d gorm \<Rightarrow> (FeatureMaster list, 'd) db_call" where
  "GetAll g d = go_FindMasters g (where_q []) d"

definition ListByPage :: "'d gorm \<Rightarrow> int \<Rightarrow> int \<Rightarrow> (FeatureMaster list, 'd) db_call" where
  "ListByPage g offset limit d =
     go_FindMasters g \<lparr>q_where = [], q_order = IdAsc, q_offset = Some offset, q_limit = Some limit\<rparr> d"

definition list_query :: "string \<Rightarrow> string \<Rightarrow> string \<Rightarrow> cond list" where
  "list_query namespace env search =
     (if namespace \<noteq> [] then [NamespaceIs namespace] else []) @
     (if env \<noteq> [] then [EnvIs env] else []) @
     (if search \<noteq> [] then [KeyLike (''%'' @ search @ ''%'')] else [])"

definition ListMasters :: "'d gorm \<Rightarrow> string \<Rightarrow> string \<Rightarrow> string \<Rightarrow> (FeatureMaster list, 'd) db_call" where
  "ListMasters g namespace env search d =
     go_FindMasters g ((where_q (list_query namespace env search))\<lparr>q_order := UpdatedAtDesc\<rparr>) d"

definition SaveMaster :: "'d gorm \<Rightarrow> FeatureMaster \<Rightarrow> (FeatureMaster, 'd) db_call" where
  "SaveMaster g master d = go_SaveMaster g master d"

definition zero_master :: FeatureMaster where
  "zero_master = \<lparr>fm_ID = 0, fm_Namespace = [], fm_Env = [], fm_Key = [], fm_Type = [], fm_Version = 0,
     fm_CurrentVal = [], fm_UpdatedAt = 0, fm_UpdatedBy = []\<rparr>"

datatype rollback_error = RbDb db_error | RbKeyMismatch

definition RollbackMaster ::
  "'d gorm \<Rightarrow> string \<Rightarrow> string \<Rightarrow> string \<Rightarrow> int \<Rightarrow> 'd \<Rightarrow> (rollback_error + FeatureMaster) \<times> 'd" where
  "RollbackMaster g namespace env key version d =
     (case go_FirstAudit g (where_q [IdIs version]) d of
        (Inl e, d1) \<Rightarrow> (Inl (RbDb e), d1)
      | (Inr audit, d1) \<Rightarrow>
          if fa_Key audit \<noteq> key then (Inl RbKeyMismatch, d1)
          else (case GetByKey g namespace env key d1 of
              (Inl e, d2) \<Rightarrow> (Inl (RbDb e), d2)
            | (Inr m, d2) \<Rightarrow>
                (let master0 = (case m of Some x \<Rightarrow> x
                       | None \<Rightarrow> zero_master\<lparr>fm_Namespace := namespace, fm_Env := env, fm_Key := key\<rparr>);
                     master = master0\<lparr>fm_CurrentVal := fa_NewValue audit, fm_Type := fa_Type audit,
                                fm_Version := wrap64 (fm_Version master0 + 1)\<rparr>
                 in case SaveMaster g master d2 of
                      (Inl e, d3) \<Rightarrow> (Inl (RbDb e), d3)
                    | (Inr x, d3) \<Rightarrow> (Inr x, d3))))"

section \<open>repository/audit.go\<close>

definition CreateAudit :: "'d gorm \<Rightarrow> FeatureAudit \<Rightarrow> (FeatureAudit, 'd) db_call" where
  "CreateAudit g audit d = go_CreateAudit g audit d"

definition FindByID :: "'d gorm \<Rightarrow> int \<Rightarrow> (FeatureAudit, 'd) db_call" where
  "FindByID g i d = go_FirstAudit g (where_q [IdIs i]) d"

definition ListAudits :: "'d gorm \<Rightarrow> int \<Rightarrow> int \<Rightarrow> (FeatureAudit list \<times> int, 'd) db_call" where
  "ListAudits g offset limit d =
     (case go_CountAudits g d of
        (Inl e, d1) \<Rightarrow> (Inl e, d1)
      | (Inr totalCount, d1) \<Rightarrow>
          (case go_FindAudits g \<lparr>q_where = [], q_order = IdDesc, q_offset = Some offset, q_limit = Some limit\<rparr> d1 of
             (Inl e, d2) \<Rightarrow> (Inl e, d2)
           | (Inr audits, d2) \<Rightarrow> (Inr (audits, totalCount), d2)))"

definition ListByKey :: "'d gorm \<Rightarrow> string \<Rightarrow> string \<Rightarrow> string \<Rightarrow> (FeatureAudit list, 'd) db_call" where
  "ListByKey g namespace env key d =
     go_FindAudits g ((where_q [NamespaceIs namespace, EnvIs env, KeyIs key])\<lparr>q_order := CreatedAtDesc\<rparr>) d"

definition PingContext :: "'d gorm \<Rightarrow> (unit, 'd) db_call" where
  "PingContext g d = go_Ping g d"

section \<open>repository/outbox.go\<close>

definition CreateTask :: "'d gorm \<Rightarrow> OutboxTask \<Rightarrow> (OutboxTask, 'd) db_call" where
  "CreateTask g outbox d = go_CreateTask g outbox d"

definition FetchPending :: "'d gorm \<Rightarrow> int \<Rightarrow> (OutboxTask list, 'd) db_call" where
  "FetchPending g limit d =
     go_FindTasks g \<lparr>q_where = [StatusIs StatusPending], q_order = IdAsc, q_offset = None, q_limit = Some limit\<rparr> d"

definition UpdateStatus :: "'d gorm \<Rightarrow> int \<Rightarrow> int \<Rightarrow> int \<Rightarrow> (unit, 'd) db_call" where
  "UpdateStatus g i status retryCount d = go_UpdateTask g (where_q [IdIs i]) status retryCount d"

section \<open>repository/sdk.go\<close>

definition ValidateAPIKey :: "'d gorm \<Rightarrow> string \<Rightarrow> string \<Rightarrow> (bool, 'd) db_call" where
  "ValidateAPIKey g apiKey env d =
     (case go_FirstClient g (where_q [ApiKeyIs apiKey, EnvIs env, StatusIs 1]) d of
        (Inl e, d1) \<Rightarrow> (if e = ErrRecordNotFound then (Inr False, d1) else (Inl e, d1))
      | (Inr client, d1) \<Rightarrow> (Inr True, d1))"

section \<open>What the code relies on\<close>

record tables =
  tb_masters :: "FeatureMaster list"
  tb_audits :: "FeatureAudit list"
  tb_tasks :: "OutboxTask list"
  tb_clients :: "SDKClient list"

text \<open>SQL's \<open>LIKE\<close>: a percent sign stands for any text, an underscore for any character.\<close>

fun sql_like :: "string \<Rightarrow> string \<Rightarrow> bool" where
  "sql_like [] s \<longleftrightarrow> s = []"
| "sql_like (p # ps) s \<longleftrightarrow>
     (if p = CHR ''%'' then sql_like ps s \<or> (case s of [] \<Rightarrow> False | _ # cs \<Rightarrow> sql_like (p # ps) cs)
      else if p = CHR 92 \<and> ps \<noteq> [] then (case s of [] \<Rightarrow> False | c # cs \<Rightarrow> c = hd ps \<and> sql_like (tl ps) cs)
      else (case s of [] \<Rightarrow> False | c # cs \<Rightarrow> (p = CHR ''_'' \<or> p = c) \<and> sql_like ps cs))"

fun master_matches :: "(string \<Rightarrow> string) \<Rightarrow> FeatureMaster \<Rightarrow> cond \<Rightarrow> bool" where
  "master_matches coll r (NamespaceIs s) \<longleftrightarrow> coll (fm_Namespace r) = coll s"
| "master_matches coll r (EnvIs s) \<longleftrightarrow> coll (fm_Env r) = coll s"
| "master_matches coll r (KeyIs s) \<longleftrightarrow> coll (fm_Key r) = coll s"
| "master_matches coll r (KeyLike p) \<longleftrightarrow> sql_like (coll p) (coll (fm_Key r))"
| "master_matches coll r (IdIs i) \<longleftrightarrow> fm_ID r = i"
| "master_matches coll r _ \<longleftrightarrow> False"

fun audit_matches :: "(string \<Rightarrow> string) \<Rightarrow> FeatureAudit \<Rightarrow> cond \<Rightarrow> bool" where
  "audit_matches coll r (NamespaceIs s) \<longleftrightarrow> coll (fa_Namespace r) = coll s"
| "audit_matches coll r (EnvIs s) \<longleftrightarrow> coll (fa_Env r) = coll s"
| "audit_matches coll r (KeyIs s) \<longleftrightarrow> coll (fa_Key r) = coll s"
| "audit_matches coll r (KeyLike p) \<longleftrightarrow> sql_like (coll p) (coll (fa_Key r))"
| "audit_matches coll r (IdIs i) \<longleftrightarrow> fa_ID r = i"
| "audit_matches coll r _ \<longleftrightarrow> False"

fun task_matches :: "OutboxTask \<Rightarrow> cond \<Rightarrow> bool" where
  "task_matches r (StatusIs s) \<longleftrightarrow> ot_Status r = s"
| "task_matches r (IdIs i) \<longleftrightarrow> ot_ID r = i"
| "task_matches r _ \<longleftrightarrow> False"

fun client_matches :: "(string \<Rightarrow> string) \<Rightarrow> SDKClient \<Rightarrow> cond \<Rightarrow> bool" where
  "client_matches coll r (ApiKeyIs s) \<longleftrightarrow> coll (sc_APIKey r) = coll s"
| "client_matches coll r (EnvIs s) \<longleftrightarrow> coll (sc_Env r) = coll s"
| "client_matches coll r (StatusIs s) \<longleftrightarrow> sc_Status r = s"
| "client_matches coll r (IdIs i) \<longleftrightarrow> sc_ID r = i"
| "client_matches coll r _ \<longleftrightarrow> False"

text \<open>The sort key of an order: rows come in ascending order of it.\<close>

fun master_rank :: "order_by \<Rightarrow> FeatureMaster \<Rightarrow> int" where
  "master_rank IdAsc r = fm_ID r"
| "master_rank IdDesc r = - fm_ID r"
| "master_rank UpdatedAtDesc r = - fm_UpdatedAt r"
| "master_rank _ r = 0"

fun audit_rank :: "order_by \<Rightarrow> FeatureAudit \<Rightarrow> int" where
  "audit_rank IdAsc r = fa_ID r"
| "audit_rank IdDesc r = - fa_ID r"
| "audit_rank CreatedAtDesc r = - fa_CreatedAt r"
| "audit_rank _ r = 0"

fun task_rank :: "order_by \<Rightarrow> OutboxTask \<Rightarrow> int" where
  "task_rank IdAsc r = ot_ID r"
| "task_rank IdDesc r = - ot_ID r"
| "task_rank _ r = 0"

text \<open>The rows a query may give: the selected ones in one of the orders allowed, then cut.\<close>

definition cut :: "query \<Rightarrow> 'r list \<Rightarrow> 'r list" where
  "cut q rs =
     (case q_limit q of None \<Rightarrow> id | Some n \<Rightarrow> if n < 0 then id else take (nat n))
       ((case q_offset q of None \<Rightarrow> id | Some n \<Rightarrow> drop (nat n)) rs)"

definition rows_for :: "('r \<Rightarrow> cond \<Rightarrow> bool) \<Rightarrow> (order_by \<Rightarrow> 'r \<Rightarrow> int) \<Rightarrow> query \<Rightarrow> 'r list \<Rightarrow> 'r list \<Rightarrow> bool" where
  "rows_for matches rank q table rows \<longleftrightarrow>
     (\<exists>rs. mset rs = mset (filter (\<lambda>r. \<forall>c \<in> set (q_where q). matches r c) table) \<and>
           sorted (map (rank (q_order q)) rs) \<and> rows = cut q rs)"

text \<open>
  A reading call leaves the tables (the current ones, and the ones a rollback returns to) as
  they are, and its rows answer the query; \<open>First\<close> gives the selected row with the least id.
\<close>

definition find_ok ::
  "('d \<Rightarrow> 't) \<Rightarrow> ('d \<Rightarrow> 'r list) \<Rightarrow> ('r \<Rightarrow> cond \<Rightarrow> bool) \<Rightarrow> (order_by \<Rightarrow> 'r \<Rightarrow> int) \<Rightarrow>
     (query \<Rightarrow> ('r list, 'd) db_call) \<Rightarrow> bool" where
  "find_ok view table matches rank call \<longleftrightarrow>
     (\<forall>q d r d'. call q d = (r, d') \<longrightarrow> view d' = view d \<and>
        (\<forall>rows. r = Inr rows \<longrightarrow> rows_for matches rank q (table d) rows))"

definition first_ok ::
  "('d \<Rightarrow> 't) \<Rightarrow> ('d \<Rightarrow> 'r list) \<Rightarrow> ('r \<Rightarrow> cond \<Rightarrow> bool) \<Rightarrow> ('r \<Rightarrow> int) \<Rightarrow>
     (query \<Rightarrow> ('r, 'd) db_call) \<Rightarrow> bool" where
  "first_ok view table matches ident call \<longleftrightarrow>
     (\<forall>q d r d'. call q d = (r, d') \<longrightarrow> view d' = view d \<and>
        (let sel = {x \<in> set (table d). \<forall>c \<in> set (q_where q). matches x c} in
         (\<forall>row. r = Inr row \<longrightarrow> row \<in> sel \<and> (\<forall>x \<in> sel. ident row \<le> ident x)) \<and>
         (r = Inl ErrRecordNotFound \<longrightarrow> sel = {})))"

text \<open>The row a create or a save leaves: a fresh id for a new row, the column defaults, the times.\<close>

definition stored_master :: "FeatureMaster list \<Rightarrow> FeatureMaster \<Rightarrow> FeatureMaster \<Rightarrow> bool" where
  "stored_master table m m' \<longleftrightarrow>
     (if fm_ID m = 0 then 0 < fm_ID m' \<and> (\<forall>x \<in> set table. fm_ID x < fm_ID m') else fm_ID m' = fm_ID m) \<and>
     fm_Namespace m' = (if fm_Namespace m = [] \<and> fm_ID m = 0 then ''default'' else fm_Namespace m) \<and>
     fm_Env m' = (if fm_Env m = [] \<and> fm_ID m = 0 then ''dev'' else fm_Env m) \<and>
     fm_Key m' = fm_Key m \<and> fm_Type m' = fm_Type m \<and> fm_Version m' = fm_Version m \<and>
     fm_CurrentVal m' = fm_CurrentVal m \<and> fm_UpdatedBy m' = fm_UpdatedBy m"

definition put_master :: "FeatureMaster \<Rightarrow> FeatureMaster list \<Rightarrow> FeatureMaster list" where
  "put_master m table =
     (if fm_ID m \<in> set (map fm_ID table) then map (\<lambda>x. if fm_ID x = fm_ID m then m else x) table
      else table @ [m])"

definition stored_audit :: "FeatureAudit list \<Rightarrow> FeatureAudit \<Rightarrow> FeatureAudit \<Rightarrow> bool" where
  "stored_audit table a a' \<longleftrightarrow>
     0 < fa_ID a' \<and> (\<forall>x \<in> set table. fa_ID x < fa_ID a') \<and>
     fa_Namespace a' = (if fa_Namespace a = [] then ''default'' else fa_Namespace a) \<and>
     fa_Env a' = (if fa_Env a = [] then ''dev'' else fa_Env a) \<and>
     fa_Key a' = fa_Key a \<and> fa_OldValue a' = fa_OldValue a \<and> fa_NewValue a' = fa_NewValue a \<and>
     fa_Type a' = fa_Type a \<and> fa_Operator a' = fa_Operator a \<and> fa_TraceID a' = fa_TraceID a \<and> fa_IP a' = fa_IP a"

definition stored_task :: "OutboxTask list \<Rightarrow> OutboxTask \<Rightarrow> OutboxTask \<Rightarrow> bool" where
  "stored_task table t t' \<longleftrightarrow>
     0 < ot_ID t' \<and> is_int64 (ot_ID t') \<and> (\<forall>x \<in> set table. ot_ID x < ot_ID t') \<and>
     ot_Key t' = ot_Key t \<and> ot_Payload t' = ot_Payload t \<and> ot_Status t' = ot_Status t \<and>
     ot_RetryCount t' = ot_RetryCount t \<and> ot_TraceID t' = ot_TraceID t"

text \<open>\<open>view\<close> is what the session sees, \<open>base\<close> what a rollback of its transaction returns to.\<close>

definition reads_ok :: "(string \<Rightarrow> string) \<Rightarrow> 'd gorm \<Rightarrow> ('d \<Rightarrow> tables) \<Rightarrow> ('d \<Rightarrow> tables) \<Rightarrow> bool" where
  "reads_ok coll g view base \<longleftrightarrow>
     find_ok (\<lambda>d. (view d, base d)) (\<lambda>d. tb_masters (view d)) (master_matches coll) master_rank (go_FindMasters g) \<and>
     find_ok (\<lambda>d. (view d, base d)) (\<lambda>d. tb_audits (view d)) (audit_matches coll) audit_rank (go_FindAudits g) \<and>
     find_ok (\<lambda>d. (view d, base d)) (\<lambda>d. tb_tasks (view d)) task_matches task_rank (go_FindTasks g) \<and>
     first_ok (\<lambda>d. (view d, base d)) (\<lambda>d. tb_masters (view d)) (master_matches coll) fm_ID (go_FirstMaster g) \<and>
     first_ok (\<lambda>d. (view d, base d)) (\<lambda>d. tb_audits (view d)) (audit_matches coll) fa_ID (go_FirstAudit g) \<and>
     first_ok (\<lambda>d. (view d, base d)) (\<lambda>d. tb_clients (view d)) (client_matches coll) sc_ID (go_FirstClient g)"

definition writes_ok :: "'d gorm \<Rightarrow> ('d \<Rightarrow> tables) \<Rightarrow> ('d \<Rightarrow> tables) \<Rightarrow> bool" where
  "writes_ok g view base \<longleftrightarrow>
     (\<forall>m d r d'. go_SaveMaster g m d = (r, d') \<longrightarrow> base d' = base d \<and>
        (case r of Inl _ \<Rightarrow> view d' = view d
         | Inr m' \<Rightarrow> stored_master (tb_masters (view d)) m m' \<and>
             view d' = (view d)\<lparr>tb_masters := put_master m' (tb_masters (view d))\<rparr>)) \<and>
     (\<forall>a d r d'. go_CreateAudit g a d = (r, d') \<longrightarrow> base d' = base d \<and>
        (case r of Inl _ \<Rightarrow> view d' = view d
         | Inr a' \<Rightarrow> stored_audit (tb_audits (view d)) a a' \<and>
             view d' = (view d)\<lparr>tb_audits := tb_audits (view d) @ [a']\<rparr>)) \<and>
     (\<forall>t d r d'. go_CreateTask g t d = (r, d') \<longrightarrow> base d' = base d \<and>
        (case r of Inl _ \<Rightarrow> view d' = view d
         | Inr t' \<Rightarrow> stored_task (tb_tasks (view d)) t t' \<and>
             view d' = (view d)\<lparr>tb_tasks := tb_tasks (view d) @ [t']\<rparr>)) \<and>
     (\<forall>q st rc d r d'. go_UpdateTask g q st rc d = (r, d') \<longrightarrow> base d' = base d \<and>
        (case r of Inl _ \<Rightarrow> view d' = view d
         | Inr _ \<Rightarrow> \<exists>now. view d' = (view d)\<lparr>tb_tasks := map (\<lambda>t.
               if \<forall>c \<in> set (q_where q). task_matches t c
               then t\<lparr>ot_Status := st, ot_RetryCount := rc, ot_UpdatedAt := now\<rparr> else t) (tb_tasks (view d))\<rparr>))"

definition transactions_ok :: "'d gorm \<Rightarrow> ('d \<Rightarrow> tables) \<Rightarrow> ('d \<Rightarrow> tables) \<Rightarrow> bool" where
  "transactions_ok g view base \<longleftrightarrow>
     (\<forall>d r d'. go_Begin g d = (r, d') \<longrightarrow> view d' = view d \<and> (is_ok r \<longrightarrow> base d' = view d)) \<and>
     (\<forall>d r d'. go_Commit g d = (r, d') \<longrightarrow> view d' = view d \<or> \<not> is_ok r \<and> view d' = base d) \<and>
     (\<forall>d. view (go_Rollback g d) = base d)"

definition db_ok :: "(string \<Rightarrow> string) \<Rightarrow> 'd gorm \<Rightarrow> ('d \<Rightarrow> tables) \<Rightarrow> ('d \<Rightarrow> tables) \<Rightarrow> bool" where
  "db_ok coll g view base \<longleftrightarrow> reads_ok coll g view base \<and> writes_ok g view base \<and> transactions_ok g view base"

section \<open>An in-memory database\<close>

record mem_db =
  md_tables :: tables
  md_base :: tables

definition next_id :: "int list \<Rightarrow> int" where
  "next_id is = fold max is 0 + 1"

definition mem_rows :: "('r \<Rightarrow> cond \<Rightarrow> bool) \<Rightarrow> (order_by \<Rightarrow> 'r \<Rightarrow> int) \<Rightarrow> query \<Rightarrow> 'r list \<Rightarrow> 'r list" where
  "mem_rows matches rank q table =
     cut q (sort_key (rank (q_order q)) (filter (\<lambda>r. list_all (matches r) (q_where q)) table))"

definition mem_first :: "('r \<Rightarrow> cond \<Rightarrow> bool) \<Rightarrow> ('r \<Rightarrow> int) \<Rightarrow> query \<Rightarrow> 'r list \<Rightarrow> db_error + 'r" where
  "mem_first matches ident q table =
     (case sort_key ident (filter (\<lambda>r. list_all (matches r) (q_where q)) table) of
        [] \<Rightarrow> Inl ErrRecordNotFound | r # _ \<Rightarrow> Inr r)"

definition mem_save_master :: "FeatureMaster \<Rightarrow> (FeatureMaster, mem_db) db_call" where
  "mem_save_master m d =
     (let tbs = tb_masters (md_tables d);
          m' = (if fm_ID m = 0
                then m\<lparr>fm_ID := next_id (map fm_ID tbs),
                       fm_Namespace := (if fm_Namespace m = [] then ''default'' else fm_Namespace m),
                       fm_Env := (if fm_Env m = [] then ''dev'' else fm_Env m)\<rparr> else m)
      in (Inr m', d\<lparr>md_tables := (md_tables d)\<lparr>tb_masters := put_master m' tbs\<rparr>\<rparr>))"

definition mem_create_audit :: "FeatureAudit \<Rightarrow> (FeatureAudit, mem_db) db_call" where
  "mem_create_audit a d =
     (let tbs = tb_audits (md_tables d);
          a' = a\<lparr>fa_ID := next_id (map fa_ID tbs),
                 fa_Namespace := (if fa_Namespace a = [] then ''default'' else fa_Namespace a),
                 fa_Env := (if fa_Env a = [] then ''dev'' else fa_Env a)\<rparr>
      in (Inr a', d\<lparr>md_tables := (md_tables d)\<lparr>tb_audits := tbs @ [a']\<rparr>\<rparr>))"

definition mem_create_task :: "OutboxTask \<Rightarrow> (OutboxTask, mem_db) db_call" where
  "mem_create_task t d =
     (let tbs = tb_tasks (md_tables d); t' = t\<lparr>ot_ID := next_id (map ot_ID tbs)\<rparr>
      in if ot_ID t' > int64_max then (Inl (DbError ''out of range''), d)
         else (Inr t', d\<lparr>md_tables := (md_tables d)\<lparr>tb_tasks := tbs @ [t']\<rparr>\<rparr>))"

definition mem_update_task :: "query \<Rightarrow> int \<Rightarrow> int \<Rightarrow> (unit, mem_db) db_call" where
  "mem_update_task q st rc d =
     (Inr (), d\<lparr>md_tables := (md_tables d)\<lparr>tb_tasks := map (\<lambda>t.
        if list_all (task_matches t) (q_where q)
        then t\<lparr>ot_Status := st, ot_RetryCount := rc, ot_UpdatedAt := 0\<rparr> else t) (tb_tasks (md_tables d))\<rparr>\<rparr>)"

definition mem_gorm :: "(string \<Rightarrow> string) \<Rightarrow> mem_db gorm" where
  "mem_gorm coll = \<lparr>
     go_FindMasters = (\<lambda>q d. (Inr (mem_rows (master_matches coll) master_rank q (tb_masters (md_tables d))), d)),
     go_FirstMaster = (\<lambda>q d. (mem_first (master_matches coll) fm_ID q (tb_masters (md_tables d)), d)),
     go_SaveMaster = mem_save_master,
     go_FindAudits = (\<lambda>q d. (Inr (mem_rows (audit_matches coll) audit_rank q (tb_audits (md_tables d))), d)),
     go_FirstAudit = (\<lambda>q d. (mem_first (audit_matches coll) fa_ID q (tb_audits (md_tables d)), d)),
     go_CountAudits = (\<lambda>d. (Inr (int (length (tb_audits (md_tables d)))), d)),
     go_CreateAudit = mem_create_audit,
     go_FindTasks = (\<lambda>q d. (Inr (mem_rows task_matches task_rank q (tb_tasks (md_tables d))), d)),
     go_CreateTask = mem_create_task,
     go_UpdateTask = mem_update_task,
     go_FirstClient = (\<lambda>q d. (mem_first (client_matches coll) sc_ID q (tb_clients (md_tables d)), d)),
     go_Ping = (\<lambda>d. (Inr (), d)),
     go_Begin = (\<lambda>d. (Inr (), d\<lparr>md_base := md_tables d\<rparr>)),
     go_Commit = (\<lambda>d. (Inr (), d)),
     go_Rollback = (\<lambda>d. d\<lparr>md_tables := md_base d\<rparr>)\<rparr>"

lemma next_id_greater: "i \<in> set is \<Longrightarrow> i < next_id is" and next_id_pos: "0 < next_id is"
proof -
  have ge: "m \<le> fold max is m \<and> (\<forall>i \<in> set is. i \<le> fold max is m)" for m :: int
    by (induction "is" arbitrary: m) (auto intro: order_trans [OF max.cobounded2] order_trans [OF max.cobounded1])
  from ge [of 0] show "0 < next_id is" by (simp add: next_id_def)
  from ge [of 0] show "i \<in> set is \<Longrightarrow> i < next_id is" by (fastforce simp: next_id_def)
qed

lemma next_id_int64: "\<not> next_id is > int64_max \<Longrightarrow> is_int64 (next_id is)"
  using next_id_pos [of "is"] by (simp add: is_int64_def int64_min_def)

lemma mem_rows_for: "rows_for matches rank q table (mem_rows matches rank q table)"
  unfolding rows_for_def mem_rows_def list_all_iff by (intro exI conjI) (auto simp: sorted_sort_key)

lemma mem_find_ok:
  "find_ok view (\<lambda>d. f d) matches rank (\<lambda>q d. (Inr (mem_rows matches rank q (f d)), d))"
  by (simp add: find_ok_def mem_rows_for)

lemma mem_first_spec:
  assumes "sel = {x \<in> set table. \<forall>c \<in> set (q_where q). matches x c}"
  shows "case mem_first matches ident q table of
      Inr row \<Rightarrow> row \<in> sel \<and> (\<forall>x \<in> sel. ident row \<le> ident x) | Inl e \<Rightarrow> sel = {}"
proof -
  let ?rs = "sort_key ident (filter (\<lambda>r. list_all (matches r) (q_where q)) table)"
  have rs: "set ?rs = sel" by (auto simp: assms list_all_iff)
  have srt: "sorted (map ident ?rs)" by (rule sorted_sort_key)
  show ?thesis
  proof (cases ?rs)
    case Nil
    with rs show ?thesis by (simp add: mem_first_def)
  next
    case (Cons r rs')
    have "\<forall>x \<in> set (r # rs'). ident r \<le> ident x" using srt unfolding Cons by auto
    with rs Cons show ?thesis by (auto simp: mem_first_def)
  qed
qed

lemma mem_first_ok: "first_ok view (\<lambda>d. f d) matches ident (\<lambda>q d. (mem_first matches ident q (f d), d))"
  unfolding first_ok_def
proof (intro allI impI)
  fix q d r d'
  assume "(mem_first matches ident q (f d), d) = (r, d')"
  with mem_first_spec [where matches = matches and ident = ident and q = q and table = "f d", OF refl]
  show "view d' = view d \<and>
        (let sel = {x \<in> set (f d). \<forall>c \<in> set (q_where q). matches x c} in
         (\<forall>row. r = Inr row \<longrightarrow> row \<in> sel \<and> (\<forall>x \<in> sel. ident row \<le> ident x)) \<and>
         (r = Inl ErrRecordNotFound \<longrightarrow> sel = {}))"
    by (auto simp: Let_def split: sum.splits)
qed

lemma mem_db_ok: "db_ok coll (mem_gorm coll) md_tables md_base"
proof -
  have "reads_ok coll (mem_gorm coll) md_tables md_base"
    unfolding reads_ok_def mem_gorm_def by (simp add: mem_find_ok mem_first_ok)
  moreover have "writes_ok (mem_gorm coll) md_tables md_base"
    by (auto simp: writes_ok_def mem_gorm_def mem_save_master_def mem_create_audit_def mem_create_task_def
        mem_update_task_def Let_def stored_master_def stored_audit_def stored_task_def list_all_iff
        next_id_pos next_id_int64 intro!: next_id_greater)
  moreover have "transactions_ok (mem_gorm coll) md_tables md_base"
    by (auto simp: transactions_ok_def mem_gorm_def)
  ultimately show ?thesis by (simp add: db_ok_def)
qed

section \<open>The repositories\<close>

text \<open>Reading \<open>db_ok\<close> call by call.\<close>

lemma db_first_master:
  assumes "db_ok coll g view base" "go_FirstMaster g q d = (r, d')"
  shows "view d' = view d \<and> base d' = base d \<and>
    (\<forall>row. r = Inr row \<longrightarrow> row \<in> set (tb_masters (view d)) \<and> (\<forall>c \<in> set (q_where q). master_matches coll row c) \<and>
       (\<forall>x \<in> set (tb_masters (view d)). (\<forall>c \<in> set (q_where q). master_matches coll x c) \<longrightarrow> fm_ID row \<le> fm_ID x)) \<and>
    (r = Inl ErrRecordNotFound \<longrightarrow>
       \<not> (\<exists>x \<in> set (tb_masters (view d)). \<forall>c \<in> set (q_where q). master_matches coll x c))"
proof -
  have "first_ok (\<lambda>d. (view d, base d)) (\<lambda>d. tb_masters (view d)) (master_matches coll) fm_ID (go_FirstMaster g)"
    using assms(1) by (simp add: db_ok_def reads_ok_def)
  from this [unfolded first_ok_def, rule_format, OF assms(2)] show ?thesis by (auto simp: Let_def)
qed

lemma db_first_audit:
  assumes "db_ok coll g view base" "go_FirstAudit g q d = (r, d')"
  shows "view d' = view d \<and> base d' = base d \<and>
    (\<forall>row. r = Inr row \<longrightarrow> row \<in> set (tb_audits (view d)) \<and> (\<forall>c \<in> set (q_where q). audit_matches coll row c))"
proof -
  have "first_ok (\<lambda>d. (view d, base d)) (\<lambda>d. tb_audits (view d)) (audit_matches coll) fa_ID (go_FirstAudit g)"
    using assms(1) by (simp add: db_ok_def reads_ok_def)
  from this [unfolded first_ok_def, rule_format, OF assms(2)] show ?thesis by (auto simp: Let_def)
qed

lemma db_first_client:
  assumes "db_ok coll g view base" "go_FirstClient g q d = (r, d')"
  shows "view d' = view d \<and> base d' = base d \<and>
    (\<forall>row. r = Inr row \<longrightarrow> row \<in> set (tb_clients (view d)) \<and> (\<forall>c \<in> set (q_where q). client_matches coll row c)) \<and>
    (r = Inl ErrRecordNotFound \<longrightarrow>
       \<not> (\<exists>x \<in> set (tb_clients (view d)). \<forall>c \<in> set (q_where q). client_matches coll x c))"
proof -
  have "first_ok (\<lambda>d. (view d, base d)) (\<lambda>d. tb_clients (view d)) (client_matches coll) sc_ID (go_FirstClient g)"
    using assms(1) by (simp add: db_ok_def reads_ok_def)
  from this [unfolded first_ok_def, rule_format, OF assms(2)] show ?thesis by (auto simp: Let_def)
qed

lemma db_find_masters:
  assumes "db_ok coll g view base" "go_FindMasters g q d = (r, d')"
  shows "view d' = view d \<and> base d' = base d \<and>
    (\<forall>rows. r = Inr rows \<longrightarrow> rows_for (master_matches coll) master_rank q (tb_masters (view d)) rows)"
proof -
  have "find_ok (\<lambda>d. (view d, base d)) (\<lambda>d. tb_masters (view d)) (master_matches coll) master_rank (go_FindMasters g)"
    using assms(1) by (simp add: db_ok_def reads_ok_def)
  from this [unfolded find_ok_def, rule_format, OF assms(2)] show ?thesis by auto
qed

lemma db_find_audits:
  assumes "db_ok coll g view base" "go_FindAudits g q d = (r, d')"
  shows "view d' = view d \<and> base d' = base d \<and>
    (\<forall>rows. r = Inr rows \<longrightarrow> rows_for (audit_matches coll) audit_rank q (tb_audits (view d)) rows)"
proof -
  have "find_ok (\<lambda>d. (view d, base d)) (\<lambda>d. tb_audits (view d)) (audit_matches coll) audit_rank (go_FindAudits g)"
    using assms(1) by (simp add: db_ok_def reads_ok_def)
  from this [unfolded find_ok_def, rule_format, OF assms(2)] show ?thesis by auto
qed

lemma db_find_tasks:
  assumes "db_ok coll g view base" "go_FindTasks g q d = (r, d')"
  shows "view d' = view d \<and> base d' = base d \<and>
    (\<forall>rows. r = Inr rows \<longrightarrow> rows_for task_matches task_rank q (tb_tasks (view d)) rows)"
proof -
  have "find_ok (\<lambda>d. (view d, base d)) (\<lambda>d. tb_tasks (view d)) task_matches task_rank (go_FindTasks g)"
    using assms(1) by (simp add: db_ok_def reads_ok_def)
  from this [unfolded find_ok_def, rule_format, OF assms(2)] show ?thesis by auto
qed

lemma db_save_master:
  assumes "db_ok coll g view base" "go_SaveMaster g m d = (r, d')"
  shows "base d' = base d \<and>
    (case r of Inl _ \<Rightarrow> view d' = view d
     | Inr m' \<Rightarrow> stored_master (tb_masters (view d)) m m' \<and>
         view d' = (view d)\<lparr>tb_masters := put_master m' (tb_masters (view d))\<rparr>)"
  using assms by (simp add: db_ok_def writes_ok_def)

lemma db_create_audit:
  assumes "db_ok coll g view base" "go_CreateAudit g a d = (r, d')"
  shows "base d' = base d \<and>
    (case r of Inl _ \<Rightarrow> view d' = view d
     | Inr a' \<Rightarrow> stored_audit (tb_audits (view d)) a a' \<and>
         view d' = (view d)\<lparr>tb_audits := tb_audits (view d) @ [a']\<rparr>)"
  using assms by (simp add: db_ok_def writes_ok_def)

lemma db_create_task:
  assumes "db_ok coll g view base" "go_CreateTask g t d = (r, d')"
  shows "base d' = base d \<and>
    (case r of Inl _ \<Rightarrow> view d' = view d
     | Inr t' \<Rightarrow> stored_task (tb_tasks (view d)) t t' \<and>
         view d' = (view d)\<lparr>tb_tasks := tb_tasks (view d) @ [t']\<rparr>)"
  using assms by (simp add: db_ok_def writes_ok_def)

lemma db_update_task:
  assumes "db_ok coll g view base" "go_UpdateTask g q st rc d = (r, d')"
  shows "base d' = base d \<and>
    (case r of Inl _ \<Rightarrow> view d' = view d
     | Inr _ \<Rightarrow> \<exists>now. view d' = (view d)\<lparr>tb_tasks := map (\<lambda>t.
           if \<forall>c \<in> set (q_where q). task_matches t c
           then t\<lparr>ot_Status := st, ot_RetryCount := rc, ot_UpdatedAt := now\<rparr> else t) (tb_tasks (view d))\<rparr>)"
  using assms by (simp add: db_ok_def writes_ok_def)

lemma db_tx:
  assumes "db_ok coll g view base"
  shows "go_Begin g d = (r, d') \<Longrightarrow> view d' = view d \<and> (is_ok r \<longrightarrow> base d' = view d)"
    and "go_Commit g d = (r, d') \<Longrightarrow> view d' = view d \<or> \<not> is_ok r \<and> view d' = base d"
    and "view (go_Rollback g d) = base d"
  using assms by (simp_all add: db_ok_def transactions_ok_def)

text \<open>The key of a feature up to the collation.\<close>

definition same_key :: "(string \<Rightarrow> string) \<Rightarrow> string \<Rightarrow> string \<Rightarrow> string \<Rightarrow> FeatureMaster \<Rightarrow> bool" where
  "same_key coll namespace env key m \<longleftrightarrow>
     coll (fm_Namespace m) = coll namespace \<and> coll (fm_Env m) = coll env \<and> coll (fm_Key m) = coll key"

lemma GetByKey_ok:
  assumes "db_ok coll g view base" "GetByKey g namespace env key d = (r, d')"
  shows "view d' = view d \<and> base d' = base d \<and>
    (r = Inr None \<longrightarrow> (\<forall>m \<in> set (tb_masters (view d)). \<not> same_key coll namespace env key m)) \<and>
    (\<forall>m. r = Inr (Some m) \<longrightarrow> m \<in> set (tb_masters (view d)) \<and> same_key coll namespace env key m)"
proof -
  obtain r0 d0 where f: "go_FirstMaster g (where_q [NamespaceIs namespace, EnvIs env, KeyIs key]) d = (r0, d0)"
    by (rule prod.exhaust)
  from db_first_master [OF assms(1) f] assms(2) f show ?thesis
    by (auto simp: GetByKey_def where_q_def same_key_def split: sum.splits if_splits)
qed

lemma rows_for_uncut:
  assumes "rows_for matches rank q table rows" "q_offset q = None" "q_limit q = None"
  shows "mset rows = mset (filter (\<lambda>r. \<forall>c \<in> set (q_where q). matches r c) table) \<and> sorted (map (rank (q_order q)) rows)"
  using assms by (auto simp: rows_for_def cut_def)

lemma ListMasters_result:
  assumes "db_ok coll g view base" "ListMasters g namespace env search d = (Inr rows, d')"
  shows "mset rows = mset (filter (\<lambda>m.
      (namespace = [] \<or> coll (fm_Namespace m) = coll namespace) \<and> (env = [] \<or> coll (fm_Env m) = coll env) \<and>
      (search = [] \<or> sql_like (coll (''%'' @ search @ ''%'')) (coll (fm_Key m)))) (tb_masters (view d))) \<and>
    sorted (map (\<lambda>m. - fm_UpdatedAt m) rows) \<and> view d' = view d"
proof -
  let ?q = "(where_q (list_query namespace env search))\<lparr>q_order := UpdatedAtDesc\<rparr>"
  have q: "(\<lambda>m. \<forall>c \<in> set (q_where ?q). master_matches coll m c) = (\<lambda>m.
      (namespace = [] \<or> coll (fm_Namespace m) = coll namespace) \<and> (env = [] \<or> coll (fm_Env m) = coll env) \<and>
      (search = [] \<or> sql_like (coll (''%'' @ search @ ''%'')) (coll (fm_Key m))))"
    by (cases "namespace = []"; cases "env = []"; cases "search = []")
       (simp_all add: where_q_def list_query_def fun_eq_iff)
  have f: "go_FindMasters g ?q d = (Inr rows, d')" using assms(2) by (simp add: ListMasters_def)
  have u: "q_offset ?q = None" "q_limit ?q = None" "q_order ?q = UpdatedAtDesc" by (simp_all add: where_q_def)
  from db_find_masters [OF assms(1) f] have r: "rows_for (master_matches coll) master_rank ?q (tb_masters (view d)) rows"
    "view d' = view d" by auto
  have rank: "master_rank UpdatedAtDesc = (\<lambda>m. - fm_UpdatedAt m)" by (simp add: fun_eq_iff)
  from rows_for_uncut [OF r(1) u(1,2)] r(2) show ?thesis unfolding q u(3) rank by simp
qed

lemma FetchPending_rows:
  assumes "db_ok coll g view base" "0 \<le> n" "FetchPending g n d = (Inr rows, d')"
  shows "\<exists>rest. mset (rows @ rest) = mset (filter (\<lambda>t. ot_Status t = StatusPending) (tb_tasks (view d))) \<and>
    sorted (map ot_ID (rows @ rest)) \<and> length rows \<le> nat n \<and> (length rows < nat n \<longrightarrow> rest = []) \<and> view d' = view d"
proof -
  let ?q = "\<lparr>q_where = [StatusIs StatusPending], q_order = IdAsc, q_offset = None, q_limit = Some n\<rparr>"
  from db_find_tasks [OF assms(1), of ?q d "Inr rows" d'] assms(3)
  have r: "rows_for task_matches task_rank ?q (tb_tasks (view d)) rows" "view d' = view d"
    by (auto simp: FetchPending_def)
  have rank: "task_rank IdAsc = ot_ID" by (simp add: fun_eq_iff)
  from r(1) assms(2) obtain rs where rs: "mset rs = mset (filter (\<lambda>t. ot_Status t = StatusPending) (tb_tasks (view d)))"
    "sorted (map ot_ID rs)" "rows = take (nat n) rs"
    by (auto simp: rows_for_def cut_def rank)
  have "rows @ drop (nat n) rs = rs" using rs(3) by simp
  with rs r(2) show ?thesis by (intro exI [of _ "drop (nat n) rs"]) auto
qed

lemma ValidateAPIKey_value:
  assumes "db_ok coll g view base" "ValidateAPIKey g apiKey env d = (Inr b, d')"
  shows "b = (\<exists>c \<in> set (tb_clients (view d)). coll (sc_APIKey c) = coll apiKey \<and> coll (sc_Env c) = coll env \<and> sc_Status c = 1) \<and>
    view d' = view d"
proof -
  obtain r0 d0 where f: "go_FirstClient g (where_q [ApiKeyIs apiKey, EnvIs env, StatusIs 1]) d = (r0, d0)"
    by (rule prod.exhaust)
  from db_first_client [OF assms(1) f] assms(2) f show ?thesis
    by (auto simp: ValidateAPIKey_def where_q_def split: sum.splits if_splits)
qed

section \<open>Properties\<close>

text \<open>
  The outbox queue is read oldest first: a successful FetchPending returns only
  pending tasks, at most the limit, in ascending id, and leaves out none with a smaller id
  than one it returns; fewer than the limit means there are no others.
\<close>

theorem FetchPending_result:
  assumes "db_ok coll g view base" "0 \<le> n" "FetchPending g n d = (Inr rows, d')"
  shows "\<exists>rest. mset (rows @ rest) = mset (filter (\<lambda>t. ot_Status t = StatusPending) (tb_tasks (view d))) \<and>
    sorted (map ot_ID (rows @ rest)) \<and> length rows \<le> nat n \<and> (length rows < nat n \<longrightarrow> rest = []) \<and> view d' = view d"
  using assms by (rule FetchPending_rows)

text \<open>
  An API key is accepted exactly when an active client row has this key and this
  environment (text compared up to the collation of the database), and a database error is
  never an answer.
\<close>

theorem ValidateAPIKey_result:
  assumes "db_ok coll g view base" "ValidateAPIKey g apiKey env d = (Inr b, d')"
  shows "b = (\<exists>c \<in> set (tb_clients (view d)). coll (sc_APIKey c) = coll apiKey \<and> coll (sc_Env c) = coll env \<and> sc_Status c = 1) \<and>
    view d' = view d"
  using assms by (rule ValidateAPIKey_value)

text \<open>
  Restoring a feature from an audit record, on every branch: on an error the tables
  are unchanged; on success the audit record exists and names this key, the row restored
  is the feature's own or a new one, its value and type are the record's new value and
  type, its version is one more, and nothing else changes.
\<close>

theorem RollbackMaster_result:
  assumes "db_ok coll g view base" "RollbackMaster g namespace env key version d = (r, d')"
  shows "case r of
      Inl _ \<Rightarrow> view d' = view d
    | Inr m \<Rightarrow> \<exists>a \<in> set (tb_audits (view d)). \<exists>old.
        fa_ID a = version \<and> fa_Key a = key \<and>
        (old \<in> set (tb_masters (view d)) \<and> same_key coll namespace env key old \<or>
         old = zero_master\<lparr>fm_Namespace := namespace, fm_Env := env, fm_Key := key\<rparr> \<and>
           (\<forall>x \<in> set (tb_masters (view d)). \<not> same_key coll namespace env key x)) \<and>
        fm_CurrentVal m = fa_NewValue a \<and> fm_Type m = fa_Type a \<and> fm_Version m = wrap64 (fm_Version old + 1) \<and>
        view d' = (view d)\<lparr>tb_masters := put_master m (tb_masters (view d))\<rparr>"
proof -
  obtain ra d1 where a: "go_FirstAudit g (where_q [IdIs version]) d = (ra, d1)" by (rule prod.exhaust)
  note A = db_first_audit [OF assms(1) a]
  show ?thesis
  proof (cases "\<exists>au. ra = Inr au \<and> fa_Key au = key")
    case False
    with assms(2) a A show ?thesis by (auto simp: RollbackMaster_def split: sum.splits if_splits)
  next
    case True
    then obtain au where au: "ra = Inr au" "fa_Key au = key" by blast
    with A have aud: "au \<in> set (tb_audits (view d))" "fa_ID au = version" by (auto simp: where_q_def)
    obtain rm d2 where m: "GetByKey g namespace env key d1 = (rm, d2)" by (rule prod.exhaust)
    note M = GetByKey_ok [OF assms(1) m]
    show ?thesis
    proof (cases rm)
      case (Inl e)
      with assms(2) a au m A M show ?thesis by (auto simp: RollbackMaster_def)
    next
      case (Inr om)
      define old where "old = (case om of Some x \<Rightarrow> x
         | None \<Rightarrow> zero_master\<lparr>fm_Namespace := namespace, fm_Env := env, fm_Key := key\<rparr>)"
      define new where "new = old\<lparr>fm_CurrentVal := fa_NewValue au, fm_Type := fa_Type au, fm_Version := wrap64 (fm_Version old + 1)\<rparr>"
      obtain rs d3 where s: "go_SaveMaster g new d2 = (rs, d3)" by (rule prod.exhaust)
      have run: "(r, d') = (case rs of Inl e \<Rightarrow> (Inl (RbDb e), d3) | Inr x \<Rightarrow> (Inr x, d3))"
        using assms(2) a au m Inr s
        by (simp add: RollbackMaster_def SaveMaster_def old_def new_def Let_def split: sum.splits)
      have o: "old \<in> set (tb_masters (view d)) \<and> same_key coll namespace env key old \<or>
         old = zero_master\<lparr>fm_Namespace := namespace, fm_Env := env, fm_Key := key\<rparr> \<and>
           (\<forall>x \<in> set (tb_masters (view d)). \<not> same_key coll namespace env key x)"
        using M A Inr by (cases om) (auto simp: old_def)
      show ?thesis
        using db_save_master [OF assms(1) s] run o aud au(2) A M
        by (cases rs) (auto simp: new_def stored_master_def intro!: bexI [of _ au] exI [of _ old])
    qed
  qed
qed

definition task_n :: "int \<Rightarrow> int \<Rightarrow> OutboxTask" where
  "task_n i st = \<lparr>ot_ID = i, ot_Key = ''k'', ot_Payload = ''{}'', ot_Status = st, ot_RetryCount = 0,
     ot_TraceID = [], ot_CreatedAt = 0, ot_UpdatedAt = 0\<rparr>"

definition sample_master :: FeatureMaster where
  "sample_master = zero_master\<lparr>fm_ID := 1, fm_Namespace := ''a'', fm_Env := ''prod'', fm_Key := ''k'',
     fm_Type := ''string'', fm_Version := 3, fm_CurrentVal := ''v3''\<rparr>"

definition sample_audit :: FeatureAudit where
  "sample_audit = \<lparr>fa_ID = 5, fa_Namespace = ''a'', fa_Env = ''prod'', fa_Key = ''k'', fa_OldValue = ''v1'',
     fa_NewValue = ''v2'', fa_Type = ''string'', fa_Operator = ''op'', fa_TraceID = [], fa_IP = [], fa_CreatedAt = 0\<rparr>"

definition sample_db :: mem_db where
  "sample_db = (let t = \<lparr>tb_masters = [sample_master], tb_audits = [sample_audit],
       tb_tasks = [task_n 3 0, task_n 1 1, task_n 2 0],
       tb_clients = [\<lparr>sc_ID = 1, sc_AppID = ''app'', sc_APIKey = ''key'', sc_Env = ''prod'', sc_Status = 1\<rparr>]\<rparr>
     in \<lparr>md_tables = t, md_base = t\<rparr>)"

lemmas sample_defs = sample_db_def sample_master_def sample_audit_def task_n_def zero_master_def

theorem FetchPending_result_witness:
  "\<exists>rest. FetchPending (mem_gorm id) 1 sample_db = (Inr [task_n 2 0], sample_db) \<and>
    mset (task_n 2 0 # rest) = mset [task_n 3 0, task_n 2 0]"
proof -
  have run: "FetchPending (mem_gorm id) 1 sample_db = (Inr [task_n 2 0], sample_db)"
    by (simp add: FetchPending_def mem_gorm_def mem_rows_def cut_def sample_db_def Let_def task_n_def
        StatusPending_def)
  from FetchPending_result [OF mem_db_ok _ run] run show ?thesis
    by (auto simp: sample_db_def Let_def task_n_def StatusPending_def)
qed

theorem ValidateAPIKey_result_witness:
  "fst (ValidateAPIKey (mem_gorm id) ''key'' ''prod'' sample_db) = Inr True \<and>
   fst (ValidateAPIKey (mem_gorm id) ''key'' ''dev'' sample_db) = Inr False"
proof -
  have "\<exists>b. ValidateAPIKey (mem_gorm id) ''key'' e sample_db = (Inr b, sample_db)" for e
    by (auto simp: ValidateAPIKey_def mem_gorm_def mem_first_def where_q_def split: list.splits)
  then obtain b where b: "\<And>e. ValidateAPIKey (mem_gorm id) ''key'' e sample_db = (Inr (b e), sample_db)" by metis
  from ValidateAPIKey_result [OF mem_db_ok b] b show ?thesis
    by (simp add: sample_db_def Let_def)
qed

theorem RollbackMaster_result_witness:
  "\<exists>m d'. RollbackMaster (mem_gorm id) ''a'' ''prod'' ''k'' 5 sample_db = (Inr m, d') \<and>
    fm_CurrentVal m = ''v2'' \<and> fm_Version m = 4"
proof -
  obtain m d' where run: "RollbackMaster (mem_gorm id) ''a'' ''prod'' ''k'' 5 sample_db = (Inr m, d')"
    by (simp add: RollbackMaster_def GetByKey_def SaveMaster_def mem_gorm_def mem_first_def mem_save_master_def
        where_q_def sample_defs Let_def)
  have small: "is_int64 (4 :: int)" by (simp add: is_int64_small)
  from RollbackMaster_result [OF mem_db_ok run] run small show ?thesis
    by (auto simp: sample_defs Let_def same_key_def)
qed

end
