(* ===== verification/Feature_Service.thy ===== *)
theory Feature_Service
  imports Go_Float Revision_Buffer Feature_Cache Etcd_Repo Mysql_Repo
begin

text \<open>
  \<open>internal/service/feature.go\<close>: saving a flag with its audit record and its outbox task in
  one transaction, pushing it to etcd, rolling it back, reading it, and the watcher that
  turns etcd events into the snapshot, the replay buffer and the messages for the hub.

  The database (\<open>g\<close>) and etcd (\<open>c\<close>) are the parameters of the repositories. A goroutine the
  code starts is an output of the operation that starts it; the clock is an argument, as is
  the trace id that the request's context holds.
\<close>

section \<open>Validation\<close>

datatype payload_error =
    InvalidBool
  | InvalidNumber
  | InvalidStrategy
  | NoDefaultValue
  | IncompleteRule
  | InvalidJson
  | UnknownType

definition validatePayload :: "string \<Rightarrow> string \<Rightarrow> payload_error option" where
  "validatePayload typeStr value =
     (if typeStr = TypeBool then
        (if value \<noteq> ''true'' \<and> value \<noteq> ''false'' then Some InvalidBool else None)
      else if typeStr = TypeNumber then
        (case ParseFloat value of Inl _ \<Rightarrow> Some InvalidNumber | Inr _ \<Rightarrow> None)
      else if typeStr = TypeStrategy then
        (case unmarshal_strategy value of
           None \<Rightarrow> Some InvalidStrategy
         | Some strategy \<Rightarrow>
             if fs_DefaultValue strategy = [] then Some NoDefaultValue
             else if list_ex (\<lambda>rule. ru_Attribute rule = [] \<or> ru_Operator rule = []) (fs_Rules strategy)
             then Some IncompleteRule
             else None)
      else if typeStr = TypeJSON then (if \<not> json_valid value then Some InvalidJson else None)
      else if typeStr = TypeString then None
      else Some UnknownType)"

section \<open>Saving\<close>

datatype service_error =
    InvalidPayload payload_error
  | FeatureSaveFailed
  | FeatureMissing
  | RepoError db_error
  | AuditMismatch string string string
  | ErrMysqlUnhealthy
  | ErrEtcdUnhealthy

text \<open>The master record to write and the old value, from the record found.\<close>

definition next_master :: "FeatureFlag \<Rightarrow> FeatureMaster option \<Rightarrow> FeatureMaster \<times> string" where
  "next_master flag m =
     (case m of
        None \<Rightarrow>
          (zero_master\<lparr>fm_Namespace := ff_Namespace flag, fm_Env := ff_Env flag, fm_Key := ff_Key flag,
             fm_Type := ff_Type flag, fm_Version := 1, fm_CurrentVal := ff_Value flag\<rparr>, [])
      | Some master \<Rightarrow>
          (master\<lparr>fm_Version := wrap64 (fm_Version master + 1), fm_CurrentVal := ff_Value flag,
             fm_Type := ff_Type flag\<rparr>, fm_CurrentVal master))"

definition new_audit :: "FeatureFlag \<Rightarrow> string \<Rightarrow> string \<Rightarrow> string \<Rightarrow> FeatureAudit" where
  "new_audit flag oldValue operator traceID =
     \<lparr>fa_ID = 0, fa_Namespace = ff_Namespace flag, fa_Env = ff_Env flag, fa_Key = ff_Key flag,
      fa_OldValue = oldValue, fa_NewValue = ff_Value flag, fa_Type = ff_Type flag,
      fa_Operator = operator, fa_TraceID = traceID, fa_IP = [], fa_CreatedAt = 0\<rparr>"

definition new_task :: "FeatureFlag \<Rightarrow> string \<Rightarrow> OutboxTask" where
  "new_task flag traceID =
     \<lparr>ot_ID = 0, ot_Key = ff_Key flag, ot_Payload = ToJSON flag, ot_Status = StatusPending,
      ot_RetryCount = 0, ot_TraceID = traceID, ot_CreatedAt = 0, ot_UpdatedAt = 0\<rparr>"

text \<open>
  The body of the transaction: the read, then the three writes. The error of the first
  write is dropped, as in the code. The result is the version, the id of the outbox task
  and the flag with its version.
\<close>

definition save_rows ::
  "'d gorm \<Rightarrow> FeatureFlag \<Rightarrow> string \<Rightarrow> string \<Rightarrow> FeatureMaster option \<Rightarrow> (int \<times> int \<times> FeatureFlag, 'd) db_call" where
  "save_rows g flag operator traceID m d1 =
     (let (master, oldValue) = next_master flag m;
          (_, d2) = SaveMaster g master d1
      in case CreateAudit g (new_audit flag oldValue operator traceID) d2 of
           (Inl e, d3) \<Rightarrow> (Inl e, d3)
         | (Inr _, d3) \<Rightarrow>
             (let flag' = flag\<lparr>ff_Version := fm_Version master\<rparr>
              in case CreateTask g (new_task flag' traceID) d3 of
                   (Inl e, d4) \<Rightarrow> (Inl e, d4)
                 | (Inr event, d4) \<Rightarrow> (Inr (fm_Version master, ot_ID event mod 2 ^ 64, flag'), d4)))"

definition save_body ::
  "'d gorm \<Rightarrow> FeatureFlag \<Rightarrow> string \<Rightarrow> string \<Rightarrow> (int \<times> int \<times> FeatureFlag, 'd) db_call" where
  "save_body g flag operator traceID d =
     (case GetByKey g (ff_Namespace flag) (ff_Env flag) (ff_Key flag) d of
        (Inl e, d1) \<Rightarrow> (Inl e, d1)
      | (Inr m, d1) \<Rightarrow> save_rows g flag operator traceID m d1)"

text \<open>\<open>SaveFeature\<close>: its result, and the arguments of the \<open>syncToEtcd\<close> it starts.\<close>

definition SaveFeature ::
  "'d gorm \<Rightarrow> FeatureFlag \<Rightarrow> string \<Rightarrow> string \<Rightarrow> 'd \<Rightarrow>
     (service_error + int) \<times> (int \<times> FeatureFlag) option \<times> 'd" where
  "SaveFeature g flag operator traceID d =
     (case validatePayload (ff_Type flag) (ff_Value flag) of
        Some e \<Rightarrow> (Inl (InvalidPayload e), None, d)
      | None \<Rightarrow>
          (case Transaction g (save_body g flag operator traceID) id d of
             (Inl e, d1) \<Rightarrow> (Inl FeatureSaveFailed, None, d1)
           | (Inr (lastestVersion, outboxID, flag'), d1) \<Rightarrow>
               (Inr lastestVersion, Some (outboxID, flag'), d1)))"

definition syncToEtcd ::
  "'e etcd_client \<Rightarrow> 'd gorm \<Rightarrow> int \<Rightarrow> FeatureFlag \<Rightarrow> 'e \<times> 'd \<Rightarrow> 'e \<times> 'd" where
  "syncToEtcd c g outboxID flag s =
     (case s of (es, d) \<Rightarrow>
        (case SaveFeatureIfNewer c (BuildFeatureKey (ff_Env flag) (ff_Namespace flag) (ff_Key flag)) flag es of
           (Inl e, es1) \<Rightarrow> (es1, d)
         | (Inr _, es1) \<Rightarrow> (es1, snd (UpdateStatus g outboxID StatusCompleted 0 d))))"

section \<open>Reading\<close>

definition feature_item :: "FeatureMaster \<Rightarrow> FeatureItem" where
  "feature_item m =
     \<lparr>fi_ID = fm_ID m, fi_Namespace = fm_Namespace m, fi_Env = fm_Env m, fi_Key = fm_Key m,
      fi_Type = fm_Type m, fi_Version = fm_Version m, fi_Value = fm_CurrentVal m,
      fi_UpdatedAt = fm_UpdatedAt m, fi_UpdatedBy = fm_UpdatedBy m\<rparr>"

definition service_GetFeature ::
  "'d gorm \<Rightarrow> string \<Rightarrow> string \<Rightarrow> string \<Rightarrow> 'd \<Rightarrow> (service_error + FeatureItem) \<times> 'd" where
  "service_GetFeature g namespace env key d =
     (case GetByKey g namespace env key d of
        (Inl e, d1) \<Rightarrow> (Inl (RepoError e), d1)
      | (Inr None, d1) \<Rightarrow> (Inl FeatureMissing, d1)
      | (Inr (Some m), d1) \<Rightarrow> (Inr (feature_item m), d1))"

definition ListFeatures ::
  "'d gorm \<Rightarrow> string \<Rightarrow> string \<Rightarrow> string \<Rightarrow> 'd \<Rightarrow> (service_error + FeatureItem list) \<times> 'd" where
  "ListFeatures g namespace env search d =
     (case ListMasters g namespace env search d of
        (Inl e, d1) \<Rightarrow> (Inl (RepoError e), d1)
      | (Inr masters, d1) \<Rightarrow> (Inr (map feature_item masters), d1))"

definition audit_item :: "FeatureAudit \<Rightarrow> AuditLogItem" where
  "audit_item a =
     \<lparr>al_ID = fa_ID a, al_Namespace = fa_Namespace a, al_Env = fa_Env a, al_Key = fa_Key a,
      al_OldValue = fa_OldValue a, al_NewValue = fa_NewValue a, al_Type = fa_Type a,
      al_Operator = fa_Operator a, al_CreatedAt = fa_CreatedAt a\<rparr>"

definition GetFeatureAudits ::
  "'d gorm \<Rightarrow> string \<Rightarrow> string \<Rightarrow> string \<Rightarrow> 'd \<Rightarrow> (service_error + AuditLogItem list) \<times> 'd" where
  "GetFeatureAudits g namespace env key d =
     (case ListByKey g namespace env key d of
        (Inl e, d1) \<Rightarrow> (Inl (RepoError e), d1)
      | (Inr audits, d1) \<Rightarrow> (Inr (map audit_item audits), d1))"

section \<open>Rolling back\<close>

definition RollbackFeature ::
  "'d gorm \<Rightarrow> string \<Rightarrow> string \<Rightarrow> string \<Rightarrow> int \<Rightarrow> string \<Rightarrow> string \<Rightarrow> 'd \<Rightarrow>
     (service_error + int) \<times> (int \<times> FeatureFlag) option \<times> 'd" where
  "RollbackFeature g namespace env key auditID operator traceID d =
     (case FindByID g auditID d of
        (Inl e, d1) \<Rightarrow> (Inl (RepoError e), None, d1)
      | (Inr audit, d1) \<Rightarrow>
          if fa_Key audit \<noteq> key \<or> fa_Env audit \<noteq> env \<or> fa_Namespace audit \<noteq> namespace
          then (Inl (AuditMismatch (fa_Env audit) (fa_Namespace audit) (fa_Key audit)), None, d1)
          else (case GetByKey g namespace env key d1 of
                  (Inl e, d2) \<Rightarrow> (Inl (RepoError e), None, d2)
                | (Inr master, d2) \<Rightarrow>
                    (let currentVersion = (case master of None \<Rightarrow> 0 | Some m \<Rightarrow> fm_Version m)
                     in SaveFeature g
                          (zero_flag\<lparr>ff_Namespace := namespace, ff_Env := env, ff_Key := key,
                             ff_Value := fa_OldValue audit, ff_Type := fa_Type audit,
                             ff_Version := currentVersion\<rparr>) operator traceID d2)))"

definition Health :: "'d gorm \<Rightarrow> 'e etcd_client \<Rightarrow> 'e \<times> 'd \<Rightarrow> service_error option \<times> 'e \<times> 'd" where
  "Health g c s =
     (case s of (es, d) \<Rightarrow>
        (case PingContext g d of
           (Inl _, d1) \<Rightarrow> (Some ErrMysqlUnhealthy, es, d1)
         | (Inr _, d1) \<Rightarrow>
             (case etcd_Health c es of
                (Some _, es1) \<Rightarrow> (Some ErrEtcdUnhealthy, es1, d1)
              | (None, es1) \<Rightarrow> (None, es1, d1))))"

section \<open>The watcher\<close>

record service =
  sv_buffer :: RevisionBuffer
  sv_cache :: FeatureCache

definition NewFeatureService :: service where
  "NewFeatureService = \<lparr>sv_buffer = NewRevisionBuffer 1000, sv_cache = NewFeatureCache\<rparr>"

definition GetCompensation :: "int \<Rightarrow> service \<Rightarrow> (Message list \<times> bool) option" where
  "GetCompensation lastRev s = GetSince (sv_buffer s) lastRev"

definition GetAllFeatures ::
  "((string \<times> FeatureFlag) list \<Rightarrow> (string \<times> FeatureFlag) list) \<Rightarrow> service \<Rightarrow> FeatureFlag list \<times> int" where
  "GetAllFeatures ord s = GetSnapshot ord (sv_cache s)"

text \<open>The initial snapshot, from the entries under the root prefix.\<close>

definition snapshot_entry :: "etcd_kv \<Rightarrow> FeatureCache \<Rightarrow> FeatureCache" where
  "snapshot_entry kv cache =
     (case unmarshal_flag (kv_Value kv) of
        None \<Rightarrow> cache
      | Some flag \<Rightarrow> cache_Update (flag\<lparr>ff_Revision := kv_ModRevision kv\<rparr>) cache)"

text \<open>The revision the watch starts from, after the snapshot; \<open>None\<close>: \<open>Run\<close> gave up.\<close>

definition run_init :: "'e etcd_client \<Rightarrow> service \<Rightarrow> 'e \<Rightarrow> (service \<times> int) option \<times> 'e" where
  "run_init c s es =
     (case GetWithRevision c FeatureRootPrefix es of
        (Inl e, es1) \<Rightarrow> (None, es1)
      | (Inr (kvs, rev0), es1) \<Rightarrow>
          (Some (s\<lparr>sv_cache := fold snapshot_entry kvs (sv_cache s)\<rparr>, wrap64 (rev0 + 1)), es1))"

record watch_event =
  we_Delete :: bool
  we_Kv :: etcd_kv

record watch_response =
  wr_Canceled :: bool
  wr_Events :: "watch_event list"

definition delete_message :: "int \<Rightarrow> etcd_kv \<Rightarrow> Message" where
  "delete_message now kv =
     (case parse_feature_key (kv_Key kv) of (env, ns, key) \<Rightarrow>
        zero_message\<lparr>msg_Namespace := ns, msg_Env := env, msg_Key := key,
          msg_Revision := kv_ModRevision kv, msg_Action := DELETE, msg_UpdatedAt := now\<rparr>)"

definition put_message :: "int \<Rightarrow> FeatureFlag \<Rightarrow> etcd_kv \<Rightarrow> Message" where
  "put_message now flag kv =
     \<lparr>msg_Namespace = ff_Namespace flag, msg_Env = ff_Env flag, msg_Key = ff_Key flag,
      msg_Value = ff_Value flag, msg_Type = ff_Type flag, msg_Version = ff_Version flag,
      msg_Revision = kv_ModRevision kv, msg_Action = PUT, msg_UpdatedAt = now\<rparr>"

text \<open>One event: the message for the hub, if any, and the service after it; \<open>None\<close> is a panic.\<close>

definition handle_event :: "int \<Rightarrow> watch_event \<Rightarrow> service \<Rightarrow> (Message option \<times> service) option" where
  "handle_event now ev s =
     (let kv = we_Kv ev;
          publish = (\<lambda>msg cache. map_option (\<lambda>b. (Some msg, s\<lparr>sv_buffer := b, sv_cache := cache\<rparr>))
                       (AddMessage msg (sv_buffer s)))
      in if we_Delete ev
         then publish (delete_message now kv) (cache_Delete (kv_Key kv) (kv_ModRevision kv) (sv_cache s))
         else (case unmarshal_flag (kv_Value kv) of
                 None \<Rightarrow> Some (None, s)
               | Some flag \<Rightarrow> publish (put_message now flag kv) (cache_Update flag (sv_cache s))))"

fun handle_events :: "int \<Rightarrow> watch_event list \<Rightarrow> service \<Rightarrow> (Message list \<times> service) option" where
  "handle_events now [] s = Some ([], s)"
| "handle_events now (ev # evs) s =
     (case handle_event now ev s of
        None \<Rightarrow> None
      | Some (m, s1) \<Rightarrow>
          map_option (\<lambda>(ms, s2). ((case m of None \<Rightarrow> ms | Some x \<Rightarrow> x # ms), s2)) (handle_events now evs s1))"

text \<open>
  One response of the watch channel: a cancelled one ends \<open>Run\<close> (\<open>False\<close>). A closed channel
  gives the zero response, which is not cancelled.
\<close>

definition handle_response ::
  "int \<Rightarrow> watch_response \<Rightarrow> service \<Rightarrow> (bool \<times> Message list \<times> service) option" where
  "handle_response now wresp s =
     (if wr_Canceled wresp then Some (False, [], s)
      else map_option (\<lambda>(ms, s1). (True, ms, s1)) (handle_events now (wr_Events wresp) s))"

text \<open>The loop of \<open>Run\<close> on the responses it receives, each with the time it is handled at.\<close>

fun watch_loop ::
  "(int \<times> watch_response) list \<Rightarrow> service \<Rightarrow> (bool \<times> Message list \<times> service) option" where
  "watch_loop [] s = Some (True, [], s)"
| "watch_loop ((now, wresp) # ws) s =
     (case handle_response now wresp s of
        None \<Rightarrow> None
      | Some (go, ms, s1) \<Rightarrow>
          if \<not> go then Some (False, ms, s1)
          else map_option (\<lambda>(go', ms', s2). (go', ms @ ms', s2)) (watch_loop ws s1))"

definition closed_channel :: watch_response where
  "closed_channel = \<lparr>wr_Canceled = False, wr_Events = []\<rparr>"

end
