(* ===== verification/Service_Facts.thy ===== *)
theory Service_Facts
  imports Feature_Service
begin

text \<open>
  What the feature service guarantees: a save is all or nothing and refines an update of the
  map from keys to version, type and value, but for the write of the master record, whose
  error the code drops (\<open>save_dropped\<close>); a rollback restores the old value of its audit
  record; the watcher never panics, its messages are the events in order, its replay buffer
  is the log of these messages and its cache holds the last flag put under each key. And what
  it does not: a failed write of the master record is reported as a success, two racing
  saves get one version, and a deleted flag stays in the cache.
\<close>

section \<open>Transactions\<close>

lemma Transaction_cases:
  assumes ok: "db_ok coll g view base" and run: "Transaction g body wrap d = (r, d')"
  obtains
    (no_begin) e where "r = Inl (wrap e)" "view d' = view d"
  | (rolled_back) d1 e d2 where "view d1 = view d" "base d1 = view d" "body d1 = (Inl e, d2)"
      "r = Inl e" "view d' = base d2"
  | (committed) d1 a d2 where "view d1 = view d" "base d1 = view d" "body d1 = (Inr a, d2)"
      "r = Inr a" "view d' = view d2"
  | (unknown) d1 a d2 e where "view d1 = view d" "base d1 = view d" "body d1 = (Inr a, d2)"
      "r = Inl (wrap e)" "view d' = view d2 \<or> view d' = base d2"
proof -
  obtain rb d1 where b: "go_Begin g d = (rb, d1)" by (rule prod.exhaust)
  note B = db_tx(1) [OF ok b]
  show ?thesis
  proof (cases rb)
    case (Inl e)
    with run b B no_begin [of e] show ?thesis by (simp add: Transaction_def)
  next
    case (Inr u)
    with B have v: "view d1 = view d" "base d1 = view d" by simp_all
    obtain rx d2 where x: "body d1 = (rx, d2)" by (rule prod.exhaust)
    show ?thesis
    proof (cases rx)
      case (Inl e)
      with run b Inr x have "r = Inl e" "d' = go_Rollback g d2" by (simp_all add: Transaction_def)
      with rolled_back [OF v] x Inl db_tx(3) [OF ok, of d2] show ?thesis by simp
    next
      case a: (Inr a)
      obtain rc d3 where c: "go_Commit g d2 = (rc, d3)" by (rule prod.exhaust)
      have "r = (case rc of Inl e \<Rightarrow> Inl (wrap e) | Inr _ \<Rightarrow> Inr a)" "d' = d3"
        using run b Inr x a c by (auto simp: Transaction_def split: sum.splits)
      with db_tx(2) [OF ok c] committed [OF v] unknown [OF v] x a show ?thesis
        by (cases rc) auto
    qed
  qed
qed

section \<open>The effect of a save\<close>

text \<open>The rows a save finds under its key, and what it leaves.\<close>

definition found_master :: "(string \<Rightarrow> string) \<Rightarrow> FeatureFlag \<Rightarrow> tables \<Rightarrow> FeatureMaster option \<Rightarrow> bool" where
  "found_master coll flag t m \<longleftrightarrow>
     (case m of
        None \<Rightarrow> \<forall>x \<in> set (tb_masters t). \<not> same_key coll (ff_Namespace flag) (ff_Env flag) (ff_Key flag) x
      | Some x \<Rightarrow> x \<in> set (tb_masters t) \<and> same_key coll (ff_Namespace flag) (ff_Env flag) (ff_Key flag) x)"

definition rows_effect ::
  "FeatureFlag \<Rightarrow> string \<Rightarrow> string \<Rightarrow> FeatureMaster option \<Rightarrow> tables \<Rightarrow> tables \<Rightarrow> bool" where
  "rows_effect flag operator traceID m t t' \<longleftrightarrow>
     (\<exists>m' a k. let (master, oldValue) = next_master flag m in
        stored_master (tb_masters t) master m' \<and>
        stored_audit (tb_audits t) (new_audit flag oldValue operator traceID) a \<and>
        stored_task (tb_tasks t) (new_task (flag\<lparr>ff_Version := fm_Version master\<rparr>) traceID) k \<and>
        t' = t\<lparr>tb_masters := put_master m' (tb_masters t), tb_audits := tb_audits t @ [a],
               tb_tasks := tb_tasks t @ [k]\<rparr>)"

definition save_effect ::
  "(string \<Rightarrow> string) \<Rightarrow> FeatureFlag \<Rightarrow> string \<Rightarrow> string \<Rightarrow> tables \<Rightarrow> tables \<Rightarrow> int \<Rightarrow> bool" where
  "save_effect coll flag operator traceID t t' v \<longleftrightarrow>
     (\<exists>m. found_master coll flag t m \<and> rows_effect flag operator traceID m t t' \<and>
          v = fm_Version (fst (next_master flag m)))"

text \<open>
  The same without the master record: its write failed, and the code drops that error. The
  audit record, the outbox task and the version are as if it had been written.
\<close>

definition rows_dropped ::
  "FeatureFlag \<Rightarrow> string \<Rightarrow> string \<Rightarrow> FeatureMaster option \<Rightarrow> tables \<Rightarrow> tables \<Rightarrow> bool" where
  "rows_dropped flag operator traceID m t t' \<longleftrightarrow>
     (\<exists>a k. let (master, oldValue) = next_master flag m in
        stored_audit (tb_audits t) (new_audit flag oldValue operator traceID) a \<and>
        stored_task (tb_tasks t) (new_task (flag\<lparr>ff_Version := fm_Version master\<rparr>) traceID) k \<and>
        t' = t\<lparr>tb_audits := tb_audits t @ [a], tb_tasks := tb_tasks t @ [k]\<rparr>)"

definition write_fails :: "'d gorm \<Rightarrow> ('d \<Rightarrow> tables) \<Rightarrow> FeatureMaster \<Rightarrow> tables \<Rightarrow> bool" where
  "write_fails g view m t \<longleftrightarrow> (\<exists>d e d'. view d = t \<and> go_SaveMaster g m d = (Inl e, d'))"

definition save_dropped ::
  "(string \<Rightarrow> string) \<Rightarrow> 'd gorm \<Rightarrow> ('d \<Rightarrow> tables) \<Rightarrow> FeatureFlag \<Rightarrow> string \<Rightarrow> string \<Rightarrow> tables \<Rightarrow> tables \<Rightarrow> int \<Rightarrow> bool" where
  "save_dropped coll g view flag operator traceID t t' v \<longleftrightarrow>
     (\<exists>m. found_master coll flag t m \<and> rows_dropped flag operator traceID m t t' \<and>
          v = fm_Version (fst (next_master flag m)) \<and> write_fails g view (fst (next_master flag m)) t)"

text \<open>A database in which the write of a master record never fails drops nothing.\<close>

definition master_writes :: "'d gorm \<Rightarrow> bool" where
  "master_writes g \<longleftrightarrow> (\<forall>m d. is_ok (fst (go_SaveMaster g m d)))"

lemma not_dropped: "master_writes g \<Longrightarrow> \<not> save_dropped coll g view flag operator traceID t t' v"
  unfolding master_writes_def save_dropped_def write_fails_def by (metis fst_conv is_ok.simps(1))

lemma save_rows_outcome:
  assumes ok: "db_ok coll g view base" and run: "save_rows g flag operator traceID m d1 = (r, d')"
  shows "base d' = base d1 \<and>
    (\<forall>v oid f. r = Inr (v, oid, f) \<longrightarrow>
       (rows_effect flag operator traceID m (view d1) (view d') \<or>
        rows_dropped flag operator traceID m (view d1) (view d') \<and> write_fails g view (fst (next_master flag m)) (view d1)) \<and>
       v = fm_Version (fst (next_master flag m)) \<and> f = flag\<lparr>ff_Version := v\<rparr>)"
proof -
  obtain master old where nm: "next_master flag m = (master, old)" by (rule prod.exhaust)
  obtain rs d2 where s: "go_SaveMaster g master d1 = (rs, d2)" by (rule prod.exhaust)
  note S = db_save_master [OF ok s]
  obtain ra d3 where a: "go_CreateAudit g (new_audit flag old operator traceID) d2 = (ra, d3)" by (rule prod.exhaust)
  note A = db_create_audit [OF ok a]
  let ?f = "flag\<lparr>ff_Version := fm_Version master\<rparr>"
  obtain rt d4 where t: "go_CreateTask g (new_task ?f traceID) d3 = (rt, d4)" by (rule prod.exhaust)
  note T = db_create_task [OF ok t]
  show ?thesis
  proof (cases ra)
    case (Inl e)
    with run nm s a S A show ?thesis
      by (auto simp: save_rows_def SaveMaster_def CreateAudit_def split: prod.splits sum.splits)
  next
    case (Inr a')
    show ?thesis
    proof (cases rt)
      case (Inl e)
      with run nm s a Inr t S A T show ?thesis
        by (auto simp: save_rows_def SaveMaster_def CreateAudit_def CreateTask_def Let_def split: prod.splits sum.splits)
    next
      case t': (Inr k)
      have d': "d' = d4" "r = Inr (fm_Version master, ot_ID k mod 2 ^ 64, ?f)"
        using run nm s a Inr t t'
        by (auto simp: save_rows_def SaveMaster_def CreateAudit_def CreateTask_def Let_def split: prod.splits sum.splits)
      have "rows_effect flag operator traceID m (view d1) (view d4) \<or>
          rows_dropped flag operator traceID m (view d1) (view d4) \<and> write_fails g view master (view d1)"
      proof (cases rs)
        case (Inl e)
        with S have v2: "view d2 = view d1" by simp
        have "rows_dropped flag operator traceID m (view d1) (view d4)"
          unfolding rows_dropped_def nm
          by (rule exI [of _ a'], rule exI [of _ k]) (use v2 A T Inr t' in simp)
        moreover have "write_fails g view master (view d1)" using s Inl unfolding write_fails_def by blast
        ultimately show ?thesis by blast
      next
        case (Inr m')
        have "rows_effect flag operator traceID m (view d1) (view d4)"
          unfolding rows_effect_def nm
          by (rule exI [of _ m'], rule exI [of _ a'], rule exI [of _ k]) (use S A T Inr \<open>ra = Inr a'\<close> t' in simp)
        then show ?thesis by blast
      qed
      with d' S A T nm show ?thesis by simp
    qed
  qed
qed

lemma save_body_outcome:
  assumes ok: "db_ok coll g view base" and run: "save_body g flag operator traceID d1 = (r, d')"
  shows "base d' = base d1 \<and>
    (\<forall>v oid f. r = Inr (v, oid, f) \<longrightarrow>
       (save_effect coll flag operator traceID (view d1) (view d') v \<or>
        save_dropped coll g view flag operator traceID (view d1) (view d') v) \<and> f = flag\<lparr>ff_Version := v\<rparr>)"
proof -
  obtain rm d2 where m: "GetByKey g (ff_Namespace flag) (ff_Env flag) (ff_Key flag) d1 = (rm, d2)" by (rule prod.exhaust)
  note M = GetByKey_ok [OF ok m]
  show ?thesis
  proof (cases rm)
    case (Inl e)
    with run m M show ?thesis by (auto simp: save_body_def)
  next
    case (Inr om)
    with run m have "save_rows g flag operator traceID om d2 = (r, d')" by (simp add: save_body_def)
    note E = save_rows_outcome [OF ok this]
    have "found_master coll flag (view d1) om" using M Inr by (cases om) (auto simp: found_master_def)
    then have
      "save_effect coll flag operator traceID (view d1) t (fm_Version (fst (next_master flag om)))"
      if "rows_effect flag operator traceID om (view d1) t" for t
      using that unfolding save_effect_def by blast
    moreover have
      "save_dropped coll g view flag operator traceID (view d1) t (fm_Version (fst (next_master flag om)))"
      if "rows_dropped flag operator traceID om (view d1) t" "write_fails g view (fst (next_master flag om)) (view d1)" for t
      using that \<open>found_master coll flag (view d1) om\<close> unfolding save_dropped_def by blast
    moreover have v: "view d2 = view d1" "base d2 = base d1" using M by simp_all
    ultimately show ?thesis using E unfolding v by blast
  qed
qed

lemma SaveFeature_outcome:
  assumes ok: "db_ok coll g view base" and run: "SaveFeature g flag operator traceID d = (r, job, d')"
  shows "(\<exists>e. r = Inl e \<and> job = None \<and> view d' = view d) \<or>
    (\<exists>v. (save_effect coll flag operator traceID (view d) (view d') v \<or>
          save_dropped coll g view flag operator traceID (view d) (view d') v) \<and>
       validatePayload (ff_Type flag) (ff_Value flag) = None \<and>
       (r = Inr v \<and> (\<exists>oid. job = Some (oid, flag\<lparr>ff_Version := v\<rparr>)) \<or> r = Inl FeatureSaveFailed \<and> job = None))"
proof (cases "validatePayload (ff_Type flag) (ff_Value flag)")
  case (Some e)
  with run show ?thesis by (auto simp: SaveFeature_def)
next
  case None
  obtain rx dx where x: "Transaction g (save_body g flag operator traceID) id d = (rx, dx)" by (rule prod.exhaust)
  have res: "(r, job, d') = (case rx of Inl e \<Rightarrow> (Inl FeatureSaveFailed, None, dx)
      | Inr (v, oid, f) \<Rightarrow> (Inr v, Some (oid, f), dx))"
    using run None x by (auto simp: SaveFeature_def split: sum.splits)
  from ok x show ?thesis
  proof (cases rule: Transaction_cases)
    case (no_begin e)
    with res show ?thesis by auto
  next
    case (rolled_back d1 e d2)
    with save_body_outcome [OF ok rolled_back(3)] res show ?thesis by auto
  next
    case (committed d1 a d2)
    obtain v oid f where a: "a = (v, oid, f)" by (cases a)
    with save_body_outcome [OF ok committed(3)] committed(1,2)
    have "save_effect coll flag operator traceID (view d) (view d2) v \<or>
        save_dropped coll g view flag operator traceID (view d) (view d2) v" "f = flag\<lparr>ff_Version := v\<rparr>" by auto
    with a res None committed(4,5) show ?thesis by (intro disjI2 exI [of _ v]) simp
  next
    case (unknown d1 a d2 e)
    obtain v oid f where a: "a = (v, oid, f)" by (cases a)
    with save_body_outcome [OF ok unknown(3)] unknown(1,2)
    have o: "save_effect coll flag operator traceID (view d) (view d2) v \<or>
        save_dropped coll g view flag operator traceID (view d) (view d2) v" "base d2 = view d" by auto
    have r: "r = Inl FeatureSaveFailed" "job = None" "d' = dx" using res unknown(4) by simp_all
    from unknown(5) show ?thesis
    proof
      assume "view dx = view d2"
      with o(1) r None show ?thesis by (intro disjI2 exI [of _ v]) simp
    qed (use o(2) r in auto)
  qed
qed

section \<open>The table of features as a map\<close>

text \<open>The key of a row up to the collation, and the map from keys to what a reader sees.\<close>

type_synonym feature_id = "string \<times> string \<times> string"

definition row_id :: "(string \<Rightarrow> string) \<Rightarrow> FeatureMaster \<Rightarrow> feature_id" where
  "row_id coll m = (coll (fm_Namespace m), coll (fm_Env m), coll (fm_Key m))"

definition flag_id :: "(string \<Rightarrow> string) \<Rightarrow> FeatureFlag \<Rightarrow> feature_id" where
  "flag_id coll f = (coll (ff_Namespace f), coll (ff_Env f), coll (ff_Key f))"

definition row_value :: "FeatureMaster \<Rightarrow> int \<times> string \<times> string" where
  "row_value m = (fm_Version m, fm_Type m, fm_CurrentVal m)"

definition features :: "(string \<Rightarrow> string) \<Rightarrow> tables \<Rightarrow> feature_id \<Rightarrow> (int \<times> string \<times> string) option" where
  "features coll t = map_of (map (\<lambda>m. (row_id coll m, row_value m)) (tb_masters t))"

text \<open>One row per key, and ids that identify rows: what every save keeps.\<close>

definition rows_wf :: "(string \<Rightarrow> string) \<Rightarrow> tables \<Rightarrow> bool" where
  "rows_wf coll t \<longleftrightarrow> distinct (map (row_id coll) (tb_masters t)) \<and> distinct (map fm_ID (tb_masters t)) \<and>
     (\<forall>m \<in> set (tb_masters t). 0 < fm_ID m)"

lemma same_key_row_id: "same_key coll (ff_Namespace f) (ff_Env f) (ff_Key f) m \<longleftrightarrow> row_id coll m = flag_id coll f"
  by (auto simp: same_key_def row_id_def flag_id_def)

lemma features_row:
  "rows_wf coll t \<Longrightarrow> m \<in> set (tb_masters t) \<Longrightarrow> features coll t (row_id coll m) = Some (row_value m)"
  unfolding features_def rows_wf_def by (intro map_of_is_SomeI) (auto simp: comp_def)

lemma features_no_row:
  "(\<forall>m \<in> set (tb_masters t). row_id coll m \<noteq> k) \<Longrightarrow> features coll t k = None"
  by (auto simp: features_def map_of_eq_None_iff)

lemma features_iff:
  assumes "rows_wf coll t"
  shows "features coll t k = Some val \<longleftrightarrow> (\<exists>m \<in> set (tb_masters t). row_id coll m = k \<and> row_value m = val)"
proof
  assume "features coll t k = Some val"
  then show "\<exists>m \<in> set (tb_masters t). row_id coll m = k \<and> row_value m = val"
    using map_of_SomeD [of _ k val] unfolding features_def by fastforce
qed (use features_row [OF assms] in auto)

lemma map_eqI:
  assumes "\<And>k v. m k = Some v \<longleftrightarrow> m' k = Some v"
  shows "m = m'"
proof
  fix k
  show "m k = m' k" by (metis assms not_None_eq)
qed

lemma put_existing:
  assumes wf: "rows_wf coll t" and m: "m \<in> set (tb_masters t)" and id: "fm_ID m' = fm_ID m"
    and k: "row_id coll m' = row_id coll m"
  shows "rows_wf coll (t\<lparr>tb_masters := put_master m' (tb_masters t)\<rparr>) \<and>
    features coll (t\<lparr>tb_masters := put_master m' (tb_masters t)\<rparr>) = (features coll t)(row_id coll m \<mapsto> row_value m')"
proof -
  let ?ms = "tb_masters t" let ?rep = "\<lambda>x. if fm_ID x = fm_ID m' then m' else x"
  let ?t' = "t\<lparr>tb_masters := map ?rep ?ms\<rparr>"
  have inj: "inj_on fm_ID (set ?ms)" "inj_on (row_id coll) (set ?ms)" using wf by (auto simp: rows_wf_def distinct_map)
  have eq: "x = m" if "x \<in> set ?ms" "fm_ID x = fm_ID m'" for x
    using that m id inj(1) by (auto simp: inj_on_def)
  have put: "put_master m' ?ms = map ?rep ?ms" using m id by (auto simp: put_master_def)
  have same: "row_id coll (?rep x) = row_id coll x" "fm_ID (?rep x) = fm_ID x" if "x \<in> set ?ms" for x
    using eq [OF that] k id by auto
  have maps: "map (row_id coll) (map ?rep ?ms) = map (row_id coll) ?ms" "map fm_ID (map ?rep ?ms) = map fm_ID ?ms"
    using same by simp_all
  have "distinct (map (row_id coll) (map ?rep ?ms)) \<and> distinct (map fm_ID (map ?rep ?ms))"
    unfolding maps using wf by (simp add: rows_wf_def)
  moreover have "\<forall>x \<in> set (map ?rep ?ms). 0 < fm_ID x" using wf m id by (auto simp: rows_wf_def)
  ultimately have wf': "rows_wf coll ?t'" unfolding rows_wf_def by simp
  have mem: "m' \<in> set (tb_masters ?t')" using m id by force
  have "features coll ?t' q = Some v \<longleftrightarrow> ((features coll t)(row_id coll m \<mapsto> row_value m')) q = Some v" for q v
  proof (cases "q = row_id coll m")
    case True
    with features_row [OF wf' mem] k show ?thesis by simp
  next
    case False
    have "(\<exists>y \<in> set (tb_masters ?t'). row_id coll y = q \<and> row_value y = v) \<longleftrightarrow>
        (\<exists>y \<in> set ?ms. row_id coll y = q \<and> row_value y = v)"
      using False same(1) eq k by fastforce
    with False show ?thesis by (simp add: features_iff [OF wf'] features_iff [OF wf])
  qed
  then have "features coll ?t' = (features coll t)(row_id coll m \<mapsto> row_value m')" by (rule map_eqI)
  with wf' show ?thesis by (simp only: put)
qed

lemma put_new:
  assumes wf: "rows_wf coll t" and fresh: "\<forall>x \<in> set (tb_masters t). fm_ID x < fm_ID m'" "0 < fm_ID m'"
    and k: "\<forall>x \<in> set (tb_masters t). row_id coll x \<noteq> row_id coll m'"
  shows "rows_wf coll (t\<lparr>tb_masters := put_master m' (tb_masters t)\<rparr>) \<and>
    features coll (t\<lparr>tb_masters := put_master m' (tb_masters t)\<rparr>) = (features coll t)(row_id coll m' \<mapsto> row_value m')"
proof -
  have "fm_ID m' \<notin> set (map fm_ID (tb_masters t))" using fresh by auto
  then have put: "put_master m' (tb_masters t) = tb_masters t @ [m']" by (simp add: put_master_def)
  have "features coll t (row_id coll m') = None" using k by (intro features_no_row) auto
  then have "features coll (t\<lparr>tb_masters := tb_masters t @ [m']\<rparr>) = (features coll t)(row_id coll m' \<mapsto> row_value m')"
    by (auto simp: features_def fun_eq_iff map_add_def split: option.splits)
  moreover have "rows_wf coll (t\<lparr>tb_masters := tb_masters t @ [m']\<rparr>)"
    using wf fresh k by (fastforce simp: rows_wf_def)
  ultimately show ?thesis by (simp only: put)
qed

lemma features_cong [simp]:
  "features coll (t\<lparr>tb_audits := x\<rparr>) = features coll t" "features coll (t\<lparr>tb_tasks := y\<rparr>) = features coll t"
  "rows_wf coll (t\<lparr>tb_audits := x\<rparr>) = rows_wf coll t" "rows_wf coll (t\<lparr>tb_tasks := y\<rparr>) = rows_wf coll t"
  by (simp_all add: features_def rows_wf_def)

lemma save_effect_refines:
  assumes wf: "rows_wf coll t" and eff: "save_effect coll f operator traceID t t' v"
    and ne: "ff_Namespace f \<noteq> []" "ff_Env f \<noteq> []"
  shows "rows_wf coll t' \<and> features coll t' = (features coll t)(flag_id coll f \<mapsto> (v, ff_Type f, ff_Value f)) \<and>
    v = (case features coll t (flag_id coll f) of None \<Rightarrow> 1 | Some (n, _, _) \<Rightarrow> wrap64 (n + 1))"
proof -
  obtain m where m: "found_master coll f t m" "rows_effect f operator traceID m t t'"
    "v = fm_Version (fst (next_master f m))" using eff by (auto simp: save_effect_def)
  obtain master old where nm: "next_master f m = (master, old)" by (rule prod.exhaust)
  obtain m' a k where e: "found_master coll f t m" "next_master f m = (master, old)"
    "v = fm_Version master" "stored_master (tb_masters t) master m'"
    "t' = t\<lparr>tb_masters := put_master m' (tb_masters t), tb_audits := tb_audits t @ [a], tb_tasks := tb_tasks t @ [k]\<rparr>"
    using m(2) unfolding rows_effect_def nm using m(1,3) nm by auto
  show ?thesis
  proof (cases m)
    case None
    with e have n: "\<forall>x \<in> set (tb_masters t). row_id coll x \<noteq> flag_id coll f"
      by (simp add: found_master_def same_key_row_id)
    from None e(2-4) ne have "row_id coll m' = flag_id coll f" "row_value m' = (v, ff_Type f, ff_Value f)" "v = 1"
      "0 < fm_ID m'" "\<forall>x \<in> set (tb_masters t). fm_ID x < fm_ID m'"
      by (auto simp: next_master_def stored_master_def zero_master_def row_id_def flag_id_def row_value_def)
    with put_new [OF wf, of m'] n e(5) features_no_row [OF n] show ?thesis by simp
  next
    case (Some x)
    with e(1) have x: "x \<in> set (tb_masters t)" "row_id coll x = flag_id coll f"
      by (simp_all add: found_master_def same_key_row_id)
    with wf have pos: "0 < fm_ID x" by (auto simp: rows_wf_def)
    from Some e(2-4) pos have "row_id coll m' = row_id coll x" "fm_ID m' = fm_ID x"
      "row_value m' = (v, ff_Type f, ff_Value f)" "v = wrap64 (fm_Version x + 1)"
      by (auto simp: next_master_def stored_master_def row_id_def row_value_def)
    with put_existing [OF wf x(1), of m'] x(2) e(5) features_row [OF wf x(1)] show ?thesis
      by (simp add: row_value_def)
  qed
qed

lemma dropped_refines:
  assumes wf: "rows_wf coll t" and eff: "save_dropped coll g view f operator traceID t t' v"
  shows "rows_wf coll t' \<and> features coll t' = features coll t \<and>
    v = (case features coll t (flag_id coll f) of None \<Rightarrow> 1 | Some (n, _, _) \<Rightarrow> wrap64 (n + 1))"
proof -
  obtain m where m: "found_master coll f t m" "rows_dropped f operator traceID m t t'"
    "v = fm_Version (fst (next_master f m))" using eff by (auto simp: save_dropped_def)
  then have "rows_wf coll t' \<and> features coll t' = features coll t" using wf
    by (cases "next_master f m") (auto simp: rows_dropped_def)
  moreover have "v = (case features coll t (flag_id coll f) of None \<Rightarrow> 1 | Some (n, _, _) \<Rightarrow> wrap64 (n + 1))"
  proof (cases m)
    case None
    with m(1) have "\<forall>x \<in> set (tb_masters t). row_id coll x \<noteq> flag_id coll f"
      by (simp add: found_master_def same_key_row_id)
    with None m(3) features_no_row show ?thesis by (simp add: next_master_def zero_master_def)
  next
    case (Some x)
    with m(1) have "x \<in> set (tb_masters t)" "row_id coll x = flag_id coll f"
      by (simp_all add: found_master_def same_key_row_id)
    with Some m(3) features_row [OF wf, of x] show ?thesis by (simp add: next_master_def row_value_def)
  qed
  ultimately show ?thesis by blast
qed

text \<open>
  In some state of the tables with this map, the database refuses the write of a row with this
  key, version, type and value.
\<close>

definition key_write_fails ::
  "(string \<Rightarrow> string) \<Rightarrow> 'd gorm \<Rightarrow> ('d \<Rightarrow> tables) \<Rightarrow> (feature_id \<Rightarrow> (int \<times> string \<times> string) option) \<Rightarrow>
     feature_id \<Rightarrow> int \<times> string \<times> string \<Rightarrow> bool" where
  "key_write_fails coll g view m k val \<longleftrightarrow>
     (\<exists>x t. features coll t = m \<and> row_id coll x = k \<and> row_value x = val \<and> write_fails g view x t)"

lemma dropped_fails:
  assumes "save_dropped coll g view f operator traceID t t' v"
  shows "key_write_fails coll g view (features coll t) (flag_id coll f) (v, ff_Type f, ff_Value f)"
proof -
  obtain m where m: "found_master coll f t m" "v = fm_Version (fst (next_master f m))"
    "write_fails g view (fst (next_master f m)) t" using assms by (auto simp: save_dropped_def)
  have "row_id coll (fst (next_master f m)) = flag_id coll f" using m(1)
    by (cases m) (auto simp: next_master_def row_id_def flag_id_def found_master_def same_key_row_id zero_master_def)
  moreover have "row_value (fst (next_master f m)) = (v, ff_Type f, ff_Value f)" using m(2)
    by (cases m) (auto simp: next_master_def row_value_def zero_master_def)
  ultimately show ?thesis using m(3) unfolding key_write_fails_def by blast
qed

lemma save_refines:
  assumes wf: "rows_wf coll t" and ne: "ff_Namespace f \<noteq> []" "ff_Env f \<noteq> []"
    and eff: "save_effect coll f operator traceID t t' v \<or> save_dropped coll g view f operator traceID t t' v"
  shows "rows_wf coll t' \<and>
    (features coll t' = (features coll t)(flag_id coll f \<mapsto> (v, ff_Type f, ff_Value f)) \<or>
     key_write_fails coll g view (features coll t) (flag_id coll f) (v, ff_Type f, ff_Value f) \<and> features coll t' = features coll t) \<and>
    v = (case features coll t (flag_id coll f) of None \<Rightarrow> 1 | Some (n, _, _) \<Rightarrow> wrap64 (n + 1))"
  using eff
proof
  assume "save_effect coll f operator traceID t t' v"
  from save_effect_refines [OF wf this ne] show ?thesis by blast
next
  assume d: "save_dropped coll g view f operator traceID t t' v"
  from dropped_refines [OF wf d] dropped_fails [OF d] show ?thesis by blast
qed

text \<open>The audit record a save leaves, whether the master record was written or not.\<close>

lemma save_audits:
  assumes wf: "rows_wf coll t" and ne: "ff_Namespace f \<noteq> []" "ff_Env f \<noteq> []"
    and eff: "save_effect coll f operator traceID t t' v \<or> save_dropped coll g view f operator traceID t t' v"
  shows "\<exists>a. tb_audits t' = tb_audits t @ [a] \<and> (\<forall>x \<in> set (tb_audits t). fa_ID x < fa_ID a) \<and>
    fa_Namespace a = ff_Namespace f \<and> fa_Env a = ff_Env f \<and> fa_Key a = ff_Key f \<and> fa_Type a = ff_Type f \<and>
    fa_NewValue a = ff_Value f \<and>
    fa_OldValue a = (case features coll t (flag_id coll f) of None \<Rightarrow> [] | Some (_, _, old) \<Rightarrow> old)"
proof -
  obtain m where m: "found_master coll f t m"
    "rows_effect f operator traceID m t t' \<or> rows_dropped f operator traceID m t t'"
    using eff unfolding save_effect_def save_dropped_def by blast
  obtain master old where nm: "next_master f m = (master, old)" by (rule prod.exhaust)
  obtain a where a: "stored_audit (tb_audits t) (new_audit f old operator traceID) a" "tb_audits t' = tb_audits t @ [a]"
    using m(2) by (auto simp: rows_effect_def rows_dropped_def nm)
  have "old = (case features coll t (flag_id coll f) of None \<Rightarrow> [] | Some (_, _, old) \<Rightarrow> old)"
  proof (cases m)
    case None
    with m(1) have "\<forall>x \<in> set (tb_masters t). row_id coll x \<noteq> flag_id coll f"
      by (simp add: found_master_def same_key_row_id)
    with None nm features_no_row show ?thesis by (simp add: next_master_def)
  next
    case (Some x)
    with m(1) have "x \<in> set (tb_masters t)" "row_id coll x = flag_id coll f"
      by (simp_all add: found_master_def same_key_row_id)
    with Some nm features_row [OF wf, of x] show ?thesis by (simp add: next_master_def row_value_def)
  qed
  with a ne show ?thesis by (intro exI [of _ a]) (simp add: stored_audit_def new_audit_def)
qed

section \<open>Rolling back\<close>

lemma RollbackFeature_outcome:
  assumes ok: "db_ok coll g view base"
    and run: "RollbackFeature g namespace env key auditID operator traceID d = (r, job, d')"
  shows "(\<exists>e. r = Inl e \<and> job = None \<and> view d' = view d) \<or>
    (\<exists>a \<in> set (tb_audits (view d)). \<exists>v fl.
       fa_ID a = auditID \<and> fa_Key a = key \<and> fa_Env a = env \<and> fa_Namespace a = namespace \<and>
       ff_Namespace fl = namespace \<and> ff_Env fl = env \<and> ff_Key fl = key \<and> ff_Value fl = fa_OldValue a \<and> ff_Type fl = fa_Type a \<and>
       validatePayload (ff_Type fl) (ff_Value fl) = None \<and>
       (save_effect coll fl operator traceID (view d) (view d') v \<or>
        save_dropped coll g view fl operator traceID (view d) (view d') v) \<and> (r = Inr v \<or> r = Inl FeatureSaveFailed \<and> job = None))"
proof -
  obtain ra d1 where a: "go_FirstAudit g (where_q [IdIs auditID]) d = (ra, d1)" by (rule prod.exhaust)
  note A = db_first_audit [OF ok a]
  obtain rm d2 where m: "GetByKey g namespace env key d1 = (rm, d2)" by (rule prod.exhaust)
  note M = GetByKey_ok [OF ok m]
  show ?thesis
  proof (cases "\<exists>au om. ra = Inr au \<and> fa_Key au = key \<and> fa_Env au = env \<and> fa_Namespace au = namespace \<and> rm = Inr om")
    case False
    with run a m A M show ?thesis
      by (auto simp: RollbackFeature_def FindByID_def split: sum.splits if_splits)
  next
    case True
    then obtain au om where t: "ra = Inr au" "fa_Key au = key" "fa_Env au = env" "fa_Namespace au = namespace" "rm = Inr om"
      by blast
    let ?fl = "zero_flag\<lparr>ff_Namespace := namespace, ff_Env := env, ff_Key := key, ff_Value := fa_OldValue au,
      ff_Type := fa_Type au, ff_Version := case om of None \<Rightarrow> 0 | Some m \<Rightarrow> fm_Version m\<rparr>"
    have sv: "SaveFeature g ?fl operator traceID d2 = (r, job, d')"
      using run a m t by (simp add: RollbackFeature_def FindByID_def)
    have aud: "au \<in> set (tb_audits (view d))" "fa_ID au = auditID" "view d2 = view d"
      using A M t by (auto simp: where_q_def)
    consider (same) e where "r = Inl e" "job = None" "view d' = view d"
      | (saved) v where "save_effect coll ?fl operator traceID (view d) (view d') v \<or>
          save_dropped coll g view ?fl operator traceID (view d) (view d') v"
          "validatePayload (fa_Type au) (fa_OldValue au) = None" "r = Inr v \<or> r = Inl FeatureSaveFailed \<and> job = None"
      using SaveFeature_outcome [OF ok sv] unfolding aud(3) by (simp, blast)
    then show ?thesis
    proof cases
      case (saved v)
      then show ?thesis using aud t by (intro disjI2 bexI [of _ au] exI [of _ v] exI [of _ ?fl]) simp_all
    qed blast
  qed
qed

section \<open>The watcher\<close>

definition event_message :: "int \<Rightarrow> watch_event \<Rightarrow> Message option" where
  "event_message now ev =
     (if we_Delete ev then Some (delete_message now (we_Kv ev))
      else map_option (\<lambda>flag. put_message now flag (we_Kv ev)) (unmarshal_flag (kv_Value (we_Kv ev))))"

definition cache_event :: "watch_event \<Rightarrow> FeatureCache \<Rightarrow> FeatureCache" where
  "cache_event ev cache =
     (if we_Delete ev then cache_Delete (kv_Key (we_Kv ev)) (kv_ModRevision (we_Kv ev)) cache
      else case unmarshal_flag (kv_Value (we_Kv ev)) of None \<Rightarrow> cache | Some flag \<Rightarrow> cache_Update flag cache)"

definition event_messages :: "int \<Rightarrow> watch_event list \<Rightarrow> Message list" where
  "event_messages now evs = List.map_filter (event_message now) evs"

lemma event_message_revision: "event_message now ev = Some m \<Longrightarrow> msg_Revision m = kv_ModRevision (we_Kv ev)"
  by (auto simp: event_message_def delete_message_def put_message_def split: if_splits prod.splits)

lemma handle_event_spec:
  assumes "rb_inv (sv_buffer s)"
  shows "\<exists>b. handle_event now ev s = Some (event_message now ev, s\<lparr>sv_buffer := b, sv_cache := cache_event ev (sv_cache s)\<rparr>) \<and>
    rb_inv b \<and> fold_opt AddMessage (case event_message now ev of None \<Rightarrow> [] | Some m \<Rightarrow> [m]) (sv_buffer s) = Some b"
proof -
  have add: "\<exists>b. AddMessage m (sv_buffer s) = Some b \<and> rb_inv b" for m
    using ring.add_ok [OF assms, of m] by auto
  show ?thesis
  proof (cases "event_message now ev")
    case None
    then show ?thesis using assms
      by (auto simp: handle_event_def event_message_def cache_event_def Let_def split: if_splits option.splits)
  next
    case (Some m)
    with add [of m] show ?thesis
      by (auto simp: handle_event_def event_message_def cache_event_def Let_def split: if_splits option.splits)
  qed
qed

lemma handle_events_spec:
  "rb_inv (sv_buffer s) \<Longrightarrow>
   \<exists>s'. handle_events now evs s = Some (event_messages now evs, s') \<and> rb_inv (sv_buffer s') \<and>
     fold_opt AddMessage (event_messages now evs) (sv_buffer s) = Some (sv_buffer s') \<and>
     sv_cache s' = fold cache_event evs (sv_cache s)"
proof (induction evs arbitrary: s)
  case (Cons ev evs)
  from handle_event_spec [OF Cons.prems, of now ev] obtain b where
    b: "handle_event now ev s = Some (event_message now ev, s\<lparr>sv_buffer := b, sv_cache := cache_event ev (sv_cache s)\<rparr>)"
      "rb_inv b" "fold_opt AddMessage (case event_message now ev of None \<Rightarrow> [] | Some m \<Rightarrow> [m]) (sv_buffer s) = Some b"
    by blast
  let ?s1 = "s\<lparr>sv_buffer := b, sv_cache := cache_event ev (sv_cache s)\<rparr>"
  from Cons.IH [of ?s1] b(2) obtain s' where s': "handle_events now evs ?s1 = Some (event_messages now evs, s')"
    "rb_inv (sv_buffer s')" "fold_opt AddMessage (event_messages now evs) b = Some (sv_buffer s')"
    "sv_cache s' = fold cache_event evs (cache_event ev (sv_cache s))" by auto
  show ?case using b s'
    by (cases "event_message now ev") (auto simp: event_messages_def map_filter_simps split: option.splits)
qed (simp add: event_messages_def map_filter_simps)

lemma event_messages_increasing:
  "sorted_wrt (\<lambda>a b. kv_ModRevision (we_Kv a) < kv_ModRevision (we_Kv b)) evs \<Longrightarrow> increasing (event_messages now evs)"
proof (induction evs)
  case (Cons ev evs)
  have "kv_ModRevision (we_Kv ev) < msg_Revision m" if "m \<in> set (event_messages now evs)" for m
    using that Cons.prems event_message_revision
    by (fastforce simp: event_messages_def map_filter_def split: option.splits)
  with Cons show ?case
    by (auto simp: event_messages_def map_filter_simps increasing_def dest: event_message_revision split: option.splits)
qed (simp add: event_messages_def map_filter_simps increasing_def)

text \<open>The last flag of a key, in a list of flags.\<close>

definition last_flag :: "FeatureFlag list \<Rightarrow> string \<Rightarrow> FeatureFlag option" where
  "last_flag fs k = find (\<lambda>f. ff_Key f = k) (rev fs)"

lemma last_flag_snoc: "last_flag (fs @ [f]) k = (if ff_Key f = k then Some f else last_flag fs k)"
  by (simp add: last_flag_def)

lemma fold_cache_Update:
  "gm_get (fc_data (fold cache_Update fs c)) k = (case last_flag fs k of Some f \<Rightarrow> Some f | None \<Rightarrow> gm_get (fc_data c) k) \<and>
   (cache_inv c \<longrightarrow> cache_inv (fold cache_Update fs c))"
  by (induction fs arbitrary: c rule: rev_induct)
     (auto simp: last_flag_snoc last_flag_def cache_inv_Update)

lemma snapshot_entry_fold:
  "fold snapshot_entry kvs c =
     fold cache_Update (List.map_filter (\<lambda>kv. map_option (\<lambda>f. f\<lparr>ff_Revision := kv_ModRevision kv\<rparr>) (unmarshal_flag (kv_Value kv))) kvs) c"
  by (induction kvs arbitrary: c) (auto simp: snapshot_entry_def map_filter_simps split: option.splits)

lemma BuildFeatureKey_longer: "BuildFeatureKey env ns key \<noteq> key"
proof
  assume "BuildFeatureKey env ns key = key"
  from arg_cong [OF this, of length] show False by (simp add: BuildFeatureKey_def FeatureRootPrefix_def)
qed

lemma watch_loop_spec:
  "rb_inv (sv_buffer s) \<Longrightarrow> \<forall>(now, w) \<in> set ws. \<not> wr_Canceled w \<Longrightarrow>
   \<exists>s'. watch_loop ws s = Some (True, concat (map (\<lambda>(now, w). event_messages now (wr_Events w)) ws), s') \<and>
     rb_inv (sv_buffer s') \<and>
     fold_opt AddMessage (concat (map (\<lambda>(now, w). event_messages now (wr_Events w)) ws)) (sv_buffer s) = Some (sv_buffer s') \<and>
     sv_cache s' = fold cache_event (concat (map (\<lambda>(now, w). wr_Events w) ws)) (sv_cache s)"
proof (induction ws arbitrary: s)
  case (Cons x ws)
  obtain now w where x: "x = (now, w)" by (cases x)
  from handle_events_spec [OF Cons.prems(1), of now "wr_Events w"] obtain s1 where
    s1: "handle_events now (wr_Events w) s = Some (event_messages now (wr_Events w), s1)" "rb_inv (sv_buffer s1)"
      "fold_opt AddMessage (event_messages now (wr_Events w)) (sv_buffer s) = Some (sv_buffer s1)"
      "sv_cache s1 = fold cache_event (wr_Events w) (sv_cache s)" by blast
  from Cons.prems(2) x have nc: "\<not> wr_Canceled w" by simp
  from Cons.IH [OF s1(2)] Cons.prems(2) obtain s' where
    s': "watch_loop ws s1 = Some (True, concat (map (\<lambda>(now, w). event_messages now (wr_Events w)) ws), s')"
      "rb_inv (sv_buffer s')"
      "fold_opt AddMessage (concat (map (\<lambda>(now, w). event_messages now (wr_Events w)) ws)) (sv_buffer s1) = Some (sv_buffer s')"
      "sv_cache s' = fold cache_event (concat (map (\<lambda>(now, w). wr_Events w) ws)) (sv_cache s1)" by auto
  show ?case using x nc s1 s' by (simp add: handle_response_def fold_opt_append)
qed simp

text \<open>Messages of several responses, in the order of their revisions.\<close>

lemma increasing_append:
  "increasing (xs @ ys) \<longleftrightarrow> increasing xs \<and> increasing ys \<and> (\<forall>x \<in> set xs. \<forall>y \<in> set ys. msg_Revision x < msg_Revision y)"
  by (auto simp: increasing_def sorted_wrt_append)

lemma event_messages_revisions:
  "m \<in> set (event_messages now evs) \<Longrightarrow> \<exists>ev \<in> set evs. msg_Revision m = kv_ModRevision (we_Kv ev)"
  using event_message_revision by (fastforce simp: event_messages_def map_filter_def split: option.splits)

lemma loop_messages_increasing:
  "sorted_wrt (\<lambda>a b. kv_ModRevision (we_Kv a) < kv_ModRevision (we_Kv b)) (concat (map (\<lambda>(now, w). wr_Events w) ws)) \<Longrightarrow>
   increasing (concat (map (\<lambda>(now, w). event_messages now (wr_Events w)) ws))"
proof (induction ws)
  case (Cons x ws)
  obtain now w where x: "x = (now, w)" by (cases x)
  have "msg_Revision m < msg_Revision m'" if m: "m \<in> set (event_messages now (wr_Events w))"
    "m' \<in> set (concat (map (\<lambda>(now, w). event_messages now (wr_Events w)) ws))" for m m'
  proof -
    from m(1) obtain ev where ev: "ev \<in> set (wr_Events w)" "msg_Revision m = kv_ModRevision (we_Kv ev)"
      using event_messages_revisions by blast
    from m(2) obtain now' w' where w': "(now', w') \<in> set ws" "m' \<in> set (event_messages now' (wr_Events w'))" by auto
    then obtain ev' where ev': "ev' \<in> set (wr_Events w')" "msg_Revision m' = kv_ModRevision (we_Kv ev')"
      using event_messages_revisions by blast
    have "\<forall>a \<in> set (wr_Events w). \<forall>b \<in> set (concat (map (\<lambda>(now, w). wr_Events w) ws)).
        kv_ModRevision (we_Kv a) < kv_ModRevision (we_Kv b)"
      using Cons.prems unfolding x list.map concat.simps case_prod_conv sorted_wrt_append by blast
    moreover have "ev' \<in> set (concat (map (\<lambda>(now, w). wr_Events w) ws))" using w'(1) ev'(1) by auto
    ultimately have "kv_ModRevision (we_Kv ev) < kv_ModRevision (we_Kv ev')" using ev(1) by blast
    then show ?thesis using ev(2) ev'(2) by simp
  qed
  moreover have "increasing (event_messages now (wr_Events w))"
    using Cons.prems x by (intro event_messages_increasing) (simp add: sorted_wrt_append)
  ultimately show ?case using Cons x by (simp add: increasing_append sorted_wrt_append)
qed (simp add: increasing_def)

section \<open>Properties\<close>

text \<open>
  C24. Saving a flag is all or nothing, but for one write. Either nothing changed, an error is
  returned and no push to etcd was started; or the payload was valid and the master record,
  one audit record and one pending outbox task were written together; or, when the
  database refused the write of the master record, the audit record and the outbox task
  were written together without it, since the code drops that error. In both of the last
  two cases success reports the version the master record has or was to have and starts
  the push of exactly that version; the one other answer is the error of a commit whose
  outcome the caller cannot know.
\<close>

theorem save_feature_atomic:
  assumes "db_ok coll g view base" "SaveFeature g flag operator traceID d = (r, job, d')"
  shows "(\<exists>e. r = Inl e \<and> job = None \<and> view d' = view d) \<or>
    (\<exists>v. (save_effect coll flag operator traceID (view d) (view d') v \<or>
          save_dropped coll g view flag operator traceID (view d) (view d') v) \<and>
       validatePayload (ff_Type flag) (ff_Value flag) = None \<and>
       (r = Inr v \<and> (\<exists>oid. job = Some (oid, flag\<lparr>ff_Version := v\<rparr>)) \<or> r = Inl FeatureSaveFailed \<and> job = None))"
  using assms by (rule SaveFeature_outcome)

lemma mem_master_writes: "master_writes (mem_gorm coll)"
  by (simp add: master_writes_def mem_gorm_def mem_save_master_def Let_def)

definition flag_of :: "string \<Rightarrow> FeatureFlag" where
  "flag_of v = zero_flag\<lparr>ff_Namespace := ''a'', ff_Env := ''prod'', ff_Key := ''k'', ff_Value := v, ff_Type := ''string''\<rparr>"

lemma validate_flag_of [simp]: "validatePayload ''string'' v = None"
  by (simp add: validatePayload_def type_defs)

lemmas mem_run_defs = SaveFeature_def Transaction_def save_body_def save_rows_def GetByKey_def SaveMaster_def
  CreateAudit_def CreateTask_def mem_gorm_def mem_first_def mem_save_master_def mem_create_audit_def
  mem_create_task_def where_q_def next_master_def put_master_def next_id_def int64_max_def Let_def

lemma sample_save:
  "\<exists>job d'. SaveFeature (mem_gorm id) (flag_of v) ''op'' [] sample_db = (Inr 4, job, d') \<and>
     map fm_CurrentVal (tb_masters (md_tables d')) = [v]"
  by (simp add: mem_run_defs flag_of_def sample_defs zero_flag_def is_int64_small)

lemma sample_rows_wf: "rows_wf id (md_tables sample_db)"
  by (simp add: rows_wf_def sample_defs Let_def row_id_def)

theorem save_feature_atomic_witness:
  "\<exists>job d'. SaveFeature (mem_gorm id) (flag_of ''v4'') ''op'' [] sample_db = (Inr 4, job, d') \<and>
     save_effect id (flag_of ''v4'') ''op'' [] (md_tables sample_db) (md_tables d') 4"
proof -
  obtain job d' where run: "SaveFeature (mem_gorm id) (flag_of ''v4'') ''op'' [] sample_db = (Inr 4, job, d')"
    using sample_save by blast
  from save_feature_atomic [OF mem_db_ok run] run not_dropped [OF mem_master_writes] show ?thesis by auto
qed

text \<open>
  C12. A successful save refines the update of a map. For a flag with a namespace and an
  environment, and tables with one row per key and rows identified by their ids, the tables
  are so afterwards; the version answered is 1 for a new key and the old version plus one
  otherwise; and the map from keys (up to the collation) to version, type and value changes
  exactly at the flag's key, to that version and the flag's type and value, or not at all: the
  latter only if the database refuses the write of a row of this key, version, type and
  value in tables with this map, an error the code drops.
\<close>

theorem save_feature_refines_map:
  assumes "db_ok coll g view base" "rows_wf coll (view d)"
    and "ff_Namespace f \<noteq> []" "ff_Env f \<noteq> []"
    and "SaveFeature g f operator traceID d = (Inr v, job, d')"
  shows "rows_wf coll (view d') \<and>
    (features coll (view d') = (features coll (view d))(flag_id coll f \<mapsto> (v, ff_Type f, ff_Value f)) \<or>
     key_write_fails coll g view (features coll (view d)) (flag_id coll f) (v, ff_Type f, ff_Value f) \<and>
       features coll (view d') = features coll (view d)) \<and>
    v = (case features coll (view d) (flag_id coll f) of None \<Rightarrow> 1 | Some (n, _, _) \<Rightarrow> wrap64 (n + 1))"
proof -
  have "save_effect coll f operator traceID (view d) (view d') v \<or>
      save_dropped coll g view f operator traceID (view d) (view d') v"
    using SaveFeature_outcome [OF assms(1,5)] by auto
  from save_refines [OF assms(2-4) this] show ?thesis .
qed

lemma no_write_fails: "master_writes g \<Longrightarrow> \<not> key_write_fails coll g view m k val"
  unfolding master_writes_def key_write_fails_def write_fails_def by (metis fst_conv is_ok.simps(1))

theorem save_feature_refines_map_witness:
  "\<exists>job d'. SaveFeature (mem_gorm id) (flag_of ''v4'') ''op'' [] sample_db = (Inr 4, job, d') \<and>
     features id (md_tables d') (''a'', ''prod'', ''k'') = Some (4, ''string'', ''v4'')"
proof -
  obtain job d' where run: "SaveFeature (mem_gorm id) (flag_of ''v4'') ''op'' [] sample_db = (Inr 4, job, d')"
    using sample_save by blast
  have "ff_Namespace (flag_of ''v4'') \<noteq> []" "ff_Env (flag_of ''v4'') \<noteq> []" by (simp_all add: flag_of_def)
  from save_feature_refines_map [OF mem_db_ok sample_rows_wf this run] run
  show ?thesis using no_write_fails [OF mem_master_writes] by (auto simp: flag_id_def flag_of_def id_def)
qed

text \<open>
  A successful rollback restores the audit record's old value, in a database that does not
  refuse the write of the master record: the record has the id
  asked for and belongs to exactly this namespace, environment and key, and the feature
  now has its type and old value, under a new version, while every other feature is as it
  was.
\<close>

theorem rollback_restores:
  assumes "db_ok coll g view base" "master_writes g" "rows_wf coll (view d)" "namespace \<noteq> []" "env \<noteq> []"
    and "RollbackFeature g namespace env key auditID operator traceID d = (Inr v, job, d')"
  shows "\<exists>a \<in> set (tb_audits (view d)). fa_ID a = auditID \<and> fa_Key a = key \<and> fa_Env a = env \<and> fa_Namespace a = namespace \<and>
    features coll (view d') =
      (features coll (view d))((coll namespace, coll env, coll key) \<mapsto> (v, fa_Type a, fa_OldValue a))"
proof -
  obtain a v' fl where a: "a \<in> set (tb_audits (view d))" "fa_ID a = auditID" "fa_Key a = key" "fa_Env a = env"
    "fa_Namespace a = namespace" "ff_Namespace fl = namespace" "ff_Env fl = env" "ff_Key fl = key"
    "ff_Value fl = fa_OldValue a" "ff_Type fl = fa_Type a" "save_effect coll fl operator traceID (view d) (view d') v'"
    "v' = v"
    using RollbackFeature_outcome [OF assms(1,6)] not_dropped [OF assms(2)] by auto
  from save_effect_refines [OF assms(3) a(11)] assms(4,5) a show ?thesis
    by (intro bexI [of _ a]) (simp_all add: flag_id_def)
qed

theorem rollback_restores_witness:
  "\<exists>job d'. RollbackFeature (mem_gorm id) ''a'' ''prod'' ''k'' 5 ''op'' [] sample_db = (Inr 4, job, d') \<and>
     features id (md_tables d') (''a'', ''prod'', ''k'') = Some (4, ''string'', ''v1'')"
proof -
  have "\<exists>job d'. RollbackFeature (mem_gorm id) ''a'' ''prod'' ''k'' 5 ''op'' [] sample_db = (Inr 4, job, d')"
    by (simp add: RollbackFeature_def FindByID_def mem_run_defs sample_defs zero_flag_def is_int64_small)
  then obtain job d' where run: "RollbackFeature (mem_gorm id) ''a'' ''prod'' ''k'' 5 ''op'' [] sample_db = (Inr 4, job, d')"
    by blast
  from rollback_restores [OF mem_db_ok mem_master_writes sample_rows_wf _ _ run] run show ?thesis
    by (auto simp: sample_db_def sample_audit_def Let_def id_def)
qed

text \<open>
  C25. The watcher feeds the replay: for events in the order of their revisions, the watch
  loop does not panic, the messages it hands to the hub are those of the events in order,
  and a client's request for the changes since a revision is answered from the last
  thousand of them as the specification of the log says.
\<close>

theorem watch_feeds_replay:
  assumes "sorted_wrt (\<lambda>a b. kv_ModRevision (we_Kv a) < kv_ModRevision (we_Kv b)) (concat (map (\<lambda>(now, w). wr_Events w) ws))"
    and "\<forall>(now, w) \<in> set ws. \<not> wr_Canceled w" "sv_buffer s = NewRevisionBuffer 1000"
  shows "\<exists>s'. watch_loop ws s = Some (True, concat (map (\<lambda>(now, w). event_messages now (wr_Events w)) ws), s') \<and>
    (\<forall>r. GetCompensation r s' =
       Some (since_spec (last_n 1000 (concat (map (\<lambda>(now, w). event_messages now (wr_Events w)) ws))) r))"
proof -
  let ?ms = "concat (map (\<lambda>(now, w). event_messages now (wr_Events w)) ws)"
  have inv: "rb_inv (sv_buffer s)" using assms(3) rb_inv_new by simp
  from watch_loop_spec [OF inv assms(2)] obtain s' where s': "watch_loop ws s = Some (True, ?ms, s')"
    "rb_inv (sv_buffer s')" "fold_opt AddMessage ?ms (sv_buffer s) = Some (sv_buffer s')" by blast
  have "rb_log (sv_buffer s') = last_n 1000 ?ms"
    using ring.add_all_SomeD(3) [OF inv s'(3)] assms(3) by (simp add: rb_size_new)
  with loop_messages_increasing [OF assms(1)] GetSince_spec [OF s'(2)] ring.increasing_last_n s'(1)
  show ?thesis unfolding GetCompensation_def by metis
qed

definition put_event :: "string \<Rightarrow> FeatureFlag \<Rightarrow> int \<Rightarrow> watch_event" where
  "put_event k f r = \<lparr>we_Delete = False, we_Kv = \<lparr>kv_Key = k, kv_Value = ToJSON f, kv_CreateRevision = r, kv_ModRevision = r\<rparr>\<rparr>"

definition flag_key :: string where "flag_key = BuildFeatureKey ''prod'' ''a'' ''k''"

lemma flag_of_json: "is_ascii v \<Longrightarrow> unmarshal_flag (ToJSON (flag_of v)) = Some (flag_of v)"
  by (subst unmarshal_ToJSON)
     (simp_all add: flag_of_def flag_ints_def flag_utf8_def zero_flag_def is_int64_small ascii_valid is_ascii_def)

theorem watch_feeds_replay_witness:
  "\<exists>s'. watch_loop [(7, \<lparr>wr_Canceled = False, wr_Events = [put_event flag_key (flag_of ''x'') 5, put_event flag_key (flag_of ''y'') 6]\<rparr>)]
      NewFeatureService = Some (True, [put_message 7 (flag_of ''x'') (we_Kv (put_event flag_key (flag_of ''x'') 5)),
        put_message 7 (flag_of ''y'') (we_Kv (put_event flag_key (flag_of ''y'') 6))], s') \<and>
    GetCompensation 5 s' = Some ([put_message 7 (flag_of ''y'') (we_Kv (put_event flag_key (flag_of ''y'') 6))], True)"
proof -
  let ?ws = "[(7, \<lparr>wr_Canceled = False, wr_Events = [put_event flag_key (flag_of ''x'') 5, put_event flag_key (flag_of ''y'') 6]\<rparr>)] :: (int \<times> watch_response) list"
  have a: "is_ascii ''x''" "is_ascii ''y''" by (simp_all add: is_ascii_def)
  have ms: "concat (map (\<lambda>(now, w). event_messages now (wr_Events w)) ?ws) =
      [put_message 7 (flag_of ''x'') (we_Kv (put_event flag_key (flag_of ''x'') 5)),
        put_message 7 (flag_of ''y'') (we_Kv (put_event flag_key (flag_of ''y'') 6))]"
    using a by (simp add: event_messages_def map_filter_simps event_message_def put_event_def flag_of_json)
  have "sorted_wrt (\<lambda>a b. kv_ModRevision (we_Kv a) < kv_ModRevision (we_Kv b)) (concat (map (\<lambda>(now, w). wr_Events w) ?ws))"
    by (simp add: put_event_def)
  from watch_feeds_replay [OF this, of NewFeatureService] show ?thesis unfolding ms
    by (auto simp: NewFeatureService_def since_spec_def last_n_def put_message_def put_event_def)
qed

text \<open>
  The snapshot follows the puts: after the initial load and any put events, in
  whatever order the map is ranged over, the snapshot served is the set of the last flags
  stored under each flag key.
\<close>

theorem snapshot_follows_puts:
  assumes "GetWithRevision c FeatureRootPrefix es = (Inr (kvs, rev0), es1)"
    and "run_init c NewFeatureService es = (Some (s, wrev), es1)"
    and "\<forall>ev \<in> set evs. \<not> we_Delete ev" "handle_events now evs s = Some (ms, s')" "iteration_order ord"
  shows "set (fst (GetAllFeatures ord s')) = {f. \<exists>k. last_flag
      (List.map_filter (\<lambda>kv. map_option (\<lambda>f. f\<lparr>ff_Revision := kv_ModRevision kv\<rparr>) (unmarshal_flag (kv_Value kv))) kvs @
       List.map_filter (\<lambda>ev. unmarshal_flag (kv_Value (we_Kv ev))) evs) k = Some f}"
proof -
  let ?fs = "List.map_filter (\<lambda>kv. map_option (\<lambda>f. f\<lparr>ff_Revision := kv_ModRevision kv\<rparr>) (unmarshal_flag (kv_Value kv))) kvs"
  let ?gs = "List.map_filter (\<lambda>ev. unmarshal_flag (kv_Value (we_Kv ev))) evs"
  have s: "sv_cache s = fold cache_Update ?fs NewFeatureCache" "sv_buffer s = NewRevisionBuffer 1000"
    using assms(1,2) by (auto simp: run_init_def NewFeatureService_def snapshot_entry_fold)
  have "fold cache_event evs c = fold cache_Update ?gs c" for c
    using assms(3) by (induction evs arbitrary: c) (auto simp: cache_event_def map_filter_simps split: option.splits)
  moreover obtain s1 where "handle_events now evs s = Some (event_messages now evs, s1)"
    "sv_cache s1 = fold cache_event evs (sv_cache s)"
    using handle_events_spec [of s now evs] s(2) rb_inv_new by auto
  ultimately have c: "sv_cache s' = fold cache_Update (?fs @ ?gs) NewFeatureCache" using assms(4) s(1) by simp
  have inv: "cache_inv (sv_cache s')" unfolding c using fold_cache_Update cache_inv_new by blast
  have get: "gm_get (fc_data (sv_cache s')) k = last_flag (?fs @ ?gs) k" for k
    unfolding c using fold_cache_Update [of "?fs @ ?gs" NewFeatureCache k]
    by (auto simp: NewFeatureCache_def split: option.splits)
  show ?thesis unfolding GetAllFeatures_def GetSnapshot_set [OF inv assms(5)] get ..
qed

definition mem_with :: "string \<Rightarrow> string \<Rightarrow> mem_etcd" where
  "mem_with k v = mem_put k v mem_empty"

theorem snapshot_follows_puts_witness:
  "\<exists>s s' ms. fst (run_init mem_client NewFeatureService (mem_with flag_key (ToJSON (flag_of ''x'')))) = Some (s, 2) \<and>
     handle_events 0 [put_event flag_key (flag_of ''y'') 6] s = Some (ms, s') \<and>
     set (fst (GetAllFeatures id s')) = {flag_of ''y''}"
proof -
  let ?es = "mem_with flag_key (ToJSON (flag_of ''x''))"
  let ?kv = "\<lparr>kv_Key = flag_key, kv_Value = ToJSON (flag_of ''x''), kv_CreateRevision = 1, kv_ModRevision = 1\<rparr>"
  have a: "is_ascii ''x''" "is_ascii ''y''" by (simp_all add: is_ascii_def)
  have "has_prefix flag_key FeatureRootPrefix"
    unfolding flag_key_def BuildFeatureKey_def by (rule has_prefix_append)
  then have g: "GetWithRevision mem_client FeatureRootPrefix ?es = (Inr ([?kv], 1), ?es)"
    by (simp add: GetWithRevision_def mem_client_def mem_with_def mem_put_def mem_empty_def Let_def)
  then obtain s where s: "run_init mem_client NewFeatureService ?es = (Some (s, 2), ?es)"
    "sv_buffer s = NewRevisionBuffer 1000"
    by (simp add: run_init_def NewFeatureService_def is_int64_small)
  obtain s' where s': "handle_events 0 [put_event flag_key (flag_of ''y'') 6] s =
      Some (event_messages 0 [put_event flag_key (flag_of ''y'') 6], s')"
    using handle_events_spec [of s 0] s(2) rb_inv_new by metis
  from snapshot_follows_puts [OF g s(1) _ s' iteration_order_id(1)]
  have "set (fst (GetAllFeatures id s')) = {f. \<exists>k. last_flag
      (List.map_filter (\<lambda>kv. map_option (\<lambda>f. f\<lparr>ff_Revision := kv_ModRevision kv\<rparr>) (unmarshal_flag (kv_Value kv))) [?kv] @
       List.map_filter (\<lambda>ev. unmarshal_flag (kv_Value (we_Kv ev))) [put_event flag_key (flag_of ''y'') 6]) k = Some f}"
    by (simp add: put_event_def)
  also have "\<dots> = {flag_of ''y''}"
    using a by (auto simp: map_filter_simps put_event_def flag_of_json last_flag_def) (simp_all add: flag_of_def)
  finally show ?thesis using s s' by auto
qed

text \<open>
  C31. A deleted flag stays in the snapshot: when the flag stored under a feature key is
  put and this key is then deleted in etcd, the cache still holds the flag.
\<close>

theorem deleted_flag_stays:
  assumes "rb_inv (sv_buffer s)" "unmarshal_flag (kv_Value kv) = Some f"
    and "kv_Key kv = BuildFeatureKey (ff_Env f) (ff_Namespace f) (ff_Key f)"
    and "handle_events now [\<lparr>we_Delete = False, we_Kv = kv\<rparr>, \<lparr>we_Delete = True, we_Kv = kv'\<rparr>] s = Some (ms, s')"
    and "kv_Key kv' = kv_Key kv"
  shows "gm_get (fc_data (sv_cache s')) (ff_Key f) = Some f"
proof -
  let ?evs = "[\<lparr>we_Delete = False, we_Kv = kv\<rparr>, \<lparr>we_Delete = True, we_Kv = kv'\<rparr>]"
  from handle_events_spec [OF assms(1), of now ?evs] assms(4)
  have "sv_cache s' = fold cache_event ?evs (sv_cache s)" by auto
  moreover have "kv_Key kv' \<noteq> ff_Key f" using assms(3,5) BuildFeatureKey_longer by simp
  ultimately show ?thesis using assms(2) by (simp add: cache_event_def)
qed

theorem deleted_flag_stays_witness:
  "\<exists>ms s'. handle_events 0 [put_event flag_key (flag_of ''x'') 5,
       \<lparr>we_Delete = True, we_Kv = \<lparr>kv_Key = flag_key, kv_Value = [], kv_CreateRevision = 0, kv_ModRevision = 6\<rparr>\<rparr>]
     NewFeatureService = Some (ms, s') \<and> gm_get (fc_data (sv_cache s')) ''k'' = Some (flag_of ''x'')"
proof -
  let ?d = "\<lparr>kv_Key = flag_key, kv_Value = [], kv_CreateRevision = 0, kv_ModRevision = 6\<rparr>"
  let ?p = "we_Kv (put_event flag_key (flag_of ''x'') 5)"
  have inv: "rb_inv (sv_buffer NewFeatureService)" by (simp add: NewFeatureService_def rb_inv_new)
  have pe: "put_event flag_key (flag_of ''x'') 5 = \<lparr>we_Delete = False, we_Kv = ?p\<rparr>" by (simp add: put_event_def)
  obtain ms s' where run: "handle_events 0 [\<lparr>we_Delete = False, we_Kv = ?p\<rparr>, \<lparr>we_Delete = True, we_Kv = ?d\<rparr>] NewFeatureService = Some (ms, s')"
    using handle_events_spec [OF inv] by blast
  have "unmarshal_flag (kv_Value ?p) = Some (flag_of ''x'')"
    using flag_of_json [of "''x''"] by (simp add: put_event_def is_ascii_def)
  from deleted_flag_stays [OF inv this _ run] have "gm_get (fc_data (sv_cache s')) (ff_Key (flag_of ''x'')) = Some (flag_of ''x'')"
    by (simp add: put_event_def flag_key_def flag_of_def zero_flag_def)
  with run pe show ?thesis by (auto simp: flag_of_def)
qed

text \<open>The two faults of the transaction.\<close>

definition failing_gorm :: "mem_db gorm" where
  "failing_gorm = (mem_gorm id)\<lparr>go_SaveMaster := \<lambda>m d. (Inl (DbError ''write failed''), d)\<rparr>"

lemma failing_gorm_ok: "db_ok id failing_gorm md_tables md_base"
  using mem_db_ok [of id]
  by (simp add: db_ok_def reads_ok_def writes_ok_def transactions_ok_def failing_gorm_def mem_gorm_def)

text \<open>
  The error of the master write is dropped: with a database that meets every
  assumption but fails this one write, saving a flag reports success and a new version and
  leaves an outbox task, while the master record is unchanged.
\<close>

theorem dropped_write_error:
  "db_ok id failing_gorm md_tables md_base \<and>
   (\<exists>job d'. SaveFeature failing_gorm (flag_of ''v4'') ''op'' [] sample_db = (Inr 4, job, d') \<and>
      tb_masters (md_tables d') = tb_masters (md_tables sample_db) \<and>
      length (tb_tasks (md_tables d')) = Suc (length (tb_tasks (md_tables sample_db))))"
  using failing_gorm_ok
  by (simp add: failing_gorm_def mem_run_defs flag_of_def sample_defs zero_flag_def is_int64_small)

text \<open>Two saves that both read before either writes, then both push to etcd.\<close>

definition racing_saves :: "FeatureFlag \<Rightarrow> FeatureFlag \<Rightarrow> mem_db \<Rightarrow> mem_etcd \<Rightarrow>
    (db_error + int \<times> int \<times> FeatureFlag) \<times> (db_error + int \<times> int \<times> FeatureFlag) \<times> mem_db \<times> mem_etcd" where
  "racing_saves f1 f2 d es =
     (let g = mem_gorm id;
          read = (\<lambda>f. case GetByKey g (ff_Namespace f) (ff_Env f) (ff_Key f) d of (Inr m, _) \<Rightarrow> m | (Inl _, _) \<Rightarrow> None);
          (r1, d1) = save_rows g f1 ''op'' [] (read f1) d;
          (r2, d2) = save_rows g f2 ''op'' [] (read f2) d1;
          push = (\<lambda>r s. case r of Inr (_, oid, f) \<Rightarrow> syncToEtcd mem_client g oid f s | Inl _ \<Rightarrow> s);
          (es', d') = push r2 (push r1 (es, d2))
      in (r1, r2, d', es'))"

lemma flag_of_version_json:
  "is_ascii v \<Longrightarrow> unmarshal_flag (ToJSON ((flag_of v)\<lparr>ff_Version := 4\<rparr>)) = Some ((flag_of v)\<lparr>ff_Version := 4\<rparr>)"
  by (subst unmarshal_ToJSON)
     (simp_all add: flag_of_def flag_ints_def flag_utf8_def zero_flag_def is_int64_small ascii_valid is_ascii_def)

lemma mem_save_new:
  "SaveFeatureIfNewer mem_client k f mem_empty = (Inr 1, mem_put k (ToJSON f) mem_empty)"
  by (simp add: SaveFeatureIfNewer_def save_loop.simps save_round_def save_commit_def mem_client_def
      mem_empty_def mem_view_def mem_put_def Let_def)

lemma mem_save_stale:
  assumes "gm_get (fst s) k = Some kv" "unmarshal_flag (kv_Value kv) = Some f0" "ff_Version f \<le> ff_Version f0"
  shows "SaveFeatureIfNewer mem_client k f s = (Inr (kv_ModRevision kv), s)"
  using assms by (simp add: SaveFeatureIfNewer_def save_loop.simps save_round_def mem_client_def)

lemma mem_update_status:
  "tb_masters (md_tables (snd (UpdateStatus (mem_gorm coll) i st rc d))) = tb_masters (md_tables d)"
  "map (\<lambda>t. (ot_ID t, ot_Status t)) (tb_tasks (md_tables (snd (UpdateStatus (mem_gorm coll) i st rc d)))) =
     map (\<lambda>(j, s). (j, if j = i then st else s)) (map (\<lambda>t. (ot_ID t, ot_Status t)) (tb_tasks (md_tables d)))"
  by (simp_all add: UpdateStatus_def mem_gorm_def mem_update_task_def where_q_def)

text \<open>
  Racing saves diverge for good: when two saves of a key both read before either
  writes, both succeed with the same version, the database keeps the second value, etcd
  keeps the first one, and both outbox tasks are completed.
\<close>

theorem lost_update:
  "\<exists>o1 f1 o2 f2 d' es'. racing_saves (flag_of ''p'') (flag_of ''q'') sample_db mem_empty =
      (Inr (4, o1, f1), Inr (4, o2, f2), d', es') \<and>
    map fm_CurrentVal (tb_masters (md_tables d')) = [''q''] \<and>
    map_option kv_Value (gm_get (fst es') flag_key) = Some (ToJSON ((flag_of ''p'')\<lparr>ff_Version := 4\<rparr>)) \<and>
    map ot_Status (tb_tasks (md_tables d')) = [0, 1, 0, StatusCompleted, StatusCompleted]"
proof -
  let ?fp = "(flag_of ''p'')\<lparr>ff_Version := 4\<rparr>" and ?fq = "(flag_of ''q'')\<lparr>ff_Version := 4\<rparr>"
  have key: "BuildFeatureKey (ff_Env (flag_of v)) (ff_Namespace (flag_of v)) (ff_Key (flag_of v)) = flag_key" for v
    by (simp add: flag_key_def flag_of_def)
  let ?es1 = "mem_put flag_key (ToJSON ?fp) mem_empty"
  have e1: "SaveFeatureIfNewer mem_client flag_key ?fp mem_empty = (Inr 1, ?es1)" by (rule mem_save_new)
  have e2: "SaveFeatureIfNewer mem_client flag_key ?fq ?es1 = (Inr 1, ?es1)"
    using mem_save_stale [of ?es1 flag_key _ ?fp ?fq] flag_of_version_json [of "''p''"]
    by (simp add: mem_put_def mem_empty_def Let_def is_ascii_def)
  have m: "gm_get (fst ?es1) flag_key = Some \<lparr>kv_Key = flag_key, kv_Value = ToJSON ?fp, kv_CreateRevision = 1, kv_ModRevision = 1\<rparr>"
    by (simp add: mem_put_def mem_empty_def Let_def)
  note fl = flag_of_def zero_flag_def
  have db: "\<exists>d1 d2. save_rows (mem_gorm id) (flag_of ''p'') ''op'' [] (Some sample_master) sample_db = (Inr (4, 4, ?fp), d1) \<and>
      save_rows (mem_gorm id) (flag_of ''q'') ''op'' [] (Some sample_master) d1 = (Inr (4, 5, ?fq), d2) \<and>
      map fm_CurrentVal (tb_masters (md_tables d2)) = [''q''] \<and>
      map (\<lambda>t. (ot_ID t, ot_Status t)) (tb_tasks (md_tables d2)) = [(3, 0), (1, 1), (2, 0), (4, 0), (5, 0)]"
    by (simp add: mem_run_defs fl sample_defs is_int64_small new_task_def next_id_def StatusPending_def)
  then obtain d1 d2 where d: "save_rows (mem_gorm id) (flag_of ''p'') ''op'' [] (Some sample_master) sample_db = (Inr (4, 4, ?fp), d1)"
      "save_rows (mem_gorm id) (flag_of ''q'') ''op'' [] (Some sample_master) d1 = (Inr (4, 5, ?fq), d2)"
      "map fm_CurrentVal (tb_masters (md_tables d2)) = [''q'']"
      "map (\<lambda>t. (ot_ID t, ot_Status t)) (tb_tasks (md_tables d2)) = [(3, 0), (1, 1), (2, 0), (4, 0), (5, 0)]"
    by (elim exE conjE) (rule that)
  have read: "GetByKey (mem_gorm id) (ff_Namespace (flag_of v)) (ff_Env (flag_of v)) (ff_Key (flag_of v)) sample_db =
      (Inr (Some sample_master), sample_db)" for v
    by (simp add: mem_run_defs fl sample_defs)
  let ?d3 = "snd (UpdateStatus (mem_gorm id) 4 StatusCompleted 0 d2)"
  let ?d4 = "snd (UpdateStatus (mem_gorm id) 5 StatusCompleted 0 ?d3)"
  have run: "racing_saves (flag_of ''p'') (flag_of ''q'') sample_db mem_empty =
      (Inr (4, 4, ?fp), Inr (4, 5, ?fq), ?d4, ?es1)"
    using e1 e2 d(1,2) unfolding racing_saves_def Let_def read by (simp add: syncToEtcd_def key)
  have "map (\<lambda>t. (ot_ID t, ot_Status t)) (tb_tasks (md_tables ?d4)) =
      [(3, 0), (1, 1), (2, 0), (4, StatusCompleted), (5, StatusCompleted)]"
    unfolding mem_update_status d(4) by simp
  from arg_cong [OF this, of "map snd"] have st: "map ot_Status (tb_tasks (md_tables ?d4)) = [0, 1, 0, StatusCompleted, StatusCompleted]"
    by (simp add: comp_def)
  show ?thesis
    by (rule exI [of _ 4], rule exI [of _ ?fp], rule exI [of _ 5], rule exI [of _ ?fq], rule exI [of _ ?d4], rule exI [of _ ?es1])
       (use run d(3) m st in \<open>simp add: mem_update_status\<close>)
qed

end
