(* ===== verification/Outbox_Worker.thy ===== *)
theory Outbox_Worker
  imports Service_Facts
begin

text \<open>
  \<open>internal/service/worker.go\<close>: the worker that drains the outbox. A tick fetches at most ten
  pending tasks and pushes each to etcd; a task is completed, retried, or given up after
  five failures. The errors of \<open>UpdateStatus\<close> are only logged.
\<close>

section \<open>The code\<close>

definition worker_task ::
  "'e etcd_client \<Rightarrow> 'd gorm \<Rightarrow> OutboxTask \<Rightarrow> 'e \<times> 'd \<Rightarrow> 'e \<times> 'd" where
  "worker_task c g task s =
     (case s of (es, d) \<Rightarrow>
        let update = (\<lambda>status retryCount. snd (UpdateStatus g (ot_ID task mod 2 ^ 64) status retryCount d)) in
        (case unmarshal_flag (ot_Payload task) of
           None \<Rightarrow> (es, update StatusFailed (ot_RetryCount task))
         | Some flag \<Rightarrow>
             (case SaveFeatureIfNewer c (BuildFeatureKey (ff_Env flag) (ff_Namespace flag) (ff_Key flag)) flag es of
                (Inl e, es1) \<Rightarrow>
                  (let newRetryCount = wrap64 (ot_RetryCount task + 1) in
                   if newRetryCount \<ge> 5 then (es1, update StatusFailed newRetryCount)
                   else (es1, update StatusPending newRetryCount))
              | (Inr _, es1) \<Rightarrow> (es1, update StatusCompleted (ot_RetryCount task)))))"

definition processPending :: "'e etcd_client \<Rightarrow> 'd gorm \<Rightarrow> 'e \<times> 'd \<Rightarrow> 'e \<times> 'd" where
  "processPending c g s =
     (case FetchPending g 10 (snd s) of
        (Inl e, d1) \<Rightarrow> (fst s, d1)
      | (Inr tasks, d1) \<Rightarrow> fold (worker_task c g) tasks (fst s, d1))"

section \<open>What one task does\<close>

text \<open>The row with an id, and the tables with that row's status and counter set.\<close>

definition set_status :: "int \<Rightarrow> int \<Rightarrow> int \<Rightarrow> OutboxTask list \<Rightarrow> OutboxTask list \<Rightarrow> bool" where
  "set_status i st rc ts ts' \<longleftrightarrow> (\<exists>now. ts' = map (\<lambda>t. if ot_ID t = i
     then t\<lparr>ot_Status := st, ot_RetryCount := rc, ot_UpdatedAt := now\<rparr> else t) ts)"

lemma UpdateStatus_ok:
  assumes "db_ok coll g view base" "UpdateStatus g i st rc d = (r, d')"
  shows "tb_masters (view d') = tb_masters (view d) \<and>
    (set_status i st rc (tb_tasks (view d)) (tb_tasks (view d')) \<or> \<not> is_ok r \<and> view d' = view d)"
  using db_update_task [OF assms(1), of "where_q [IdIs i]" st rc d r d'] assms(2)
  by (auto simp: UpdateStatus_def where_q_def set_status_def split: sum.splits)

text \<open>The flag a task carries, and whether etcd has it.\<close>

definition task_delivered :: "etcd_store \<Rightarrow> OutboxTask \<Rightarrow> bool" where
  "task_delivered st t \<longleftrightarrow>
     (case unmarshal_flag (ot_Payload t) of
        None \<Rightarrow> False
      | Some f \<Rightarrow> has_version st (BuildFeatureKey (ff_Env f) (ff_Namespace f) (ff_Key f)) (ff_Version f))"

text \<open>Every completed task is in etcd; ids identify tasks and fit in 63 bits.\<close>

definition ids_ok :: "OutboxTask list \<Rightarrow> bool" where
  "ids_ok ts \<longleftrightarrow> distinct (map ot_ID ts) \<and> (\<forall>t \<in> set ts. 0 < ot_ID t \<and> is_int64 (ot_ID t))"

definition outbox_inv :: "etcd_store \<Rightarrow> OutboxTask list \<Rightarrow> bool" where
  "outbox_inv st ts \<longleftrightarrow> ids_ok ts \<and> (\<forall>t \<in> set ts. ot_Status t = StatusCompleted \<longrightarrow> task_delivered st t)"

lemma id_mod [simp]: "0 < i \<Longrightarrow> is_int64 i \<Longrightarrow> i mod 2 ^ 64 = i"
  by (simp add: is_int64_def int64_max_def)

lemma set_status_ids: "set_status i st rc ts ts' \<Longrightarrow> map ot_ID ts' = map ot_ID ts \<and> length ts' = length ts"
  by (auto simp: set_status_def)

lemma set_status_ids_ok: "set_status i st rc ts ts' \<Longrightarrow> ids_ok ts' = ids_ok ts"
proof -
  assume s: "set_status i st rc ts ts'"
  then have "map ot_ID ts' = map ot_ID ts" by (simp add: set_status_ids)
  moreover from this have "ot_ID ` set ts' = ot_ID ` set ts" by (metis list.set_map)
  then have "(\<forall>t \<in> set ts'. 0 < ot_ID t \<and> is_int64 (ot_ID t)) = (\<forall>t \<in> set ts. 0 < ot_ID t \<and> is_int64 (ot_ID t))"
    by (metis (no_types, lifting) image_iff)
  ultimately show ?thesis by (simp add: ids_ok_def)
qed

lemma set_status_inv:
  assumes "set_status i st rc ts ts'" "outbox_inv es ts"
    and "st = StatusCompleted \<Longrightarrow> \<forall>t \<in> set ts. ot_ID t = i \<longrightarrow> task_delivered es t"
  shows "outbox_inv es ts'"
proof -
  obtain now where ts': "ts' = map (\<lambda>t. if ot_ID t = i
     then t\<lparr>ot_Status := st, ot_RetryCount := rc, ot_UpdatedAt := now\<rparr> else t) ts"
    using assms(1) by (auto simp: set_status_def)
  have same: "task_delivered es (t\<lparr>ot_Status := a, ot_RetryCount := b, ot_UpdatedAt := now\<rparr>) = task_delivered es t" for t a b
    by (simp add: task_delivered_def)
  show ?thesis
    using assms(2,3) set_status_ids_ok [OF assms(1)] unfolding ts' outbox_inv_def by (auto simp: same)
qed

lemma task_delivered_progress: "task_delivered a t \<Longrightarrow> progress a b \<Longrightarrow> task_delivered b t"
  by (auto simp: task_delivered_def has_version_progress split: option.splits)

lemma outbox_inv_progress: "outbox_inv a ts \<Longrightarrow> progress a b \<Longrightarrow> outbox_inv b ts"
  by (auto simp: outbox_inv_def task_delivered_progress)

lemma same_id: "ids_ok ts \<Longrightarrow> t \<in> set ts \<Longrightarrow> t' \<in> set ts \<Longrightarrow> ot_ID t = ot_ID t' \<Longrightarrow> t = t'"
  by (auto simp: ids_ok_def distinct_map inj_on_def)

section \<open>Completed means delivered\<close>

text \<open>What a step on a task keeps of the table: everything but status, counter and time.\<close>

definition same_tasks :: "tables \<Rightarrow> tables \<Rightarrow> bool" where
  "same_tasks t t' \<longleftrightarrow> tb_masters t' = tb_masters t \<and>
     map (\<lambda>k. (ot_ID k, ot_Payload k)) (tb_tasks t') = map (\<lambda>k. (ot_ID k, ot_Payload k)) (tb_tasks t)"

lemma same_tasks_refl [simp]: "same_tasks t t"
  by (simp add: same_tasks_def)

lemma same_tasks_trans: "same_tasks a b \<Longrightarrow> same_tasks b c \<Longrightarrow> same_tasks a c"
  by (simp add: same_tasks_def)

lemma UpdateStatus_same:
  assumes "db_ok coll g view base"
  shows "same_tasks (view d) (view (snd (UpdateStatus g i st rc d)))"
proof -
  obtain r d' where u: "UpdateStatus g i st rc d = (r, d')" by (rule prod.exhaust)
  from UpdateStatus_ok [OF assms u] show ?thesis
    unfolding u by (auto simp: same_tasks_def set_status_def)
qed

lemma UpdateStatus_inv:
  assumes "db_ok coll g view base" "outbox_inv es (tb_tasks (view d))"
    and "st = StatusCompleted \<Longrightarrow> \<forall>t \<in> set (tb_tasks (view d)). ot_ID t = i \<longrightarrow> task_delivered es t"
  shows "outbox_inv es (tb_tasks (view (snd (UpdateStatus g i st rc d))))"
proof -
  obtain r d' where u: "UpdateStatus g i st rc d = (r, d')" by (rule prod.exhaust)
  from UpdateStatus_ok [OF assms(1) u] show ?thesis
    unfolding u using set_status_inv [OF _ assms(2,3)] assms(2) by auto
qed

text \<open>A task as it was fetched: its row is still there, with the same payload.\<close>

definition in_table :: "tables \<Rightarrow> OutboxTask \<Rightarrow> bool" where
  "in_table t k \<longleftrightarrow> (ot_ID k, ot_Payload k) \<in> set (map (\<lambda>k. (ot_ID k, ot_Payload k)) (tb_tasks t))"

lemma in_table_same: "same_tasks a b \<Longrightarrow> in_table a k = in_table b k"
  by (simp add: in_table_def same_tasks_def)

lemma in_table_id: "in_table t k \<Longrightarrow> ids_ok (tb_tasks t) \<Longrightarrow> ot_ID k mod 2 ^ 64 = ot_ID k"
  unfolding in_table_def ids_ok_def by (rule id_mod) auto

lemma in_table_delivered:
  assumes "in_table t k" "ids_ok (tb_tasks t)" "task_delivered es k"
  shows "\<forall>x \<in> set (tb_tasks t). ot_ID x = ot_ID k \<longrightarrow> task_delivered es x"
proof (intro ballI impI)
  fix x assume x: "x \<in> set (tb_tasks t)" "ot_ID x = ot_ID k"
  from assms(1) obtain y where y: "y \<in> set (tb_tasks t)" "ot_ID y = ot_ID k" "ot_Payload y = ot_Payload k"
    by (auto simp: in_table_def)
  with same_id [OF assms(2), of x y] x have "ot_Payload x = ot_Payload k" by simp
  with assms(3) show "task_delivered es x" by (simp add: task_delivered_def)
qed

definition system_ok ::
  "'e etcd_handle \<Rightarrow> ('d \<Rightarrow> tables) \<Rightarrow> 'e \<times> 'd \<Rightarrow> bool" where
  "system_ok h view s \<longleftrightarrow> handle_good h (fst s) \<and> outbox_inv (eh_view h (fst s)) (tb_tasks (view (snd s)))"

text \<open>A push of a flag, by whoever: etcd progresses, and success means the flag is there.\<close>

lemma push_ok:
  assumes "handle_good h es" "flag_ints f" "SaveFeatureIfNewer (eh_client h) k f es = (r, es1)"
  shows "progress (eh_view h es) (eh_view h es1) \<and> handle_good h es1 \<and>
    (is_ok r \<longrightarrow> has_version (eh_view h es1) k (ff_Version f))"
proof -
  have p: "progress (eh_view h es) (eh_view h es1)" using etcd.save_leads [OF assms] .
  moreover have "handle_good h es1" using etcd.leads_good [OF p assms(1)] .
  moreover have "has_version (eh_view h es1) k (ff_Version f)" if "is_ok r"
    using that etcd.save_holds [OF assms(1,2)] assms(3) by (cases r) auto
  ultimately show ?thesis by blast
qed

lemma worker_task_ok:
  assumes ok: "db_ok coll g view base" and sys: "system_ok h view (es, d)" and row: "in_table (view d) task"
    and run: "worker_task (eh_client h) g task (es, d) = (es', d')"
  shows "progress (eh_view h es) (eh_view h es') \<and> system_ok h view (es', d') \<and> same_tasks (view d) (view d')"
proof -
  have inv: "handle_good h es" "outbox_inv (eh_view h es) (tb_tasks (view d))" using sys by (simp_all add: system_ok_def)
  then have ids: "ids_ok (tb_tasks (view d))" by (simp add: outbox_inv_def)
  note i = in_table_id [OF row ids]
  show ?thesis
  proof (cases "unmarshal_flag (ot_Payload task)")
    case None
    with run UpdateStatus_same [OF ok] UpdateStatus_inv [OF ok inv(2)] inv(1) show ?thesis
      by (auto simp: worker_task_def system_ok_def status_defs)
  next
    case (Some flag)
    let ?k = "BuildFeatureKey (ff_Env flag) (ff_Namespace flag) (ff_Key flag)"
    obtain r es1 where s: "SaveFeatureIfNewer (eh_client h) ?k flag es = (r, es1)" by (rule prod.exhaust)
    note P = push_ok [OF inv(1) unmarshal_flag_ints [OF Some] s]
    have inv1: "outbox_inv (eh_view h es1) (tb_tasks (view d))" using P inv(2) outbox_inv_progress by blast
    have es': "es' = es1" and d': "\<exists>st rc. d' = snd (UpdateStatus g (ot_ID task) st rc d) \<and> (st = StatusCompleted \<longrightarrow> is_ok r)"
      using run Some s i by (auto simp: worker_task_def status_defs Let_def split: sum.splits if_splits)
    then obtain st rc where d: "d' = snd (UpdateStatus g (ot_ID task) st rc d)" "st = StatusCompleted \<longrightarrow> is_ok r" by blast
    have "task_delivered (eh_view h es1) task" if "is_ok r" using that P Some by (simp add: task_delivered_def)
    then have "outbox_inv (eh_view h es1) (tb_tasks (view d'))"
      unfolding d(1) using UpdateStatus_inv [OF ok inv1] in_table_delivered [OF row ids] d(2) by blast
    then show ?thesis using P es' UpdateStatus_same [OF ok] unfolding d(1) by (simp add: system_ok_def)
  qed
qed

lemma worker_tasks_ok:
  assumes ok: "db_ok coll g view base"
  shows "system_ok h view (es, d) \<Longrightarrow> \<forall>k \<in> set ks. in_table (view d) k \<Longrightarrow>
    fold (worker_task (eh_client h) g) ks (es, d) = (es', d') \<Longrightarrow>
    progress (eh_view h es) (eh_view h es') \<and> system_ok h view (es', d') \<and> same_tasks (view d) (view d')"
proof (induction ks arbitrary: es d)
  case (Cons k ks)
  obtain es1 d1 where s1: "worker_task (eh_client h) g k (es, d) = (es1, d1)" by (rule prod.exhaust)
  have a: "progress (eh_view h es) (eh_view h es1)" "system_ok h view (es1, d1)" "same_tasks (view d) (view d1)"
    using worker_task_ok [OF ok Cons.prems(1) _ s1] Cons.prems(2) by auto
  have "\<forall>x \<in> set ks. in_table (view d1) x" using Cons.prems(2) in_table_same [OF a(3)] by simp
  from Cons.IH [OF a(2) this] Cons.prems(3) s1 a(1,3) show ?case
    using progress_trans same_tasks_trans by (fastforce simp: comp_def)
qed simp

lemma FetchPending_members:
  assumes ok: "db_ok coll g view base" and "FetchPending g 10 d = (r, d1)"
  shows "view d1 = view d \<and> (\<forall>rows. r = Inr rows \<longrightarrow> (\<forall>k \<in> set rows. k \<in> set (tb_tasks (view d)) \<and> ot_Status k = StatusPending))"
proof -
  have v: "view d1 = view d" using db_find_tasks [OF ok] assms(2) unfolding FetchPending_def by blast
  moreover have "k \<in> set (tb_tasks (view d)) \<and> ot_Status k = StatusPending" if "r = Inr rows" "k \<in> set rows" for rows k
  proof -
    from assms(2) that(1) have "FetchPending g 10 d = (Inr rows, d1)" by simp
    from FetchPending_rows [OF ok _ this] obtain rest
      where "mset (rows @ rest) = mset (filter (\<lambda>t. ot_Status t = StatusPending) (tb_tasks (view d)))"
      by auto
    then have "set (rows @ rest) = set (filter (\<lambda>t. ot_Status t = StatusPending) (tb_tasks (view d)))"
      by (metis set_mset_mset)
    with that(2) show ?thesis by auto
  qed
  ultimately show ?thesis by blast
qed

lemma processPending_ok:
  assumes ok: "db_ok coll g view base" and sys: "system_ok h view (es, d)"
    and run: "processPending (eh_client h) g (es, d) = (es', d')"
  shows "progress (eh_view h es) (eh_view h es') \<and> system_ok h view (es', d') \<and> same_tasks (view d) (view d')"
proof -
  obtain r d1 where f: "FetchPending g 10 d = (r, d1)" by (rule prod.exhaust)
  note F = FetchPending_members [OF ok f]
  then have sys1: "system_ok h view (es, d1)" using sys by (simp add: system_ok_def)
  show ?thesis
  proof (cases r)
    case (Inl e)
    with run f F sys1 show ?thesis by (auto simp: processPending_def)
  next
    case (Inr tasks)
    with F have "\<forall>k \<in> set tasks. in_table (view d1) k" by (auto simp: in_table_def)
    from worker_tasks_ok [OF ok sys1 this] run f Inr F show ?thesis by (simp add: processPending_def)
  qed
qed

section \<open>The outbox drains\<close>

text \<open>How often a task can still be tried.\<close>

definition tries_left :: "OutboxTask \<Rightarrow> nat" where
  "tries_left t = (if ot_Status t = StatusPending then nat (5 - ot_RetryCount t) else 0)"

definition pending_ok :: "OutboxTask list \<Rightarrow> bool" where
  "pending_ok ts \<longleftrightarrow> ids_ok ts \<and> (\<forall>t \<in> set ts. ot_Status t = StatusPending \<longrightarrow> 0 \<le> ot_RetryCount t \<and> ot_RetryCount t < 5)"

text \<open>A database whose task queries and updates do not fail.\<close>

definition outbox_calls_ok :: "'d gorm \<Rightarrow> bool" where
  "outbox_calls_ok g \<longleftrightarrow> (\<forall>q d. is_ok (fst (go_FindTasks g q d))) \<and> (\<forall>q st rc d. is_ok (fst (go_UpdateTask g q st rc d)))"

lemma UpdateStatus_total:
  assumes "db_ok coll g view base" "outbox_calls_ok g"
  shows "set_status i st rc (tb_tasks (view d)) (tb_tasks (view (snd (UpdateStatus g i st rc d))))"
proof -
  obtain r d' where u: "UpdateStatus g i st rc d = (r, d')" by (rule prod.exhaust)
  moreover have "is_ok r" using assms(2) u unfolding outbox_calls_ok_def UpdateStatus_def by (metis fst_conv)
  ultimately show ?thesis using UpdateStatus_ok [OF assms(1) u] by auto
qed

lemma sum_list_less:
  fixes f :: "'a \<Rightarrow> nat"
  assumes "\<And>x. x \<in> set xs \<Longrightarrow> f (u x) \<le> f x" "x \<in> set xs" "f (u x) < f x"
  shows "sum_list (map (\<lambda>x. f (u x)) xs) < sum_list (map f xs)"
  using assms
proof (induction xs)
  case (Cons y ys)
  have le: "sum_list (map (\<lambda>x. f (u x)) ys) \<le> sum_list (map f ys)"
    using Cons.prems(1) by (intro sum_list_mono) auto
  show ?case
  proof (cases "x = y")
    case True
    with le Cons.prems(3) show ?thesis by simp
  next
    case False
    with Cons have "sum_list (map (\<lambda>x. f (u x)) ys) < sum_list (map f ys)" by simp
    with Cons.prems(1) [of y] show ?thesis by simp
  qed
qed simp

lemma set_status_tries:
  assumes "set_status (ot_ID k) st rc ts ts'" "pending_ok ts" "k \<in> set ts" "ot_Status k = StatusPending"
    and "st = StatusPending \<Longrightarrow> rc = ot_RetryCount k + 1 \<and> rc < 5"
  shows "pending_ok ts' \<and> sum_list (map tries_left ts') < sum_list (map tries_left ts) \<and>
    (\<forall>x \<in> set ts. ot_ID x \<noteq> ot_ID k \<longrightarrow> x \<in> set ts')"
proof -
  obtain now where ts': "ts' = map (\<lambda>t. if ot_ID t = ot_ID k
     then t\<lparr>ot_Status := st, ot_RetryCount := rc, ot_UpdatedAt := now\<rparr> else t) ts"
    using assms(1) by (auto simp: set_status_def)
  let ?u = "\<lambda>t. if ot_ID t = ot_ID k then t\<lparr>ot_Status := st, ot_RetryCount := rc, ot_UpdatedAt := now\<rparr> else t"
  have ids: "ids_ok ts" using assms(2) by (simp add: pending_ok_def)
  have k: "x = k" if "x \<in> set ts" "ot_ID x = ot_ID k" for x using same_id [OF ids that(1) assms(3) that(2)] .
  have rk: "0 \<le> ot_RetryCount k" "ot_RetryCount k < 5" using assms(2-4) by (auto simp: pending_ok_def)
  have lt: "tries_left (?u k) < tries_left k" using assms(4,5) rk by (auto simp: tries_left_def status_defs)
  have le: "tries_left (?u x) \<le> tries_left x" if "x \<in> set ts" for x
    using k [OF that] lt by (cases "ot_ID x = ot_ID k") auto
  have "sum_list (map tries_left ts') < sum_list (map tries_left ts)"
    unfolding ts' map_map comp_def using sum_list_less [of ts tries_left ?u k] le lt assms(3) by blast
  moreover have "pending_ok ts'"
    unfolding pending_ok_def set_status_ids_ok [OF assms(1)]
  proof (intro conjI ids ballI impI)
    fix t assume t: "t \<in> set ts'" "ot_Status t = StatusPending"
    then obtain x where x: "x \<in> set ts" "t = ?u x" unfolding ts' by auto
    show "0 \<le> ot_RetryCount t" "ot_RetryCount t < 5"
      using x t(2) k [OF x(1)] assms(2,5) rk by (auto simp: pending_ok_def split: if_splits)
  qed
  moreover have "\<forall>x \<in> set ts. ot_ID x \<noteq> ot_ID k \<longrightarrow> x \<in> set ts'" unfolding ts' by force
  ultimately show ?thesis by blast
qed

lemma worker_task_tries:
  assumes ok: "db_ok coll g view base" "outbox_calls_ok g"
    and p: "pending_ok (tb_tasks (view d))" "k \<in> set (tb_tasks (view d))" "ot_Status k = StatusPending"
    and run: "worker_task c g k (es, d) = (es', d')"
  shows "pending_ok (tb_tasks (view d')) \<and>
    sum_list (map tries_left (tb_tasks (view d'))) < sum_list (map tries_left (tb_tasks (view d))) \<and>
    (\<forall>x \<in> set (tb_tasks (view d)). ot_ID x \<noteq> ot_ID k \<longrightarrow> x \<in> set (tb_tasks (view d')))"
proof -
  have rk: "0 \<le> ot_RetryCount k" "ot_RetryCount k < 5" "ids_ok (tb_tasks (view d))" using p by (auto simp: pending_ok_def)
  have i: "ot_ID k mod 2 ^ 64 = ot_ID k" using rk(3) p(2) unfolding ids_ok_def by (intro id_mod) auto
  have w: "wrap64 (ot_RetryCount k + 1) = ot_RetryCount k + 1"
    using rk(1,2) by (intro wrap64_id) (simp add: is_int64_def int64_min_def int64_max_def)
  have "\<exists>st rc. d' = snd (UpdateStatus g (ot_ID k) st rc d) \<and>
      (st = StatusPending \<longrightarrow> rc = ot_RetryCount k + 1 \<and> rc < 5)"
    using run i
    apply (auto simp: worker_task_def status_defs Let_def w split: option.splits sum.splits prod.splits if_splits)
    by (rule exI, rule exI, rule conjI [OF refl], simp)+
  then obtain st rc where d': "d' = snd (UpdateStatus g (ot_ID k) st rc d)"
    and s: "st = StatusPending \<Longrightarrow> rc = ot_RetryCount k + 1 \<and> rc < 5" by blast
  show ?thesis
    unfolding d' by (rule set_status_tries [OF UpdateStatus_total [OF ok] p s])
qed

lemma worker_tasks_tries:
  assumes ok: "db_ok coll g view base" "outbox_calls_ok g"
  shows "pending_ok (tb_tasks (view d)) \<Longrightarrow> distinct (map ot_ID ks) \<Longrightarrow>
    \<forall>k \<in> set ks. k \<in> set (tb_tasks (view d)) \<and> ot_Status k = StatusPending \<Longrightarrow>
    fold (worker_task c g) ks (es, d) = (es', d') \<Longrightarrow>
    pending_ok (tb_tasks (view d')) \<and>
    sum_list (map tries_left (tb_tasks (view d'))) + length ks \<le> sum_list (map tries_left (tb_tasks (view d)))"
proof (induction ks arbitrary: es d)
  case (Cons k ks)
  obtain es1 d1 where s1: "worker_task c g k (es, d) = (es1, d1)" by (rule prod.exhaust)
  have k: "k \<in> set (tb_tasks (view d))" "ot_Status k = StatusPending" using Cons.prems(3) by auto
  note a = worker_task_tries [OF ok Cons.prems(1) k s1]
  have "\<forall>x \<in> set ks. x \<in> set (tb_tasks (view d1)) \<and> ot_Status x = StatusPending"
  proof
    fix x assume x: "x \<in> set ks"
    from Cons.prems(2) have "ot_ID k \<notin> ot_ID ` set ks" by simp
    with x have "ot_ID x \<noteq> ot_ID k" by (metis imageI)
    with x a Cons.prems(3) show "x \<in> set (tb_tasks (view d1)) \<and> ot_Status x = StatusPending" by auto
  qed
  from Cons.IH [OF _ _ this, of es1] a Cons.prems(2,4) s1 show ?case by simp
qed simp

lemma processPending_tries:
  assumes ok: "db_ok coll g view base" "outbox_calls_ok g" and p: "pending_ok (tb_tasks (view d))"
    and run: "processPending c g (es, d) = (es', d')"
  shows "pending_ok (tb_tasks (view d')) \<and>
    sum_list (map tries_left (tb_tasks (view d'))) \<le> sum_list (map tries_left (tb_tasks (view d))) - 1"
proof -
  obtain r d1 where f: "FetchPending g 10 d = (r, d1)" by (rule prod.exhaust)
  have "is_ok r" using ok(2) f by (auto simp: outbox_calls_ok_def FetchPending_def) (metis fst_conv)
  then obtain rows where r: "r = Inr rows" by (cases r) auto
  let ?ts = "tb_tasks (view d)"
  from FetchPending_rows [OF ok(1) _ f [unfolded r]] obtain rest where
    m: "mset (rows @ rest) = mset (filter (\<lambda>t. ot_Status t = StatusPending) ?ts)" and
    l: "length rows < nat 10 \<longrightarrow> rest = []" and v: "view d1 = view d" by auto
  have "distinct (map ot_ID (filter (\<lambda>t. ot_Status t = StatusPending) ?ts))"
    using p by (simp add: pending_ok_def ids_ok_def distinct_map_filter)
  then have "distinct (map ot_ID (rows @ rest))" using m by (metis mset_eq_imp_distinct_iff mset_map)
  then have di: "distinct (map ot_ID rows)" by simp
  have mem: "\<forall>k \<in> set rows. k \<in> set (tb_tasks (view d1)) \<and> ot_Status k = StatusPending"
    using FetchPending_members [OF ok(1) f] r v by simp
  have run': "fold (worker_task c g) rows (es, d1) = (es', d')" using run f r by (simp add: processPending_def)
  have w: "pending_ok (tb_tasks (view d'))" "sum_list (map tries_left (tb_tasks (view d'))) + length rows \<le> sum_list (map tries_left ?ts)"
    using worker_tasks_tries [OF ok _ di mem run'] p v by simp_all
  show ?thesis
  proof (cases "rows = []")
    case True
    then have "filter (\<lambda>t. ot_Status t = StatusPending) ?ts = []" using m l by simp
    then have "\<forall>t \<in> set ?ts. tries_left t = 0" by (auto simp: tries_left_def filter_empty_conv)
    then have "sum_list (map tries_left ?ts) = 0" by (induction ?ts) (auto simp: sum_list_eq_0_iff)
    with w show ?thesis by linarith
  next
    case False
    then have "0 < length rows" by simp
    with w show ?thesis by linarith
  qed
qed

lemma passes_tries:
  assumes ok: "db_ok coll g view base" "outbox_calls_ok g" and p: "pending_ok (tb_tasks (view d))"
  shows "((processPending c g) ^^ n) (es, d) = (es', d') \<Longrightarrow>
    pending_ok (tb_tasks (view d')) \<and>
    sum_list (map tries_left (tb_tasks (view d'))) \<le> sum_list (map tries_left (tb_tasks (view d))) - n"
proof (induction n arbitrary: es' d')
  case (Suc n)
  obtain e1 d1 where s: "((processPending c g) ^^ n) (es, d) = (e1, d1)" by (rule prod.exhaust)
  from Suc.IH [OF s] processPending_tries [OF ok, of d1 c e1 es' d'] Suc.prems s show ?case by force
qed (use p in simp)

lemma tries_left_bound:
  "pending_ok ts \<Longrightarrow> sum_list (map tries_left ts) \<le> 5 * length (filter (\<lambda>t. ot_Status t = StatusPending) ts)"
proof -
  assume "pending_ok ts"
  then have "\<forall>t \<in> set ts. tries_left t \<le> 5" by (auto simp: pending_ok_def tries_left_def)
  then show ?thesis by (induction ts) (auto simp: tries_left_def)
qed

lemma no_tries_left:
  assumes "pending_ok ts" "sum_list (map tries_left ts) = 0" "t \<in> set ts"
  shows "ot_Status t \<noteq> StatusPending"
proof -
  have "tries_left t = 0" using assms(2,3) by simp
  then show ?thesis using assms(1,3) by (auto simp: pending_ok_def tries_left_def)
qed

section \<open>Properties\<close>

text \<open>
  C15. The outbox drains. Whatever etcd does (down, slow, refusing), if the database answers
  the worker's queries and updates, every pending task is settled as completed or failed
  after at most five ticks per pending task: each tick that finds one uses up one of its
  tries, and no tick makes a settled task pending again.
\<close>

theorem outbox_drains:
  assumes "db_ok coll g view base" "outbox_calls_ok g" "pending_ok (tb_tasks (view d))"
    and "5 * length (filter (\<lambda>t. ot_Status t = StatusPending) (tb_tasks (view d))) \<le> n"
    and "((processPending c g) ^^ n) (es, d) = (es', d')"
  shows "\<forall>t \<in> set (tb_tasks (view d')). ot_Status t \<noteq> StatusPending"
proof -
  note p = passes_tries [OF assms(1-3,5)]
  have "sum_list (map tries_left (tb_tasks (view d'))) = 0"
    using p tries_left_bound [OF assms(3)] assms(4) by linarith
  with p no_tries_left show ?thesis by blast
qed

text \<open>Etcd is down for the whole run, and the task of this table ends as failed.\<close>

definition down_client :: "unit etcd_client" where
  "down_client = \<lparr>ec_Get = (\<lambda>k s. (Inl ''down'', s)), ec_GetPrefix = (\<lambda>p s. (Inl ''down'', s)),
     ec_Put = (\<lambda>k v s. (Inl ''down'', s)), ec_Txn = (\<lambda>cs os s. (Inl ''down'', s))\<rparr>"

definition one_task_db :: mem_db where
  "one_task_db = (let t = \<lparr>tb_masters = [], tb_audits = [],
       tb_tasks = [(new_task (flag_v 3) [])\<lparr>ot_ID := 7\<rparr>], tb_clients = []\<rparr> in \<lparr>md_tables = t, md_base = t\<rparr>)"

lemma mem_outbox_calls_ok: "outbox_calls_ok (mem_gorm coll)"
  by (simp add: outbox_calls_ok_def mem_gorm_def mem_update_task_def Let_def)

theorem outbox_drains_witness:
  "filter (\<lambda>t. ot_Status t = StatusPending) (tb_tasks (md_tables one_task_db)) \<noteq> [] \<and>
   filter (\<lambda>t. ot_Status t = StatusPending)
     (tb_tasks (md_tables (snd ((processPending down_client (mem_gorm id) ^^ 5) ((), one_task_db))))) = []"
proof -
  have p: "pending_ok (tb_tasks (md_tables one_task_db))"
    by (simp add: pending_ok_def ids_ok_def one_task_db_def new_task_def is_int64_def int64_min_def int64_max_def Let_def)
  have l: "5 * length (filter (\<lambda>t. ot_Status t = StatusPending) (tb_tasks (md_tables one_task_db))) \<le> 5"
    by (simp add: one_task_db_def Let_def)
  have "filter (\<lambda>t. ot_Status t = StatusPending) (tb_tasks (md_tables one_task_db)) \<noteq> []"
    by (simp add: one_task_db_def new_task_def Let_def)
  moreover have "\<forall>t \<in> set (tb_tasks (md_tables (snd ((processPending down_client (mem_gorm id) ^^ 5) ((), one_task_db))))).
      ot_Status t \<noteq> StatusPending"
    using outbox_drains [OF mem_db_ok mem_outbox_calls_ok p l] by (metis prod.collapse)
  ultimately show ?thesis by (simp add: filter_empty_conv)
qed

end
