(* ===== verification/Recon.thy ===== *)
theory Recon
  imports Outbox_Worker
begin

text \<open>
  \<open>internal/service/reconciler.go\<close>: the reconciler walks the table of features page by page
  and pushes to etcd what it believes to be behind. The distributed lock around a run is in
  Recon_Cluster; the delay between batches has no effect on the state.
\<close>

section \<open>The code\<close>

record ReconcilerConfig =
  rc_Interval :: int
  rc_BatchSize :: int
  rc_BatchDelay :: int

definition NewReconciler :: "ReconcilerConfig \<Rightarrow> ReconcilerConfig" where
  "NewReconciler cfg = (if rc_BatchSize cfg \<le> 0 then cfg\<lparr>rc_BatchSize := 100\<rparr> else cfg)"

definition recon_flag :: "FeatureMaster \<Rightarrow> FeatureFlag" where
  "recon_flag m =
     zero_flag\<lparr>ff_Namespace := fm_Namespace m, ff_Env := fm_Env m, ff_Key := fm_Key m,
       ff_Value := fm_CurrentVal m, ff_Type := fm_Type m, ff_Version := fm_Version m\<rparr>"

text \<open>
  \<open>GetFeature\<close> never returns a nil flag without an error, so the first test of the code is
  always false; both are kept.
\<close>

definition should_fix :: "FeatureFlag option \<Rightarrow> FeatureMaster \<Rightarrow> bool" where
  "should_fix etcdFlag dbItem =
     (case etcdFlag of None \<Rightarrow> True | Some f \<Rightarrow> ff_Version f < fm_Version dbItem)"

definition checkOne :: "'e etcd_client \<Rightarrow> FeatureMaster \<Rightarrow> 'e \<Rightarrow> 'e" where
  "checkOne c dbItem es =
     (let fullKey = BuildFeatureKey (fm_Env dbItem) (fm_Namespace dbItem) (fm_Key dbItem) in
      case GetFeature c fullKey es of
        (Inl e, es1) \<Rightarrow> es1
      | (Inr etcdFlag, es1) \<Rightarrow>
          if should_fix (Some etcdFlag) dbItem
          then snd (SaveFeatureIfNewer c fullKey (recon_flag dbItem) es1) else es1)"

text \<open>The loop: \<open>None\<close> is a loop that never ends; the flag tells a finished run from an aborted one.\<close>

partial_function (option) reconcile_loop ::
  "'e etcd_client \<Rightarrow> 'd gorm \<Rightarrow> int \<Rightarrow> int \<Rightarrow> 'e \<times> 'd \<Rightarrow> (bool \<times> 'e \<times> 'd) option" where
  "reconcile_loop c g batchSize offset s =
     (case ListByPage g offset batchSize (snd s) of
        (Inl e, d1) \<Rightarrow> Some (False, fst s, d1)
      | (Inr dbFeatures, d1) \<Rightarrow>
          if dbFeatures = [] then Some (True, fst s, d1)
          else reconcile_loop c g batchSize (wrap64 (offset + batchSize)) (fold (checkOne c) dbFeatures (fst s), d1))"

definition reconcile ::
  "ReconcilerConfig \<Rightarrow> 'e etcd_client \<Rightarrow> 'd gorm \<Rightarrow> 'e \<times> 'd \<Rightarrow> (bool \<times> 'e \<times> 'd) option" where
  "reconcile cfg c g s = reconcile_loop c g (rc_BatchSize cfg) 0 s"

section \<open>The walk over the table\<close>

lemma page_rows:
  assumes "db_ok coll g view base" "distinct (map fm_ID (tb_masters (view d)))" "0 \<le> off" "0 < n"
    and "ListByPage g off n d = (r, d1)"
  shows "view d1 = view d \<and>
    (\<forall>rows. r = Inr rows \<longrightarrow> rows = take (nat n) (drop (nat off) (sort_key fm_ID (tb_masters (view d)))))"
proof -
  let ?q = "\<lparr>q_where = [], q_order = IdAsc, q_offset = Some off, q_limit = Some n\<rparr>"
  have f: "go_FindMasters g ?q d = (r, d1)" using assms(5) by (simp add: ListByPage_def)
  note F = db_find_masters [OF assms(1) f]
  have "rows = take (nat n) (drop (nat off) (sort_key fm_ID (tb_masters (view d))))" if "r = Inr rows" for rows
  proof -
    from F that have "rows_for (master_matches coll) master_rank ?q (tb_masters (view d)) rows" by blast
    then obtain rs where rs: "mset rs = mset (tb_masters (view d))" "sorted (map (master_rank IdAsc) rs)" "rows = cut ?q rs"
      by (auto simp: rows_for_def)
    have "master_rank IdAsc = fm_ID" by (simp add: fun_eq_iff)
    moreover have "sort_key fm_ID (tb_masters (view d)) = rs"
    proof (rule sort_key_inj_key_eq)
      show "mset (tb_masters (view d)) = mset rs" using rs(1) by simp
      show "inj_on fm_ID (set (tb_masters (view d)))" using assms(2) by (simp add: distinct_map)
      show "sorted (map fm_ID rs)" using rs(2) calculation by simp
    qed
    ultimately show ?thesis using rs(3) assms(3,4) by (simp add: cut_def)
  qed
  with F show ?thesis by blast
qed

lemma reconcile_loop_steps:
  shows "ListByPage g off n d = (Inl e, d1) \<Longrightarrow> reconcile_loop c g n off (es, d) = Some (False, es, d1)"
    and "ListByPage g off n d = (Inr [], d1) \<Longrightarrow> reconcile_loop c g n off (es, d) = Some (True, es, d1)"
    and "ListByPage g off n d = (Inr rows, d1) \<Longrightarrow> rows \<noteq> [] \<Longrightarrow>
      reconcile_loop c g n off (es, d) = reconcile_loop c g n (wrap64 (off + n)) (fold (checkOne c) rows es, d1)"
  by (subst reconcile_loop.simps, simp)+

lemma reconcile_loop_walks:
  fixes view :: "'d \<Rightarrow> tables"
  assumes ok: "db_ok coll g view base" and n: "0 < n"
  shows "distinct (map fm_ID (tb_masters (view d))) \<Longrightarrow> 0 \<le> off \<Longrightarrow>
    int (length (tb_masters (view d))) + n \<le> int64_max \<Longrightarrow> off \<le> int (length (tb_masters (view d))) + n \<Longrightarrow>
    \<exists>fin k d'. reconcile_loop c g n off (es, d) =
        Some (fin, fold (checkOne c) (take k (drop (nat off) (sort_key fm_ID (tb_masters (view d))))) es, d') \<and>
      view d' = view d \<and> (fin \<longrightarrow> length (tb_masters (view d)) \<le> nat off + k)"
proof (induction "length (tb_masters (view d)) - nat off" arbitrary: d off es rule: less_induct)
  case less
  let ?rs = "sort_key fm_ID (tb_masters (view d))"
  obtain r d1 where p: "ListByPage g off n d = (r, d1)" by (rule prod.exhaust)
  note P = page_rows [OF ok less.prems(1,2) n p]
  show ?case
  proof (cases r)
    case (Inl e)
    then have "reconcile_loop c g n off (es, d) = Some (False, es, d1)" using p reconcile_loop_steps(1) by fast
    with P show ?thesis by (intro exI [of _ False] exI [of _ "0::nat"] exI [of _ d1]) simp
  next
    case (Inr rows)
    with P have rows: "rows = take (nat n) (drop (nat off) ?rs)" and v: "view d1 = view d" by auto
    show ?thesis
    proof (cases "rows = []")
      case True
      then have "length (tb_masters (view d)) \<le> nat off" using rows n by auto
      moreover have "reconcile_loop c g n off (es, d) = Some (True, es, d1)"
        using p Inr True reconcile_loop_steps(2) by fast
      ultimately show ?thesis using v by (intro exI [of _ True] exI [of _ "0::nat"] exI [of _ d1]) simp
    next
      case False
      then have o: "nat off < length (tb_masters (view d))" using rows by auto
      then have w: "wrap64 (off + n) = off + n"
        using less.prems(2,3) n by (intro wrap64_id) (simp add: is_int64_def int64_min_def int64_max_def)
      have nn: "nat (off + n) = nat n + nat off" using less.prems(2) n by simp
      let ?es = "fold (checkOne c) rows es"
      have m: "length (tb_masters (view d1)) - nat (off + n) < length (tb_masters (view d)) - nat off"
        using o n unfolding v nn by linarith
      have pr: "distinct (map fm_ID (tb_masters (view d1)))" "0 \<le> off + n"
        "int (length (tb_masters (view d1))) + n \<le> int64_max" "off + n \<le> int (length (tb_masters (view d1))) + n"
        using less.prems n o unfolding v by linarith+
      from less.hyps [OF m pr, of ?es, unfolded v] obtain fin k d' where
        k: "reconcile_loop c g n (off + n) (?es, d1) = Some (fin, fold (checkOne c) (take k (drop (nat (off + n)) ?rs)) ?es, d')"
        "view d' = view d" "fin \<longrightarrow> length (tb_masters (view d)) \<le> nat (off + n) + k" by blast
      have e: "fold (checkOne c) (take k (drop (nat (off + n)) ?rs)) ?es = fold (checkOne c) (take (nat n + k) (drop (nat off) ?rs)) es"
        unfolding take_add drop_drop nn rows by simp
      have "reconcile_loop c g n off (es, d) = reconcile_loop c g n (off + n) (?es, d1)"
        using reconcile_loop_steps(3) [OF p [unfolded Inr] False, of c es] w by simp
      with k e nn show ?thesis by (intro exI [of _ fin] exI [of _ "nat n + k"] exI [of _ d']) (simp add: ac_simps)
    qed
  qed
qed

section \<open>What one check does\<close>

lemma GetFeature_alone:
  assumes "etcd_ok c view (=)" "GetFeature c k es = (r, es1)"
  shows "view es1 = view es \<and> (\<forall>f. r = Inr f \<longrightarrow> ff_Version f = 0 \<and> es_kvs (view es) k \<noteq> None) \<and>
    (r = Inl ErrFeatureNotFound \<longrightarrow> es_kvs (view es) k = None)"
proof -
  obtain g s1 where g: "ec_Get c k es = (g, s1)" by (rule prod.exhaust)
  from etcd_get [OF assms(1) g] assms(2) g show ?thesis
    by (auto simp: GetFeature_def zero_flag_def split: sum.splits list.splits option.splits)
qed

lemma GetFeature_progress:
  assumes "handle_good h es" "GetFeature (eh_client h) k es = (r, es1)"
  shows "progress (eh_view h es) (eh_view h es1)"
proof -
  obtain g s1 where g: "ec_Get (eh_client h) k es = (g, s1)" by (rule prod.exhaust)
  have ok: "etcd_ok (eh_client h) (eh_view h) (eh_env h)" "rely (eh_env h)" using assms(1) by (simp_all add: handle_good_def)
  have "es1 = s1" using assms(2) g by (auto simp: GetFeature_def split: sum.splits list.splits)
  with etcd_get [OF ok(1) g] env_progress [OF ok] progress_trans show ?thesis by blast
qed

lemma recon_flag_ints: "is_int64 (fm_Version m) \<Longrightarrow> flag_ints (recon_flag m)"
  by (simp add: recon_flag_def flag_ints_def zero_flag_def is_int64_small)

lemma checkOne_progress:
  assumes h: "handle_good h es" and m: "is_int64 (fm_Version m)"
  shows "progress (eh_view h es) (eh_view h (checkOne (eh_client h) m es))"
proof -
  let ?k = "BuildFeatureKey (fm_Env m) (fm_Namespace m) (fm_Key m)"
  obtain r es1 where g: "GetFeature (eh_client h) ?k es = (r, es1)" by (rule prod.exhaust)
  have p: "progress (eh_view h es) (eh_view h es1)" by (rule GetFeature_progress [OF h g])
  obtain r2 es2 where s: "SaveFeatureIfNewer (eh_client h) ?k (recon_flag m) es1 = (r2, es2)" by (rule prod.exhaust)
  have "progress (eh_view h es) (eh_view h es2)"
    using p push_ok [OF etcd.leads_good [OF p h] recon_flag_ints [OF m] s] progress_trans by blast
  with p g s show ?thesis by (auto simp: checkOne_def split: sum.splits)
qed

text \<open>An etcd that answers every call.\<close>

definition etcd_calls_ok :: "'e etcd_client \<Rightarrow> bool" where
  "etcd_calls_ok c \<longleftrightarrow> (\<forall>k s. is_ok (fst (ec_Get c k s))) \<and> (\<forall>cs os s. is_ok (fst (ec_Txn c cs os s)))"

lemma calls_ok_no_error:
  assumes "etcd_calls_ok c"
  shows "fst (GetFeature c k s) \<noteq> Inl (EtcdError e)" "fst (SaveFeatureIfNewer c k f s) \<noteq> Inl (EtcdError e)"
proof -
  have g: "\<exists>kvs. fst (ec_Get c k s) = Inr kvs" for k s
    using assms by (metis etcd_calls_ok_def is_ok.simps(1) old.sum.exhaust)
  have t: "\<exists>a. fst (ec_Txn c cs os s) = Inr a" for cs os s
    using assms by (metis etcd_calls_ok_def is_ok.simps(1) old.sum.exhaust)
  show "fst (GetFeature c k s) \<noteq> Inl (EtcdError e)"
    using g [of k s] by (auto simp: GetFeature_def split: prod.splits list.splits)
  have c: "fst (save_commit c cmp k f s) \<noteq> Some (Inl (EtcdError e))" for cmp s
    using t [of "[cmp]" "[OpPut k (ToJSON f)]" s] by (auto simp: save_commit_def split: prod.splits if_splits)
  have r: "fst (save_round c k f s) \<noteq> Some (Inl (EtcdError e))" for s
    using g [of k s] c by (auto simp: save_round_def split: prod.splits list.splits option.splits if_splits)
  have "fst (save_loop c k f n s) \<noteq> Inl (EtcdError e)" for n
  proof (induction n arbitrary: s rule: measure_induct_rule [where f = "\<lambda>n. Suc save_maxRetries - n"])
    case (less n)
    obtain x s1 where x: "save_round c k f s = (x, s1)" by (rule prod.exhaust)
    with less.IH [of "n + 1" s1] r [of s] show ?case
      by (subst save_loop.simps) (auto split: option.splits)
  qed
  then show "fst (SaveFeatureIfNewer c k f s) \<noteq> Inl (EtcdError e)" by (simp add: SaveFeatureIfNewer_def)
qed

text \<open>
  One check with no other client: an absent key stays absent, a key whose flag can be read
  ends with at least the version of the database, no key appears or disappears.
\<close>

definition row_key :: "FeatureMaster \<Rightarrow> string" where
  "row_key m = BuildFeatureKey (fm_Env m) (fm_Namespace m) (fm_Key m)"

lemma dom_store_put: "k \<in> dom (es_kvs st) \<Longrightarrow> dom (es_kvs (store_put k v st)) = dom (es_kvs st)"
  by (auto simp: store_put_def Let_def)

lemma checkOne_alone:
  assumes h: "handle_good h es" "eh_env h = (=)" "etcd_calls_ok (eh_client h)"
    and m: "is_int64 (fm_Version m)" "0 < fm_Version m"
  shows "dom (es_kvs (eh_view h (checkOne (eh_client h) m es))) = dom (es_kvs (eh_view h es)) \<and>
    (stored_version (eh_view h es) (row_key m) \<noteq> None \<longrightarrow>
       has_version (eh_view h (checkOne (eh_client h) m es)) (row_key m) (fm_Version m))"
proof -
  let ?k = "row_key m"
  have ok: "etcd_ok (eh_client h) (eh_view h) (=)" using h(1,2) by (simp add: handle_good_def)
  obtain r es1 where g: "GetFeature (eh_client h) ?k es = (r, es1)" by (rule prod.exhaust)
  note G = GetFeature_alone [OF ok g]
  show ?thesis
  proof (cases r)
    case (Inl e)
    have "e = ErrFeatureNotFound"
      using g Inl calls_ok_no_error(1) [OF h(3), of ?k es] by (auto simp: GetFeature_def split: prod.splits sum.splits list.splits)
    with G Inl g show ?thesis by (simp add: checkOne_def row_key_def stored_version_def)
  next
    case (Inr f)
    obtain r2 es2 where s: "SaveFeatureIfNewer (eh_client h) ?k (recon_flag m) es1 = (r2, es2)" by (rule prod.exhaust)
    have c: "checkOne (eh_client h) m es = es2"
      using g s Inr G m(2) by (simp add: checkOne_def row_key_def should_fix_def)
    have k: "?k \<in> dom (es_kvs (eh_view h es))" using G Inr by auto
    have A: "alone_result (eh_view h es) ?k (recon_flag m) r2 (eh_view h es2)"
      using SaveFeatureIfNewer_alone [OF ok s] G by simp
    have g1: "handle_good h es1" using h(1) G by (simp add: handle_good_def)
    have "eh_view h es2 = eh_view h es \<or> eh_view h es2 = store_put ?k (ToJSON (recon_flag m)) (eh_view h es)"
      using A by (auto simp: alone_result_def split: sum.splits repo_error.splits if_splits)
    then have d: "dom (es_kvs (eh_view h es2)) = dom (es_kvs (eh_view h es))"
      using dom_store_put [OF k] by metis
    have v: "is_ok r2" if "stored_version (eh_view h es) ?k \<noteq> None"
      using A that calls_ok_no_error(2) [OF h(3), of ?k "recon_flag m" es1] s
      by (auto simp: alone_result_def stored_version_def split: sum.splits repo_error.splits)
    show ?thesis
      using d v push_ok [OF g1 recon_flag_ints [OF m(1)] s] unfolding c by (simp add: recon_flag_def)
  qed
qed

definition versions_int :: "FeatureMaster list \<Rightarrow> bool" where
  "versions_int ms \<longleftrightarrow> (\<forall>m \<in> set ms. is_int64 (fm_Version m))"

lemma checks_progress:
  "handle_good h es \<Longrightarrow> versions_int ms \<Longrightarrow>
   progress (eh_view h es) (eh_view h (fold (checkOne (eh_client h)) ms es))"
  by (rule etcd.fold_leads) (auto simp: versions_int_def checkOne_progress)

lemma checks_dom:
  assumes h: "eh_env h = (=)" "etcd_calls_ok (eh_client h)"
  shows "handle_good h es \<Longrightarrow> versions_int ms \<Longrightarrow> \<forall>m \<in> set ms. 0 < fm_Version m \<Longrightarrow>
    dom (es_kvs (eh_view h (fold (checkOne (eh_client h)) ms es))) = dom (es_kvs (eh_view h es))"
proof (induction ms arbitrary: es)
  case (Cons m ms)
  have m: "is_int64 (fm_Version m)" "0 < fm_Version m" "versions_int ms" using Cons.prems by (auto simp: versions_int_def)
  have "handle_good h (checkOne (eh_client h) m es)"
    using etcd.leads_good [OF checkOne_progress [OF Cons.prems(1) m(1)] Cons.prems(1)] .
  with Cons.IH [OF this m(3)] checkOne_alone [OF Cons.prems(1) h m(1,2)] Cons.prems(3) show ?case by simp
qed simp

lemma checks_repair:
  assumes h: "eh_env h = (=)" "etcd_calls_ok (eh_client h)" "handle_good h es"
    and ms: "versions_int ms" "m \<in> set ms" "0 < fm_Version m"
    and v: "stored_version (eh_view h es) (row_key m) \<noteq> None"
  shows "has_version (eh_view h (fold (checkOne (eh_client h)) ms es)) (row_key m) (fm_Version m)"
proof -
  obtain as bs where sp: "ms = as @ m # bs" using ms(2) by (auto dest: split_list)
  let ?c = "checkOne (eh_client h)"
  let ?e = "fold ?c as es"
  have vi: "versions_int as" "is_int64 (fm_Version m)" "versions_int bs" using ms(1) unfolding sp versions_int_def by auto
  have p1: "progress (eh_view h es) (eh_view h ?e)" by (rule checks_progress [OF h(3) vi(1)])
  then have "stored_version (eh_view h ?e) (row_key m) \<noteq> None" using v unfolding progress_def versions_le_def by fastforce
  moreover have g: "handle_good h ?e" using etcd.leads_good [OF p1 h(3)] .
  ultimately have hv: "has_version (eh_view h (?c m ?e)) (row_key m) (fm_Version m)"
    using checkOne_alone [OF g h(1,2) vi(2) ms(3)] by blast
  have "handle_good h (?c m ?e)" using etcd.leads_good [OF checkOne_progress [OF g vi(2)] g] .
  from has_version_progress [OF hv checks_progress [OF this vi(3)]] show ?thesis unfolding sp by simp
qed

section \<open>Properties\<close>


text \<open>Three rows in pages of two.\<close>

definition row_v :: "int \<Rightarrow> string \<Rightarrow> int \<Rightarrow> FeatureMaster" where
  "row_v i k v = zero_master\<lparr>fm_ID := i, fm_Namespace := ''a'', fm_Env := ''dev'', fm_Key := k, fm_Version := v\<rparr>"

definition three_rows :: "FeatureMaster list" where
  "three_rows = [row_v 1 ''k'' 5, row_v 2 ''l'' 6, row_v 3 ''lost'' 7]"

definition rows_db :: mem_db where
  "rows_db = (let t = \<lparr>tb_masters = three_rows, tb_audits = [], tb_tasks = [], tb_clients = []\<rparr>
     in \<lparr>md_tables = t, md_base = t\<rparr>)"

definition two_per_page :: ReconcilerConfig where
  "two_per_page = \<lparr>rc_Interval = 1, rc_BatchSize = 2, rc_BatchDelay = 0\<rparr>"

lemma three_rows_ok:
  "tb_masters (md_tables rows_db) = three_rows" "distinct (map fm_ID three_rows)" "sort_key fm_ID three_rows = three_rows"
  "int (length three_rows) + rc_BatchSize (NewReconciler two_per_page) \<le> int64_max"
  by (simp_all add: rows_db_def three_rows_def row_v_def NewReconciler_def two_per_page_def int64_max_def zero_master_def Let_def)



text \<open>In this run the first two keys are behind and the third is lost.\<close>

definition behind_etcd :: mem_etcd where
  "behind_etcd = mem_put (BuildFeatureKey ''dev'' ''a'' ''l'') (ToJSON (flag_v 3))
     (mem_put (BuildFeatureKey ''dev'' ''a'' ''k'') (ToJSON (flag_v 1)) mem_empty)"

definition mem_handle :: "mem_etcd etcd_handle" where
  "mem_handle = \<lparr>eh_client = mem_client, eh_view = mem_view, eh_env = (=)\<rparr>"

lemma mem_handle_good: "store_wf (mem_view s) \<Longrightarrow> handle_good mem_handle s"
  by (simp add: handle_good_def mem_handle_def mem_etcd_ok)

lemma mem_put_wf: "store_wf (mem_view s) \<Longrightarrow> store_wf (mem_view (mem_put k v s))"
  using evolves_put by (fastforce simp: evolves_def)

lemma mem_calls_ok: "etcd_calls_ok (eh_client mem_handle)"
  by (simp add: etcd_calls_ok_def mem_handle_def mem_client_def Let_def)

lemma behind_versions:
  "stored_version (mem_view behind_etcd) (row_key (row_v 1 ''k'' 5)) \<noteq> None"
  "stored_version (mem_view behind_etcd) (row_key (row_v 2 ''l'' 6)) \<noteq> None"
  "es_kvs (mem_view behind_etcd) (row_key (row_v 3 ''lost'' 7)) = None"
  by (simp_all add: behind_etcd_def row_key_def row_v_def stored_version_put zero_master_def)
    (simp add: store_put_def Let_def mem_view_def mem_empty_def BuildFeatureKey_def)

lemma reconcile_three_rows:
  "\<exists>es'. reconcile (NewReconciler two_per_page) c (mem_gorm id) (es, rows_db) = Some (True, es', rows_db)"
proof -
  have page: "ListByPage (mem_gorm id) off 2 rows_db = (Inr (take 2 (drop (nat off) three_rows)), rows_db)" for off
  proof -
    have rank: "master_rank IdAsc = fm_ID" by (simp add: fun_eq_iff)
    show ?thesis by (simp add: ListByPage_def mem_gorm_def mem_rows_def cut_def rank three_rows_ok(1,3))
  qed
  have "ListByPage (mem_gorm id) 0 2 rows_db = (Inr [row_v 1 ''k'' 5, row_v 2 ''l'' 6], rows_db)"
    "ListByPage (mem_gorm id) 2 2 rows_db = (Inr [row_v 3 ''lost'' 7], rows_db)"
    "ListByPage (mem_gorm id) 4 2 rows_db = (Inr [], rows_db)"
    unfolding page by (simp_all add: three_rows_def)
  note steps = reconcile_loop_steps(3) [OF this(1)] reconcile_loop_steps(3) [OF this(2)] reconcile_loop_steps(2) [OF this(3)]
  have w: "wrap64 (0 + 2) = 2" "wrap64 (2 + 2) = 4" by (simp_all add: wrap64_def)
  show ?thesis by (simp add: reconcile_def NewReconciler_def two_per_page_def steps w [simplified])
qed


end
