(* ===== verification/Delivery.thy ===== *)
theory Delivery
  imports Recon
begin

text \<open>
  The parts of the write path together: saves and rollbacks, the \<open>syncToEtcd\<close> goroutines they
  start, the outbox worker and the reconciler, in any interleaving and with other clients of
  etcd in between. Whatever the order, a task marked completed is in etcd, and its
  master record's version stays there.
\<close>

section \<open>The tasks of a save\<close>

definition new_row :: "OutboxTask list \<Rightarrow> FeatureFlag \<Rightarrow> OutboxTask \<Rightarrow> bool" where
  "new_row ts f k \<longleftrightarrow> 0 < ot_ID k \<and> is_int64 (ot_ID k) \<and> (\<forall>x \<in> set ts. ot_ID x < ot_ID k) \<and>
     ot_Payload k = ToJSON f \<and> ot_Status k = StatusPending"

text \<open>A save adds one task, or none; the job it starts is for this task.\<close>

definition tasks_effect :: "OutboxTask list \<Rightarrow> OutboxTask list \<Rightarrow> (int \<times> FeatureFlag) option \<Rightarrow> bool" where
  "tasks_effect ts ts' job \<longleftrightarrow> ts' = ts \<and> job = None \<or>
     (\<exists>k f. new_row ts f k \<and> is_int64 (ff_Version f) \<and> ts' = ts @ [k] \<and> (job = None \<or> job = Some (ot_ID k, f)))"

lemma next_master_version: "next_master flag m = (master, old) \<Longrightarrow> is_int64 (fm_Version master)"
  by (auto simp: next_master_def is_int64_small split: option.splits)

lemma save_rows_tasks:
  assumes ok: "db_ok coll g view base" and run: "save_rows g flag operator traceID m d1 = (r, d')"
  shows "base d' = base d1 \<and>
    (\<forall>v oid f. r = Inr (v, oid, f) \<longrightarrow> tasks_effect (tb_tasks (view d1)) (tb_tasks (view d')) (Some (oid, f)))"
proof -
  obtain master old where nm: "next_master flag m = (master, old)" by (rule prod.exhaust)
  obtain rs d2 where s: "go_SaveMaster g master d1 = (rs, d2)" by (rule prod.exhaust)
  have S: "base d2 = base d1" "tb_tasks (view d2) = tb_tasks (view d1)"
    using db_save_master [OF ok s] by (auto split: sum.splits)
  obtain ra d3 where a: "go_CreateAudit g (new_audit flag old operator traceID) d2 = (ra, d3)" by (rule prod.exhaust)
  have A: "base d3 = base d1" "tb_tasks (view d3) = tb_tasks (view d1)"
    using db_create_audit [OF ok a] S by (auto split: sum.splits)
  let ?f = "flag\<lparr>ff_Version := fm_Version master\<rparr>"
  obtain rt d4 where t: "go_CreateTask g (new_task ?f traceID) d3 = (rt, d4)" by (rule prod.exhaust)
  note T = db_create_task [OF ok t]
  show ?thesis
  proof (cases "\<exists>a' k. ra = Inr a' \<and> rt = Inr k")
    case False
    with run nm s a t S A T show ?thesis
      by (auto simp: save_rows_def SaveMaster_def CreateAudit_def CreateTask_def Let_def split: sum.splits)
  next
    case True
    then obtain a' k where ak: "ra = Inr a'" "rt = Inr k" by blast
    have d': "d' = d4" "r = Inr (fm_Version master, ot_ID k mod 2 ^ 64, ?f)"
      using run nm s a t ak by (simp_all add: save_rows_def SaveMaster_def CreateAudit_def CreateTask_def Let_def)
    have k: "new_row (tb_tasks (view d1)) ?f k" "tb_tasks (view d4) = tb_tasks (view d1) @ [k]" "base d4 = base d1"
      using T A ak by (simp_all add: stored_task_def new_task_def new_row_def)
    then have "ot_ID k mod 2 ^ 64 = ot_ID k" unfolding new_row_def by (intro id_mod) auto
    then show ?thesis unfolding d' tasks_effect_def using k next_master_version [OF nm] by auto
  qed
qed

lemma save_body_tasks:
  assumes ok: "db_ok coll g view base" and run: "save_body g flag operator traceID d1 = (r, d')"
  shows "base d' = base d1 \<and>
    (\<forall>v oid f. r = Inr (v, oid, f) \<longrightarrow> tasks_effect (tb_tasks (view d1)) (tb_tasks (view d')) (Some (oid, f)))"
proof -
  obtain rm d2 where m: "GetByKey g (ff_Namespace flag) (ff_Env flag) (ff_Key flag) d1 = (rm, d2)" by (rule prod.exhaust)
  note M = GetByKey_ok [OF ok m]
  show ?thesis
  proof (cases rm)
    case (Inl e)
    with run m M show ?thesis by (auto simp: save_body_def)
  next
    case (Inr om)
    with run m have "save_rows g flag operator traceID om d2 = (r, d')" by (simp add: save_body_def)
    from save_rows_tasks [OF ok this] M show ?thesis by simp
  qed
qed

lemma tasks_effect_none: "tasks_effect ts ts' job \<Longrightarrow> tasks_effect ts ts' None"
  by (auto simp: tasks_effect_def)

lemma SaveFeature_tasks:
  assumes ok: "db_ok coll g view base" and run: "SaveFeature g flag operator traceID d = (r, job, d')"
  shows "tasks_effect (tb_tasks (view d)) (tb_tasks (view d')) job"
proof (cases "validatePayload (ff_Type flag) (ff_Value flag)")
  case (Some e)
  with run show ?thesis by (auto simp: SaveFeature_def tasks_effect_def)
next
  case None
  obtain rx dx where x: "Transaction g (save_body g flag operator traceID) id d = (rx, dx)" by (rule prod.exhaust)
  have res: "job = (case rx of Inl e \<Rightarrow> None | Inr (v, oid, f) \<Rightarrow> Some (oid, f))" "d' = dx"
    using run None x by (auto simp: SaveFeature_def split: sum.splits)
  from ok x show ?thesis
  proof (cases rule: Transaction_cases)
    case (no_begin e)
    with res show ?thesis by (simp add: tasks_effect_def)
  next
    case (rolled_back d1 e d2)
    with save_body_tasks [OF ok rolled_back(3)] res show ?thesis by (simp add: tasks_effect_def)
  next
    case (committed d1 a d2)
    with save_body_tasks [OF ok committed(3)] res show ?thesis by (cases a) auto
  next
    case (unknown d1 a d2 e)
    obtain v oid f where a: "a = (v, oid, f)" by (cases a)
    have "tasks_effect (tb_tasks (view d)) (tb_tasks (view d2)) None" "base d2 = view d"
      using save_body_tasks [OF ok unknown(3)] unknown(1,2) unfolding a by (auto dest: tasks_effect_none)
    with res unknown(4,5) show ?thesis by (auto simp: tasks_effect_def)
  qed
qed

lemma RollbackFeature_tasks:
  assumes ok: "db_ok coll g view base"
    and run: "RollbackFeature g namespace env key auditID operator traceID d = (r, job, d')"
  shows "tasks_effect (tb_tasks (view d)) (tb_tasks (view d')) job"
proof -
  obtain ra d1 where a: "go_FirstAudit g (where_q [IdIs auditID]) d = (ra, d1)" by (rule prod.exhaust)
  note A = db_first_audit [OF ok a]
  obtain rm d2 where m: "GetByKey g namespace env key d1 = (rm, d2)" by (rule prod.exhaust)
  note M = GetByKey_ok [OF ok m]
  have "job = None \<and> view d' = view d \<or> (\<exists>fl. SaveFeature g fl operator traceID d2 = (r, job, d'))"
    using run a m A M by (auto simp: RollbackFeature_def FindByID_def Let_def split: sum.splits if_splits)
  then show ?thesis
  proof (elim disjE exE)
    fix fl
    assume "SaveFeature g fl operator traceID d2 = (r, job, d')"
    from SaveFeature_tasks [OF ok this] A M show ?thesis by simp
  qed (simp add: tasks_effect_def)
qed

section \<open>The system\<close>

text \<open>etcd, the database, and the \<open>syncToEtcd\<close> goroutines that have not run yet.\<close>

record ('e, 'd) system =
  sy_etcd :: 'e
  sy_db :: 'd
  sy_jobs :: "(int \<times> FeatureFlag) list"

text \<open>The text of a flag decoded from JSON, or from a column of the database, is UTF-8.\<close>

definition job_text :: "(int \<times> FeatureFlag) option \<Rightarrow> bool" where
  "job_text job \<longleftrightarrow> (case job of None \<Rightarrow> True | Some (i, f) \<Rightarrow> flag_utf8 f \<and> is_int64 (ff_Revision f))"

definition started :: "(int \<times> FeatureFlag) option \<Rightarrow> (int \<times> FeatureFlag) list" where
  "started job = (case job of None \<Rightarrow> [] | Some j \<Rightarrow> [j])"

inductive system_step :: "'e etcd_handle \<Rightarrow> 'd gorm \<Rightarrow> ('d \<Rightarrow> tables) \<Rightarrow> ('e, 'd) system \<Rightarrow> ('e, 'd) system \<Rightarrow> bool"
  for h :: "'e etcd_handle" and g :: "'d gorm" and view :: "'d \<Rightarrow> tables" where
  save: "SaveFeature g flag operator traceID (sy_db s) = (r, job, d') \<Longrightarrow> job_text job \<Longrightarrow>
    system_step h g view s (s\<lparr>sy_db := d', sy_jobs := sy_jobs s @ started job\<rparr>)"
| rollback: "RollbackFeature g namespace env key auditID operator traceID (sy_db s) = (r, job, d') \<Longrightarrow> job_text job \<Longrightarrow>
    system_step h g view s (s\<lparr>sy_db := d', sy_jobs := sy_jobs s @ started job\<rparr>)"
| sync: "(i, f) \<in> set (sy_jobs s) \<Longrightarrow> syncToEtcd (eh_client h) g i f (sy_etcd s, sy_db s) = (e', d') \<Longrightarrow>
    system_step h g view s (s\<lparr>sy_etcd := e', sy_db := d', sy_jobs := remove1 (i, f) (sy_jobs s)\<rparr>)"
| crash: "system_step h g view s (s\<lparr>sy_jobs := []\<rparr>)"
| worker: "processPending (eh_client h) g (sy_etcd s, sy_db s) = (e', d') \<Longrightarrow>
    system_step h g view s (s\<lparr>sy_etcd := e', sy_db := d'\<rparr>)"
| reconciler: "is_int64 (fm_Version m) \<Longrightarrow> checkOne (eh_client h) m (sy_etcd s) = e' \<Longrightarrow>
    system_step h g view s (s\<lparr>sy_etcd := e'\<rparr>)"
| others: "progress (eh_view h (sy_etcd s)) (eh_view h e') \<Longrightarrow> system_step h g view s (s\<lparr>sy_etcd := e'\<rparr>)"

text \<open>The invariant: completed tasks are in etcd, and every job belongs to its task.\<close>

definition jobs_ok :: "OutboxTask list \<Rightarrow> (int \<times> FeatureFlag) list \<Rightarrow> bool" where
  "jobs_ok ts js \<longleftrightarrow> (\<forall>(i, f) \<in> set js. flag_utf8 f \<and> flag_ints f \<and>
     (i, ToJSON f) \<in> set (map (\<lambda>k. (ot_ID k, ot_Payload k)) ts))"

definition system_inv :: "'e etcd_handle \<Rightarrow> ('d \<Rightarrow> tables) \<Rightarrow> ('e, 'd) system \<Rightarrow> bool" where
  "system_inv h view s \<longleftrightarrow> system_ok h view (sy_etcd s, sy_db s) \<and> jobs_ok (tb_tasks (view (sy_db s))) (sy_jobs s)"

lemma jobs_ok_same: "same_tasks a b \<Longrightarrow> jobs_ok (tb_tasks b) js = jobs_ok (tb_tasks a) js"
  by (simp only: jobs_ok_def same_tasks_def)

lemma tasks_effect_inv:
  assumes "tasks_effect ts ts' job" "outbox_inv es ts" "jobs_ok ts js" "job_text job"
  shows "outbox_inv es ts' \<and> jobs_ok ts' (js @ started job)"
proof (cases "ts' = ts \<and> job = None")
  case True
  with assms show ?thesis by (simp add: started_def)
next
  case False
  with assms(1) obtain k f where k: "new_row ts f k" "is_int64 (ff_Version f)" "ts' = ts @ [k]" "job = None \<or> job = Some (ot_ID k, f)"
    by (auto simp: tasks_effect_def)
  have "ids_ok ts'" using assms(2) k(1) unfolding k(3) by (auto simp: outbox_inv_def ids_ok_def new_row_def)
  then have "outbox_inv es ts'"
    using assms(2) k(1) unfolding k(3) by (auto simp: outbox_inv_def new_row_def status_defs)
  moreover have "jobs_ok ts' (js @ started job)"
    using k assms(3,4) by (auto simp: jobs_ok_def started_def job_text_def new_row_def flag_ints_def)
  ultimately show ?thesis by blast
qed

lemma system_ok_etcd:
  assumes "system_ok h view (es, d)" "progress (eh_view h es) (eh_view h es')"
  shows "system_ok h view (es', d)"
  using assms etcd.leads_good [OF assms(2)] outbox_inv_progress by (fastforce simp: system_ok_def)

lemma syncToEtcd_ok:
  assumes ok: "db_ok coll g view base" and sys: "system_ok h view (es, d)"
    and job: "flag_utf8 f" "flag_ints f" "(i, ToJSON f) \<in> set (map (\<lambda>k. (ot_ID k, ot_Payload k)) (tb_tasks (view d)))"
    and run: "syncToEtcd (eh_client h) g i f (es, d) = (es', d')"
  shows "progress (eh_view h es) (eh_view h es') \<and> system_ok h view (es', d') \<and> same_tasks (view d) (view d')"
proof -
  let ?k = "BuildFeatureKey (ff_Env f) (ff_Namespace f) (ff_Key f)"
  obtain r es1 where s: "SaveFeatureIfNewer (eh_client h) ?k f es = (r, es1)" by (rule prod.exhaust)
  have g: "handle_good h es" "outbox_inv (eh_view h es) (tb_tasks (view d))" using sys by (simp_all add: system_ok_def)
  note P = push_ok [OF g(1) job(2) s]
  have sys1: "system_ok h view (es1, d)" using system_ok_etcd [OF sys] P by blast
  show ?thesis
  proof (cases r)
    case (Inl e)
    with run s P sys1 show ?thesis by (auto simp: syncToEtcd_def)
  next
    case (Inr rv)
    have e: "es' = es1" "d' = snd (UpdateStatus g i StatusCompleted 0 d)" using run s Inr by (simp_all add: syncToEtcd_def)
    from job(3) obtain k where k: "k \<in> set (tb_tasks (view d))" "ot_ID k = i" "ot_Payload k = ToJSON f" by auto
    have "task_delivered (eh_view h es1) k"
      using P Inr k(3) job(1,2) by (simp add: task_delivered_def unmarshal_ToJSON)
    moreover have ids: "ids_ok (tb_tasks (view d))" using g(2) by (simp add: outbox_inv_def)
    ultimately have "\<forall>t \<in> set (tb_tasks (view d)). ot_ID t = i \<longrightarrow> task_delivered (eh_view h es1) t"
      using same_id [OF ids] k by metis
    with UpdateStatus_inv [OF ok] UpdateStatus_same [OF ok] sys1 P show ?thesis
      unfolding e by (simp add: system_ok_def)
  qed
qed

lemma jobs_ok_remove: "jobs_ok ts js \<Longrightarrow> jobs_ok ts (remove1 j js)"
  unfolding jobs_ok_def using set_remove1_subset [of j js] by blast

lemma system_step_inv:
  assumes ok: "db_ok coll g view base"
  shows "system_step h g view s s' \<Longrightarrow> system_inv h view s \<Longrightarrow>
    system_inv h view s' \<and> progress (eh_view h (sy_etcd s)) (eh_view h (sy_etcd s'))"
proof (induction rule: system_step.induct)
  case (save flag operator traceID s r job d')
  with tasks_effect_inv [OF SaveFeature_tasks [OF ok save.hyps(1)]] show ?case
    by (auto simp: system_inv_def system_ok_def)
next
  case (rollback namespace env key auditID operator traceID s r job d')
  with tasks_effect_inv [OF RollbackFeature_tasks [OF ok rollback.hyps(1)]] show ?case
    by (auto simp: system_inv_def system_ok_def)
next
  case (sync i f s e' d')
  from sync.prems sync.hyps(1) have j: "flag_utf8 f" "flag_ints f"
      "(i, ToJSON f) \<in> set (map (\<lambda>k. (ot_ID k, ot_Payload k)) (tb_tasks (view (sy_db s))))"
    and sys: "system_ok h view (sy_etcd s, sy_db s)" by (auto simp: system_inv_def jobs_ok_def)
  from syncToEtcd_ok [OF ok sys j sync.hyps(2)] sync.prems jobs_ok_same jobs_ok_remove show ?case
    by (fastforce simp: system_inv_def)
next
  case (crash s)
  then show ?case by (simp add: system_inv_def jobs_ok_def)
next
  case (worker s e' d')
  then have sys: "system_ok h view (sy_etcd s, sy_db s)" by (simp add: system_inv_def)
  from processPending_ok [OF ok sys worker.hyps] worker.prems jobs_ok_same show ?case by (fastforce simp: system_inv_def)
next
  case (reconciler m s e')
  then have sys: "system_ok h view (sy_etcd s, sy_db s)" by (simp add: system_inv_def)
  then have "progress (eh_view h (sy_etcd s)) (eh_view h e')"
    using checkOne_progress reconciler.hyps by (fastforce simp: system_ok_def)
  with system_ok_etcd [OF sys] reconciler.prems show ?case by (simp add: system_inv_def)
next
  case (others s e')
  then have sys: "system_ok h view (sy_etcd s, sy_db s)" by (simp add: system_inv_def)
  from system_ok_etcd [OF sys others.hyps] others show ?case by (simp add: system_inv_def)
qed

lemma system_steps_inv:
  assumes ok: "db_ok coll g view base" and run: "(system_step h g view)\<^sup>*\<^sup>* s s'" and inv: "system_inv h view s"
  shows "system_inv h view s' \<and> progress (eh_view h (sy_etcd s)) (eh_view h (sy_etcd s'))"
  using run
proof (induction rule: rtranclp_induct)
  case (step y z)
  with system_step_inv [OF ok] progress_trans show ?case by blast
qed (use inv in simp)

section \<open>Properties\<close>

text \<open>
  C4. A completed task is delivered. From an empty outbox, in every state that saves,
  rollbacks, their \<open>syncToEtcd\<close> goroutines (or their loss in a crash), ticks of any number of
  outbox workers, checks of reconcilers and writes of other clients reach in any order,
  with any call failing at any time: the payload of a task marked completed is a flag, and
  etcd holds its key with at least its version.
\<close>

theorem completed_means_delivered:
  assumes "db_ok coll g view base" "handle_good h (sy_etcd s)"
    and "tb_tasks (view (sy_db s)) = []" "sy_jobs s = []"
    and "(system_step h g view)\<^sup>*\<^sup>* s s'"
    and "t \<in> set (tb_tasks (view (sy_db s')))" "ot_Status t = StatusCompleted"
  shows "\<exists>f. unmarshal_flag (ot_Payload t) = Some f \<and>
    has_version (eh_view h (sy_etcd s')) (BuildFeatureKey (ff_Env f) (ff_Namespace f) (ff_Key f)) (ff_Version f)"
proof -
  have "system_inv h view s"
    using assms(2-4) by (simp add: system_inv_def system_ok_def outbox_inv_def ids_ok_def jobs_ok_def)
  then have "outbox_inv (eh_view h (sy_etcd s')) (tb_tasks (view (sy_db s')))"
    using system_steps_inv [OF assms(1,5)] by (simp add: system_inv_def system_ok_def)
  then have "task_delivered (eh_view h (sy_etcd s')) t" using assms(6,7) by (simp add: outbox_inv_def)
  then show ?thesis by (simp add: task_delivered_def split: option.splits)
qed

text \<open>A save and its \<open>syncToEtcd\<close>, from the empty system.\<close>

definition empty_system :: "(mem_etcd, mem_db) system" where
  "empty_system = (let t = \<lparr>tb_masters = [], tb_audits = [], tb_tasks = [], tb_clients = []\<rparr>
     in \<lparr>sy_etcd = mem_empty, sy_db = \<lparr>md_tables = t, md_base = t\<rparr>, sy_jobs = []\<rparr>)"

definition first_flag :: FeatureFlag where
  "first_flag = (flag_of ''on'')\<lparr>ff_Version := 1\<rparr>"

lemma first_flag_text: "flag_utf8 first_flag" "flag_ints first_flag"
  "BuildFeatureKey (ff_Env first_flag) (ff_Namespace first_flag) (ff_Key first_flag) = flag_key"
  by (simp_all add: first_flag_def flag_of_def zero_flag_def flag_utf8_def flag_ints_def is_int64_small flag_key_def
      ascii_valid is_ascii_def)

lemma first_save:
  "\<exists>d. SaveFeature (mem_gorm id) (flag_of ''on'') ''op'' [] (sy_db empty_system) = (Inr 1, Some (1, first_flag), d) \<and>
     map (\<lambda>t. (ot_ID t, ot_Payload t)) (tb_tasks (md_tables d)) = [(1, ToJSON first_flag)] \<and>
     map (\<lambda>t. (ot_ID t, ot_Status t)) (tb_tasks (md_tables d)) = [(1, 0)]"
  by (simp add: mem_run_defs empty_system_def flag_of_def first_flag_def zero_flag_def zero_master_def is_int64_small new_task_def status_defs)

lemma save_then_sync:
  assumes "SaveFeature g flag operator traceID (sy_db s) = (r, Some (i, f), d)" "job_text (Some (i, f))" "sy_jobs s = []"
    and "syncToEtcd (eh_client h) g i f (sy_etcd s, d) = (e', d')"
  shows "(system_step h g view)\<^sup>*\<^sup>* s (s\<lparr>sy_etcd := e', sy_db := d', sy_jobs := []\<rparr>)"
proof -
  let ?s1 = "s\<lparr>sy_db := d, sy_jobs := [(i, f)]\<rparr>"
  have "system_step h g view s ?s1"
    using system_step.save [OF assms(1,2), of h view] assms(3) by (simp add: started_def)
  moreover have "system_step h g view ?s1 (s\<lparr>sy_etcd := e', sy_db := d', sy_jobs := []\<rparr>)"
    using system_step.sync [of i f ?s1 h g e' d' view] assms(4) by simp
  ultimately show ?thesis by (meson converse_rtranclp_into_rtranclp r_into_rtranclp)
qed

lemma first_sync:
  "\<exists>s' t. (system_step mem_handle (mem_gorm id) md_tables)\<^sup>*\<^sup>* empty_system s' \<and>
     tb_tasks (md_tables (sy_db s')) = [t] \<and> ot_Status t = StatusCompleted \<and> ot_Payload t = ToJSON first_flag"
proof -
  obtain d where d: "SaveFeature (mem_gorm id) (flag_of ''on'') ''op'' [] (sy_db empty_system) = (Inr 1, Some (1, first_flag), d)"
    "map (\<lambda>t. (ot_ID t, ot_Payload t)) (tb_tasks (md_tables d)) = [(1, ToJSON first_flag)]"
    "map (\<lambda>t. (ot_ID t, ot_Status t)) (tb_tasks (md_tables d)) = [(1, 0)]"
    using first_save by (elim exE conjE) (rule that)
  let ?e = "mem_put flag_key (ToJSON first_flag) mem_empty" and ?d = "snd (UpdateStatus (mem_gorm id) 1 StatusCompleted 0 d)"
  have j: "job_text (Some (1, first_flag))" using first_flag_text by (simp add: job_text_def flag_ints_def)
  have e: "sy_jobs empty_system = []" "sy_etcd empty_system = mem_empty" "eh_client mem_handle = mem_client"
    by (simp_all add: empty_system_def mem_handle_def Let_def)
  have y: "syncToEtcd (eh_client mem_handle) (mem_gorm id) 1 first_flag (sy_etcd empty_system, d) = (?e, ?d)"
    unfolding e syncToEtcd_def prod.case first_flag_text(3) mem_save_new sum.case by (rule refl)
  note run = save_then_sync [where view = md_tables, OF d(1) j e(1) y]
  have "map (\<lambda>t. (ot_ID t, ot_Status t)) (tb_tasks (md_tables ?d)) = [(1, StatusCompleted)]"
    unfolding mem_update_status d(3) by simp
  moreover have "map (\<lambda>t. (ot_ID t, ot_Payload t)) (tb_tasks (md_tables ?d)) = [(1, ToJSON first_flag)]"
    using UpdateStatus_same [OF mem_db_ok [of id], where d = d] d(2) by (simp add: same_tasks_def)
  ultimately obtain t where "tb_tasks (md_tables ?d) = [t]" "ot_Status t = StatusCompleted" "ot_Payload t = ToJSON first_flag"
    by auto
  with run show ?thesis by (intro exI conjI) (rule run, simp_all)
qed

theorem completed_means_delivered_witness:
  "\<exists>s' t. (system_step mem_handle (mem_gorm id) md_tables)\<^sup>*\<^sup>* empty_system s' \<and>
     t \<in> set (tb_tasks (md_tables (sy_db s'))) \<and> ot_Status t = StatusCompleted \<and>
     has_version (mem_view (sy_etcd s')) flag_key 1"
proof -
  obtain s' t where s: "(system_step mem_handle (mem_gorm id) md_tables)\<^sup>*\<^sup>* empty_system s'"
    "tb_tasks (md_tables (sy_db s')) = [t]" "ot_Status t = StatusCompleted" "ot_Payload t = ToJSON first_flag"
    using first_sync by blast
  have g: "handle_good mem_handle (sy_etcd empty_system)" "tb_tasks (md_tables (sy_db empty_system)) = []"
    "sy_jobs empty_system = []"
    by (simp_all add: empty_system_def mem_handle_good Let_def)
  have t: "t \<in> set (tb_tasks (md_tables (sy_db s')))" using s(2) by simp
  have "has_version (eh_view mem_handle (sy_etcd s')) flag_key (ff_Version first_flag)"
    using completed_means_delivered [OF mem_db_ok g s(1) t s(3)] first_flag_text by (simp add: s(4) unmarshal_ToJSON)
  with s t show ?thesis by (auto simp: mem_handle_def first_flag_def)
qed

end
