(* ===== verification/Stream_Api.thy ===== *)
theory Stream_Api
  imports Sdk_Facts Delivery Feature_Hub
begin

text \<open>
  \<open>internal/api/stream_handler.go\<close>: the event stream of one client. The handler registers a
  channel with the hub, replays what the client missed from the revision buffer, then
  forwards what the hub delivers. gin's request and response are the query parameters and
  the list of events written; the headers, which are constants, are left out.
\<close>

section \<open>The code\<close>

record watch_query =
  wq_last_rev :: string
  wq_env :: string
  wq_namespace :: string

definition allow_namespace :: "string \<Rightarrow> (string, bool) gomap \<Rightarrow> (string, bool) gomap" where
  "allow_namespace p m = (if trim_space p \<noteq> [] then gm_put (trim_space p) True m else m)"

definition parse_namespaces :: "string \<Rightarrow> (string, bool) gomap" where
  "parse_namespaces s = (if s \<noteq> [] then fold allow_namespace (split_on (CHR '','') s) [] else [])"

text \<open>The client registered with the hub; \<open>None\<close> if the request is refused.\<close>

definition watch_client :: "watch_query \<Rightarrow> Client option" where
  "watch_client q =
     (let allowed = parse_namespaces (wq_namespace q) in
      if wq_env q = [] \<or> length allowed = 0 then None
      else Some \<lparr>cl_Send = [], cl_Cap = 128, cl_Closed = False, cl_Namespaces = allowed, cl_Env = wq_env q\<rparr>)"

definition watch_lastRev :: "watch_query \<Rightarrow> int" where
  "watch_lastRev q = (if wq_last_rev q \<noteq> [] then fst (parse_int (wq_last_rev q)) else 0)"

datatype sse_event = SseMessage Message | SsePing | SseReset

definition in_scope :: "Client \<Rightarrow> Message \<Rightarrow> bool" where
  "in_scope c msg \<longleftrightarrow> msg_Env msg = cl_Env c \<and> gm_get (cl_Namespaces c) (msg_Namespace msg) = Some True"

fun send_history :: "Client \<Rightarrow> Message list \<Rightarrow> int \<Rightarrow> sse_event list \<times> int" where
  "send_history c [] maxSentRev = ([], maxSentRev)"
| "send_history c (msg # messages) maxSentRev =
     (if \<not> in_scope c msg then send_history c messages maxSentRev
      else (let (evs, r) = send_history c messages (msg_Revision msg) in (SseMessage msg # evs, r)))"

definition watch_start :: "Client \<Rightarrow> int \<Rightarrow> Message list \<times> bool \<Rightarrow> sse_event list \<times> int" where
  "watch_start c lastRev answer =
     (case answer of
        (messages, True) \<Rightarrow> send_history c messages lastRev
      | (messages, False) \<Rightarrow> ([SseReset], lastRev))"

text \<open>The body of \<open>c.Stream\<close> for one message received from the channel.\<close>

definition watch_one :: "Client \<Rightarrow> Message \<Rightarrow> int \<Rightarrow> sse_event list \<times> int" where
  "watch_one c msg maxSentRev =
     (if msg_Type msg = ''ping'' then ([SsePing], maxSentRev)
      else if \<not> in_scope c msg then ([], maxSentRev)
      else if msg_Revision msg \<le> maxSentRev then ([], maxSentRev)
      else ([SseMessage msg], msg_Revision msg))"

fun watch_live :: "Client \<Rightarrow> Message list \<Rightarrow> int \<Rightarrow> sse_event list" where
  "watch_live c [] maxSentRev = []"
| "watch_live c (msg # inbox) maxSentRev =
     (case watch_one c msg maxSentRev of (evs, r) \<Rightarrow> evs @ watch_live c inbox r)"

text \<open>
  All that is written, from the answer of \<open>GetCompensation\<close> and the messages received until
  the channel is closed or the request is cancelled.
\<close>

definition WatchFeature :: "watch_query \<Rightarrow> (int \<Rightarrow> Message list \<times> bool) \<Rightarrow> Message list \<Rightarrow> sse_event list" where
  "WatchFeature q compensation inbox =
     (case watch_client q of
        None \<Rightarrow> []
      | Some c \<Rightarrow>
          (case watch_start c (watch_lastRev q) (compensation (watch_lastRev q)) of
             (evs, maxSentRev) \<Rightarrow> evs @ watch_live c inbox maxSentRev))"

definition dashboard_client :: "string \<Rightarrow> Client" where
  "dashboard_client env =
     \<lparr>cl_Send = [], cl_Cap = 128, cl_Closed = False, cl_Namespaces = [(''*'', True)], cl_Env = env\<rparr>"

definition DashboardWatch :: "Message list \<Rightarrow> sse_event list" where
  "DashboardWatch inbox = map (\<lambda>msg. if msg_Type msg = ''ping'' then SsePing else SseMessage msg) inbox"

definition fetch_filter :: "string \<Rightarrow> (string, bool) gomap \<Rightarrow> FeatureFlag \<Rightarrow> bool" where
  "fetch_filter env allowed f \<longleftrightarrow>
     \<not> (env \<noteq> [] \<and> ff_Env f \<noteq> env) \<and> \<not> (length allowed > 0 \<and> gm_get allowed (ff_Namespace f) \<noteq> Some True)"

definition FetchAll :: "string \<Rightarrow> string \<Rightarrow> FeatureFlag list \<times> int \<Rightarrow> SnapshotResponse" where
  "FetchAll env namespacesStr all =
     (case all of (fs, revision) \<Rightarrow>
        \<lparr>sr_Data = (if env = [] \<and> namespacesStr = [] then fs
           else filter (fetch_filter env (parse_namespaces namespacesStr)) fs),
         sr_Revision = revision\<rparr>)"

section \<open>The namespaces of a request\<close>

lemma allow_all:
  "gm_wf m \<Longrightarrow> gm_wf (fold allow_namespace ps m) \<and>
   (\<forall>n. gm_get (fold allow_namespace ps m) n = (if n \<noteq> [] \<and> n \<in> trim_space ` set ps then Some True else gm_get m n))"
  by (induction ps arbitrary: m) (auto simp: allow_namespace_def)

lemma parse_namespaces_get:
  "gm_get (parse_namespaces s) n = (if s \<noteq> [] \<and> n \<noteq> [] \<and> n \<in> trim_space ` set (split_on (CHR '','') s) then Some True else None)"
  using allow_all [of "[]" "split_on (CHR '','') s"] by (auto simp: parse_namespaces_def)

lemma parse_namespaces_wf: "gm_wf (parse_namespaces s)"
  using allow_all [of "[]" "split_on (CHR '','') s"] by (auto simp: parse_namespaces_def)

lemma watch_client_scope:
  assumes "watch_client q = Some c" "\<not> is_wildcard c"
  shows "wants c m \<longleftrightarrow> in_scope c m"
proof -
  from assms have c: "cl_Namespaces c = parse_namespaces (wq_namespace q)" by (auto simp: watch_client_def Let_def split: if_splits)
  have "msg_Namespace m \<in> set (gm_keys (cl_Namespaces c)) \<longleftrightarrow> gm_get (cl_Namespaces c) (msg_Namespace m) = Some True"
    using parse_namespaces_get [of "wq_namespace q" "msg_Namespace m"] gm_get_None_iff unfolding c
    by (metis option.distinct(1))
  with assms show ?thesis by (auto simp: wants_def in_scope_def in_shard_def)
qed

section \<open>What the handler receives\<close>

text \<open>The messages that a run of the hub broadcasts.\<close>

definition broadcast_of :: "hub_event \<Rightarrow> Message list" where
  "broadcast_of ev = (case ev of Broadcast ord m \<Rightarrow> [m] | _ \<Rightarrow> [])"

lemma posted_broadcasts:
  assumes "\<forall>m \<in> set (concat (map broadcast_of evs)). msg_Type m \<noteq> ''ping''"
  shows "filter (\<lambda>m. msg_Type m \<noteq> ''ping'') (concat (map (posted cl) evs)) = filter (wants cl) (concat (map broadcast_of evs))"
  using assms by (induction evs) (auto simp: posted_def broadcast_of_def ping_def split: hub_event.splits)

lemma pipeline_inbox:
  assumes "\<forall>m \<in> set live. msg_Type m \<noteq> ''ping''"
    and client: "watch_client q = Some cl" "\<not> is_wildcard cl"
    and hub: "hub_reachable heap h0" "hb_heap h0 i = cl" "run_ok hub_step event_ok (Register i # evs) h0"
      "run_log hub_step (received i) (Register i # evs) h0 = Some (got, h1)" "i \<in> set (hb_clients h1)" "cl_Send (hb_heap h1 i) = []"
      "concat (map broadcast_of evs) = live"
  shows "filter (\<lambda>m. msg_Type m \<noteq> ''ping'') got = filter (in_scope cl) live"
proof -
  have send: "cl_Send cl = []" using client(1) by (auto simp: watch_client_def Let_def split: if_splits)
  from register_delivers [OF hub_reachable_inv [OF hub(1)] hub(3)] hub(4,5,6)
  have got: "got = concat (map (posted cl) evs)" by (simp only: hub(2) send) auto
  have "\<forall>m \<in> set (concat (map broadcast_of evs)). msg_Type m \<noteq> ''ping''"
    unfolding hub(7) using assms(1) .
  note posted_broadcasts [OF this, of cl]
  moreover have scope: "wants cl = in_scope cl" using watch_client_scope [OF client] by (simp add: fun_eq_iff)
  ultimately show ?thesis unfolding got hub(7) by (simp only: scope)
qed

text \<open>
  A client that registers with the hub among other clients and heartbeats, is connected and
  has received \<open>got\<close>, all there was; the messages broadcast since its registration are \<open>live\<close>.
\<close>

definition delivered :: "Client \<Rightarrow> Message list \<Rightarrow> Message list \<Rightarrow> bool" where
  "delivered cl live got \<longleftrightarrow> (\<exists>heap h0 i evs h1.
     hub_reachable heap h0 \<and> hb_heap h0 i = cl \<and> run_ok hub_step event_ok (Register i # evs) h0 \<and>
     run_log hub_step (received i) (Register i # evs) h0 = Some (got, h1) \<and> i \<in> set (hb_clients h1) \<and>
     cl_Send (hb_heap h1 i) = [] \<and> concat (map broadcast_of evs) = live)"

lemma delivered_inbox:
  assumes "delivered cl live got" "watch_client q = Some cl" "\<not> is_wildcard cl" "\<forall>m \<in> set live. msg_Type m \<noteq> ''ping''"
  shows "filter (\<lambda>m. msg_Type m \<noteq> ''ping'') got = filter (in_scope cl) live"
  using assms(1) pipeline_inbox [OF assms(4,2,3)] unfolding delivered_def by blast

section \<open>What a stream sends\<close>

fun sent :: "sse_event list \<Rightarrow> Message list" where
  "sent [] = []"
| "sent (SseMessage m # es) = m # sent es"
| "sent (SsePing # es) = sent es"
| "sent (SseReset # es) = sent es"

lemma sent_append [simp]: "sent (xs @ ys) = sent xs @ sent ys"
  by (induction xs rule: sent.induct) auto

lemma sent_history:
  "sent (fst (send_history c ms r)) = filter (in_scope c) ms \<and>
   snd (send_history c ms r) = (if filter (in_scope c) ms = [] then r else msg_Revision (last (filter (in_scope c) ms))) \<and>
   SseReset \<notin> set (fst (send_history c ms r))"
  by (induction ms arbitrary: r) (auto simp: Let_def case_prod_beta)

text \<open>In a list of increasing revisions, only the first threshold matters.\<close>

definition live_for :: "Client \<Rightarrow> Message \<Rightarrow> bool" where
  "live_for c m \<longleftrightarrow> msg_Type m \<noteq> ''ping'' \<and> in_scope c m"

lemma watch_one_cases:
  "\<not> live_for c m \<Longrightarrow> sent (fst (watch_one c m r)) = [] \<and> snd (watch_one c m r) = r"
  "msg_Revision m \<le> r \<Longrightarrow> sent (fst (watch_one c m r)) = [] \<and> snd (watch_one c m r) = r"
  "live_for c m \<Longrightarrow> r < msg_Revision m \<Longrightarrow> watch_one c m r = ([SseMessage m], msg_Revision m)"
  by (auto simp: live_for_def watch_one_def)

lemma sent_live:
  "increasing (filter (live_for c) inbox) \<Longrightarrow>
   sent (watch_live c inbox r) = filter (\<lambda>m. r < msg_Revision m) (filter (live_for c) inbox)"
proof (induction inbox arbitrary: r)
  case (Cons m inbox)
  let ?rest = "filter (live_for c) inbox"
  obtain evs r' where w: "watch_one c m r = (evs, r')" by (rule prod.exhaust)
  have step: "sent (watch_live c (m # inbox) r) = sent evs @ sent (watch_live c inbox r')" by (simp add: w)
  show ?case
  proof (cases "live_for c m")
    case False
    with watch_one_cases(1) [OF False, of r] Cons w step show ?thesis by simp
  next
    case True
    then have p: "increasing ?rest" "\<forall>x \<in> set ?rest. msg_Revision m < msg_Revision x"
      using Cons.prems by (simp_all add: increasing_def)
    show ?thesis
    proof (cases "r < msg_Revision m")
      case fresh: True
      have "filter (\<lambda>x. msg_Revision m < msg_Revision x) ?rest = filter (\<lambda>x. r < msg_Revision x) ?rest"
        using p(2) fresh by (intro filter_cong refl) fastforce
      with Cons.IH [OF p(1)] True fresh step w watch_one_cases(3) [OF True fresh] show ?thesis by auto
    next
      case stale: False
      with Cons.IH [OF p(1)] True step w watch_one_cases(2) [of m r c] show ?thesis by simp
    qed
  qed
qed simp

lemma watch_live_no_reset: "SseReset \<notin> set (watch_live c inbox r)"
  by (induction inbox arbitrary: r) (auto simp: watch_one_def split: if_splits)

text \<open>
  The history sent and the messages received after it join without a repetition, when the
  channel has been fed from the \<open>j\<close>-th message on and the history covers the first \<open>n\<close>. What is
  missing are the messages between the two.
\<close>

lemma last_hist_max:
  assumes "increasing hist" "m \<in> set hist"
  shows "msg_Revision m \<le> msg_Revision (last hist)"
  using assms by (induction hist) (auto simp: increasing_def intro: less_imp_le)

lemma increasing_filter: "increasing ms \<Longrightarrow> increasing (filter P ms)"
  by (simp add: increasing_def sorted_wrt_filter)

lemma increasing_cut:
  "increasing ms \<Longrightarrow> filter f ms = filter (\<lambda>m. msg_Revision m \<le> r \<and> f m) ms @ filter (\<lambda>m. r < msg_Revision m \<and> f m) ms"
proof (induction ms)
  case (Cons m ms)
  then have inc: "increasing ms" "\<forall>x \<in> set ms. msg_Revision m < msg_Revision x" by (simp_all add: increasing_def)
  show ?case
  proof (cases "msg_Revision m \<le> r")
    case False
    then have "filter (\<lambda>m. msg_Revision m \<le> r \<and> f m) ms = []" using inc(2) by (force simp: filter_empty_conv)
    with False Cons.IH [OF inc(1)] show ?thesis by simp
  qed (use Cons.IH [OF inc(1)] in simp)
qed simp

lemma stream_join:
  fixes r :: int and f :: "Message \<Rightarrow> bool" and ms :: "Message list" and n :: nat
  assumes inc: "increasing ms"
  defines "hist \<equiv> filter f (filter (\<lambda>m. r < msg_Revision m) (take n ms))"
  defines "mx \<equiv> (if hist = [] then r else msg_Revision (last hist))"
  shows "hist @ filter (\<lambda>m. mx < msg_Revision m) (filter f (drop j ms)) =
    filter (\<lambda>m. r < msg_Revision m \<and> f m) (take n ms @ drop (max n j) ms)"
proof -
  have "increasing (take n ms)" using inc by (simp add: increasing_def sorted_wrt_take)
  then have hinc: "increasing hist" unfolding hist_def by (intro increasing_filter)
  have split: "drop j ms = drop j (take n ms) @ drop (max n j) ms"
  proof -
    have "drop j ms = drop j (take n ms) @ drop (j - length (take n ms)) (drop n ms)" by (metis append_take_drop_id drop_append)
    moreover have "drop (j - length (take n ms)) (drop n ms) = drop (max n j) ms"
      by (cases "n \<le> length ms") (auto simp: max_def min_def)
    ultimately show ?thesis by simp
  qed
  have lasth: "r < msg_Revision (last hist) \<and> last hist \<in> set (take n ms)" if "hist \<noteq> []"
    using last_in_set [OF that] unfolding hist_def by auto
  have r: "r \<le> mx" using lasth unfolding mx_def by (auto simp: less_imp_le)
  have old: "\<not> mx < msg_Revision m" if "m \<in> set (take n ms)" "f m" for m
  proof (cases "r < msg_Revision m")
    case True
    then have m: "m \<in> set hist" using that by (simp add: hist_def)
    then have "hist \<noteq> []" by auto
    with last_hist_max [OF hinc m] show ?thesis by (simp add: mx_def)
  qed (use r in simp)
  have new: "mx < msg_Revision m \<longleftrightarrow> r < msg_Revision m" if "m \<in> set (drop n ms)" for m
  proof (cases "hist = []")
    case False
    have "increasing (take n ms @ drop n ms)" using inc by simp
    then have "msg_Revision (last hist) < msg_Revision m"
      using lasth [OF False] that unfolding increasing_def sorted_wrt_append by blast
    with lasth [OF False] False show ?thesis by (simp add: mx_def)
  qed (simp add: mx_def)
  have "filter (\<lambda>m. mx < msg_Revision m) (filter f (drop j (take n ms))) = []"
    using old by (auto simp: filter_empty_conv dest: in_set_dropD)
  moreover have "filter (\<lambda>m. mx < msg_Revision m) (filter f (drop (max n j) ms)) = filter (\<lambda>m. r < msg_Revision m \<and> f m) (drop (max n j) ms)"
  proof -
    have "set (drop (max n j) ms) \<subseteq> set (drop n ms)" by (rule set_drop_subset_set_drop) simp
    with new show ?thesis by (auto intro!: filter_cong)
  qed
  moreover have "hist = filter (\<lambda>m. r < msg_Revision m \<and> f m) (take n ms)"
    unfolding hist_def by (auto intro!: filter_cong)
  ultimately show ?thesis unfolding split by simp
qed

text \<open>What the buffer gives to a client when it answers.\<close>

lemma replayed:
  assumes inc: "increasing ms" and b: "fold_opt AddMessage ms (NewRevisionBuffer sz) = Some b"
    and ans: "GetSince b r = Some (res, True)"
  shows "res = filter (\<lambda>m. r < msg_Revision m) ms"
proof (cases "ms = []")
  case True
  with b have new: "b = NewRevisionBuffer sz" by simp
  show ?thesis using True ans ring.since_ok [OF rb_inv_new, of sz r] unfolding new by (simp add: since_spec_def increasing_def)
next
  case False
  then show ?thesis using ring.since_complete [OF rb_inv_new rb_log_new b inc _ _ ans] by (simp add: rb_size_new)
qed

text \<open>What is sent, for both answers of the buffer and wherever the registration came.\<close>

lemma watch_sent:
  assumes q: "watch_client q = Some c" and inc: "increasing ms"
    and b: "fold_opt AddMessage (take n ms) (NewRevisionBuffer sz) = Some b"
    and ans: "GetSince b (watch_lastRev q) = Some (res, ok)"
    and inbox: "filter (\<lambda>m. msg_Type m \<noteq> ''ping'') inbox = filter (in_scope c) (drop j ms)"
  shows "sent (WatchFeature q (\<lambda>_. (res, ok)) inbox) =
      filter (\<lambda>m. watch_lastRev q < msg_Revision m \<and> in_scope c m) (if ok then take n ms @ drop (max n j) ms else drop j ms) \<and>
    (SseReset \<in> set (WatchFeature q (\<lambda>_. (res, ok)) inbox) \<longleftrightarrow> \<not> ok)"
proof -
  let ?r = "watch_lastRev q"
  obtain evs mx where h: "watch_start c ?r (res, ok) = (evs, mx)" by (rule prod.exhaust)
  have w: "WatchFeature q (\<lambda>_. (res, ok)) inbox = evs @ watch_live c inbox mx"
    by (simp add: WatchFeature_def q h)
  have "filter (live_for c) inbox = filter (in_scope c) (filter (\<lambda>m. msg_Type m \<noteq> ''ping'') inbox)"
    by (auto simp: live_for_def intro!: filter_cong)
  then have live: "filter (live_for c) inbox = filter (in_scope c) (drop j ms)" by (simp add: inbox)
  have "increasing (drop j ms)" using inc by (simp add: increasing_def sorted_wrt_drop)
  then have "increasing (filter (in_scope c) (drop j ms))" by (rule increasing_filter)
  with sent_live [of c inbox mx] have l: "sent (watch_live c inbox mx) =
      filter (\<lambda>m. mx < msg_Revision m) (filter (in_scope c) (drop j ms))" by (simp add: live)
  show ?thesis
  proof (cases ok)
    case True
    have "increasing (take n ms)" using inc by (simp add: increasing_def sorted_wrt_take)
    from replayed [OF this b] ans True have res: "res = filter (\<lambda>m. ?r < msg_Revision m) (take n ms)" by simp
    let ?hist = "filter (in_scope c) (filter (\<lambda>m. ?r < msg_Revision m) (take n ms))"
    have "send_history c res ?r = (evs, mx)" using h True by (simp add: watch_start_def)
    with sent_history [of c res ?r]
    have e: "sent evs = ?hist" "mx = (if ?hist = [] then ?r else msg_Revision (last ?hist))" "SseReset \<notin> set evs"
      unfolding res by simp_all
    have "sent (evs @ watch_live c inbox mx) = filter (\<lambda>m. ?r < msg_Revision m \<and> in_scope c m) (take n ms @ drop (max n j) ms)"
      using stream_join [OF inc, of "in_scope c" ?r n j] unfolding e(2) [symmetric] by (simp only: sent_append l e(1))
    with e(3) True watch_live_no_reset [of c inbox mx] show ?thesis unfolding w by simp
  next
    case False
    then have e: "evs = [SseReset]" "mx = ?r" using h by (auto simp: watch_start_def)
    then show ?thesis using False l unfolding w by (auto intro!: filter_cong)
  qed
qed

lemma watch_exact:
  assumes q: "watch_client q = Some c" and inc: "increasing ms" and j: "j \<le> n" "0 < n" "ms \<noteq> []"
    and noping: "\<forall>m \<in> set ms. msg_Type m \<noteq> ''ping''"
    and b: "fold_opt AddMessage (take n ms) (NewRevisionBuffer sz) = Some b"
    and ans: "GetSince b (watch_lastRev q) = Some (res, True)"
    and inbox: "filter (\<lambda>m. msg_Type m \<noteq> ''ping'') inbox = filter (in_scope c) (drop j ms)"
  shows "sent (WatchFeature q (\<lambda>_. (res, True)) inbox) =
      filter (\<lambda>m. watch_lastRev q < msg_Revision m \<and> in_scope c m) ms \<and>
    SseReset \<notin> set (WatchFeature q (\<lambda>_. (res, True)) inbox)"
  using watch_sent [OF q inc b ans inbox] j(1) by (simp add: max_def)

text \<open>The stream and the SDK together.\<close>

lemma reconnect_state:
  assumes "client_ok sdk" "wq_last_rev q = show_int (mc_lastRev sdk)" "is_int64 (mc_lastRev sdk)"
    and "gm_get (features_of sdk) = state_after (filter (\<lambda>m. msg_Revision m \<le> mc_lastRev sdk \<and> in_scope c m) ms) m0"
    and "watch_client q = Some c" "increasing ms" "j \<le> n" "0 < n" "ms \<noteq> []"
    and "\<forall>m \<in> set ms. msg_Type m \<noteq> ''ping''"
    and "fold_opt AddMessage (take n ms) (NewRevisionBuffer sz) = Some b"
    and "GetSince b (watch_lastRev q) = Some (res, True)"
    and "filter (\<lambda>m. msg_Type m \<noteq> ''ping'') inbox = filter (in_scope c) (drop j ms)"
  shows "\<exists>sdk'. fold_opt handleUpdate (sent (WatchFeature q (\<lambda>_. (res, True)) inbox)) sdk = Some sdk' \<and>
    gm_get (features_of sdk') = state_after (filter (in_scope c) ms) m0"
proof -
  let ?r = "mc_lastRev sdk" and ?new = "filter (\<lambda>m. mc_lastRev sdk < msg_Revision m \<and> in_scope c m) ms"
  have r: "watch_lastRev q = ?r"
    using assms(2,3) parse_int_show_int [of ?r] by (simp add: watch_lastRev_def is_int64_def int64_min_def int64_max_def show_int_def)
  have sent: "sent (WatchFeature q (\<lambda>_. (res, True)) inbox) = ?new"
    using watch_exact [OF assms(5-13)] unfolding r by blast
  from updates_state [OF assms(1) increasing_filter [OF assms(6)], of "\<lambda>m. ?r < msg_Revision m \<and> in_scope c m"]
  obtain sdk' where "fold_opt handleUpdate ?new sdk = Some sdk'"
    "gm_get (features_of sdk') = state_after (filter (\<lambda>m. ?r < msg_Revision m) ?new) (gm_get (features_of sdk))" by blast
  moreover have "filter (\<lambda>m. ?r < msg_Revision m) ?new = ?new" by (auto intro!: filter_cong)
  moreover have "filter (in_scope c) ms = filter (\<lambda>m. msg_Revision m \<le> ?r \<and> in_scope c m) ms @ ?new"
    using assms(6) by (rule increasing_cut)
  ultimately show ?thesis unfolding sent assms(4) by simp
qed

section \<open>Properties\<close>

text \<open>
  C5. What a stream sends, exactly. Let \<open>ms\<close> be the messages a server has published, \<open>n\<close> of
  them when the handler reads the history, and let the hub have broadcast \<open>j\<close> of them when
  it took the client's registration; other clients and heartbeats come anywhere between. If
  the replay buffer answers, the stream sends of the first \<open>n\<close> messages and of those from the
  \<open>j\<close>-th on the ones that are in scope and newer than the client's revision, once each and in
  order, and no reset: everything if the registration was in time (\<open>j \<le> n\<close>), and everything
  but the messages between history and registration otherwise (which does happen, see
  \<open>registration_race\<close>). If the buffer refuses, it sends a reset and the live messages only.
\<close>

theorem stream_exact:
  fixes q :: watch_query and res :: "Message list" and ok :: bool and got :: "Message list"
  assumes "watch_client q = Some c" "\<not> is_wildcard c" "increasing ms" "\<forall>m \<in> set ms. msg_Type m \<noteq> ''ping''"
    and "fold_opt AddMessage (take n ms) (NewRevisionBuffer sz) = Some b"
    and "GetSince b (watch_lastRev q) = Some (res, ok)" "delivered c (drop j ms) got"
  defines "evs \<equiv> WatchFeature q (\<lambda>_. (res, ok)) got"
    and "due \<equiv> filter (\<lambda>m. watch_lastRev q < msg_Revision m \<and> in_scope c m)"
  shows "sent evs = due (if ok then take n ms @ drop (max n j) ms else drop j ms) \<and>
    (SseReset \<in> set evs \<longleftrightarrow> \<not> ok) \<and> (ok \<and> j \<le> n \<longrightarrow> sent evs = due ms)"
proof -
  have "\<forall>m \<in> set (drop j ms). msg_Type m \<noteq> ''ping''" using assms(4) by (meson in_set_dropD)
  from watch_sent [OF assms(1,3,5,6) delivered_inbox [OF assms(7,1,2) this]] show ?thesis
    unfolding evs_def due_def by (auto simp: max_def)
qed

definition ns_msg :: "string \<Rightarrow> int \<Rightarrow> Message" where
  "ns_msg n r = zero_message\<lparr>msg_Namespace := n, msg_Env := ''prod'', msg_Key := ''k'', msg_Value := show_int r,
     msg_Type := TypeNumber, msg_Revision := r, msg_Action := PUT\<rparr>"

definition sample_query :: watch_query where
  "sample_query = \<lparr>wq_last_rev = ''1'', wq_env = ''prod'', wq_namespace = ''a, b''\<rparr>"

definition sample_stream :: Client where
  "sample_stream = \<lparr>cl_Send = [], cl_Cap = 128, cl_Closed = False,
     cl_Namespaces = [(''a'', True), (''b'', True)], cl_Env = ''prod''\<rparr>"

lemma sample_query_client: "watch_client sample_query = Some sample_stream" "watch_lastRev sample_query = 1"
  by code_simp+

abbreviation sample_history :: "Message list" where
  "sample_history \<equiv> [ns_msg ''a'' 1, ns_msg ''a'' 2, ns_msg ''c'' 3, ns_msg ''b'' 4]"

lemma sample_history_ok:
  "increasing sample_history" "\<forall>m \<in> set sample_history. msg_Type m \<noteq> ''ping''"
  by (simp_all add: increasing_def ns_msg_def TypeNumber_def)

lemma sample_answer:
  "\<exists>b. fold_opt AddMessage (take 3 sample_history) (NewRevisionBuffer 8) = Some b \<and>
     GetSince b 1 = Some ([ns_msg ''a'' 2, ns_msg ''c'' 3], True)"
proof -
  have "map_option (\<lambda>b. GetSince b 1) (fold_opt AddMessage (take 3 sample_history) (NewRevisionBuffer 8)) =
      Some (Some ([ns_msg ''a'' 2, ns_msg ''c'' 3], True))" by code_simp
  then show ?thesis by (auto simp: map_option_case split: option.splits)
qed

text \<open>
  Two clients at revision 1 of this history, the buffer holding three messages: one registers
  in time, the other when all four have been broadcast.
\<close>

abbreviation sample_events :: "hub_event list" where
  "sample_events \<equiv> [Broadcast id (ns_msg ''a'' 2), Receive 0, Heartbeat id, Receive 0, Broadcast id (ns_msg ''c'' 3),
     Broadcast id (ns_msg ''b'' 4), Receive 0]"

lemma sample_delivered:
  "delivered sample_stream (drop 1 sample_history) [ns_msg ''a'' 2, ping, ns_msg ''b'' 4]"
  "delivered sample_stream (drop 4 sample_history) []"
proof -
  let ?h = "NewHub (\<lambda>_. sample_stream)"
  have reg: "run_ok hub_step event_ok (Register 0 # sample_events) ?h" "run_ok hub_step event_ok [Register 0] ?h"
    unfolding run_ok.simps(2) [of _ _ "Register 0"] hub_step.simps option.case
    by (intro conjI events_ok_plain [where h = ?h]; simp add: NewHub_def sample_stream_def)+
  have heap: "hb_heap ?h 0 = sample_stream" by (simp add: NewHub_def)
  have "map_option (\<lambda>(got, h'). (got, 0 \<in> set (hb_clients h'), cl_Send (hb_heap h' 0)))
      (run_log hub_step (received 0) (Register 0 # sample_events) ?h) = Some ([ns_msg ''a'' 2, ping, ns_msg ''b'' 4], True, [])"
    "map_option (\<lambda>(got, h'). (got, 0 \<in> set (hb_clients h'), cl_Send (hb_heap h' 0)))
      (run_log hub_step (received 0) [Register 0] ?h) = Some ([], True, [])"
    by code_simp+
  then obtain h1 h2 where
    h1: "run_log hub_step (received 0) (Register 0 # sample_events) ?h = Some ([ns_msg ''a'' 2, ping, ns_msg ''b'' 4], h1)"
      "0 \<in> set (hb_clients h1)" "cl_Send (hb_heap h1 0) = []" and
    h2: "run_log hub_step (received 0) [Register 0] ?h = Some ([], h2)" "0 \<in> set (hb_clients h2)" "cl_Send (hb_heap h2 0) = []"
    by (auto simp del: run_log.simps)
  have l: "concat (map broadcast_of sample_events) = drop 1 sample_history" "concat (map broadcast_of []) = drop 4 sample_history"
    by (simp_all add: broadcast_of_def)
  show "delivered sample_stream (drop 1 sample_history) [ns_msg ''a'' 2, ping, ns_msg ''b'' 4]"
    unfolding delivered_def using hub_reachable.start heap reg(1) h1 l(1) by fastforce
  show "delivered sample_stream (drop 4 sample_history) []"
    unfolding delivered_def using hub_reachable.start heap reg(2) h2 l(2) by fastforce
qed

theorem stream_exact_witness:
  "sent (WatchFeature sample_query (\<lambda>_. ([ns_msg ''a'' 2, ns_msg ''c'' 3], True)) [ns_msg ''a'' 2, ping, ns_msg ''b'' 4]) =
     [ns_msg ''a'' 2, ns_msg ''b'' 4] \<and>
   sent (WatchFeature sample_query (\<lambda>_. ([ns_msg ''a'' 2, ns_msg ''c'' 3], True)) []) = [ns_msg ''a'' 2]"
proof -
  obtain b where b: "fold_opt AddMessage (take 3 sample_history) (NewRevisionBuffer 8) = Some b"
    "GetSince b (watch_lastRev sample_query) = Some ([ns_msg ''a'' 2, ns_msg ''c'' 3], True)"
    using sample_answer unfolding sample_query_client(2) by blast
  have w: "\<not> is_wildcard sample_stream" by (simp add: is_wildcard_def sample_stream_def)
  note S = stream_exact [OF sample_query_client(1) w sample_history_ok b]
  show ?thesis using S [OF sample_delivered(1)] S [OF sample_delivered(2)] unfolding sample_query_client(2)
    by (simp add: ns_msg_def in_scope_def sample_stream_def)
qed

text \<open>
  Reconnecting converges. An SDK client that holds the state after all messages in scope
  up to its revision, and reconnects with that revision, ends with the state after all
  messages in scope of the whole history, whatever it had missed: buffer, hub, stream and
  client compose, under the conditions of the stream's guarantee.
\<close>

theorem reconnect_converges:
  assumes "client_ok sdk" "wq_last_rev q = show_int (mc_lastRev sdk)" "is_int64 (mc_lastRev sdk)"
    and "gm_get (features_of sdk) = state_after (filter (\<lambda>m. msg_Revision m \<le> mc_lastRev sdk \<and> in_scope c m) ms) m0"
    and "watch_client q = Some c" "increasing ms" "j \<le> n" "0 < n" "ms \<noteq> []"
    and "\<forall>m \<in> set ms. msg_Type m \<noteq> ''ping''"
    and "fold_opt AddMessage (take n ms) (NewRevisionBuffer sz) = Some b"
    and "GetSince b (watch_lastRev q) = Some (res, True)"
    and "filter (\<lambda>m. msg_Type m \<noteq> ''ping'') inbox = filter (in_scope c) (drop j ms)"
  shows "\<exists>sdk'. fold_opt handleUpdate (sent (WatchFeature q (\<lambda>_. (res, True)) inbox)) sdk = Some sdk' \<and>
    gm_get (features_of sdk') = state_after (filter (in_scope c) ms) m0"
  using assms by (rule reconnect_state)

definition behind_sdk :: MizuClient where
  "behind_sdk = sample_client\<lparr>mc_features := Some [(''k'', message_flag (ns_msg ''a'' 1))], mc_lastRev := 1\<rparr>"

lemma behind_sdk_ok:
  "client_ok behind_sdk" "wq_last_rev sample_query = show_int (mc_lastRev behind_sdk)" "is_int64 (mc_lastRev behind_sdk)"
  "gm_get (features_of behind_sdk) =
     state_after (filter (\<lambda>m. msg_Revision m \<le> mc_lastRev behind_sdk \<and> in_scope sample_stream m) sample_history) (\<lambda>_. None)"
proof -
  have "show_int 1 = ''1''" by code_simp
  then show "wq_last_rev sample_query = show_int (mc_lastRev behind_sdk)" by (simp add: sample_query_def behind_sdk_def)
  show "gm_get (features_of behind_sdk) =
     state_after (filter (\<lambda>m. msg_Revision m \<le> mc_lastRev behind_sdk \<and> in_scope sample_stream m) sample_history) (\<lambda>_. None)"
    by (simp add: behind_sdk_def ns_msg_def in_scope_def sample_stream_def features_of_def state_after_one DELETE_def PUT_def
        message_flag_def fun_eq_iff)
qed (simp_all add: behind_sdk_def client_ok_def gm_wf_def is_int64_small)

theorem reconnect_converges_witness:
  "\<exists>sdk'. fold_opt handleUpdate
      (sent (WatchFeature sample_query (\<lambda>_. ([ns_msg ''a'' 2, ns_msg ''c'' 3], True)) [ns_msg ''a'' 2, ping, ns_msg ''b'' 4])) behind_sdk = Some sdk' \<and>
    map_option ff_Value (gm_get (features_of sdk') ''k'') = Some (show_int 4)"
proof -
  obtain b where b: "fold_opt AddMessage (take 3 sample_history) (NewRevisionBuffer 8) = Some b"
    "GetSince b 1 = Some ([ns_msg ''a'' 2, ns_msg ''c'' 3], True)" using sample_answer by blast
  have i: "filter (\<lambda>m. msg_Type m \<noteq> ''ping'') [ns_msg ''a'' 2, ping, ns_msg ''b'' 4] = filter (in_scope sample_stream) (drop 1 sample_history)"
    by (simp add: ns_msg_def TypeNumber_def ping_def in_scope_def sample_stream_def)
  have h: "(1::nat) \<le> 3" "0 < (3::nat)" "sample_history \<noteq> []" by simp_all
  have "gm_get (features_of sdk') ''k'' = Some (message_flag (ns_msg ''b'' 4))"
    if "gm_get (features_of sdk') = state_after (filter (in_scope sample_stream) sample_history) (\<lambda>_. None)" for sdk'
    unfolding that by (simp add: ns_msg_def in_scope_def sample_stream_def state_after_def last_change_def DELETE_def PUT_def)
  with reconnect_converges [OF behind_sdk_ok sample_query_client(1) sample_history_ok(1) h sample_history_ok(2) b(1)
      b(2)[folded sample_query_client(2)] i]
  show ?thesis by (auto simp: message_flag_def ns_msg_def)
qed

text \<open>
  The registration can come too late. The register queue of the hub has room, so a
  handler reads the history while its registration waits; the hub may take a broadcast
  first. Here the client at revision 1 gets no history, message 2 is broadcast before the
  hub takes the registration and message 3 after it: the stream sends 3 alone, and the SDK
  moves to revision 3 without ever seeing 2.
\<close>

theorem registration_race:
  "register_capacity 512 > 0 \<and>
   (\<exists>b h sdk. fold_opt AddMessage [ns_msg ''a'' 1] (NewRevisionBuffer 1000) = Some b \<and> GetSince b 1 = Some ([], True) \<and>
      fold_opt hub_step [Broadcast id (ns_msg ''a'' 2), Register 0, Broadcast id (ns_msg ''a'' 3)] (NewHub (\<lambda>_. sample_stream)) = Some h \<and>
      0 \<in> set (hb_clients h) \<and>
      sent (WatchFeature sample_query (\<lambda>_. ([], True)) (cl_Send (hb_heap h 0))) = [ns_msg ''a'' 3] \<and>
      fold_opt handleUpdate [ns_msg ''a'' 3] behind_sdk = Some sdk \<and> mc_lastRev sdk = 3)"
proof -
  have b: "\<exists>b. fold_opt AddMessage [ns_msg ''a'' 1] (NewRevisionBuffer 1000) = Some b \<and> GetSince b 1 = Some ([], True)"
  proof -
    have inc: "increasing [ns_msg ''a'' 1]" by (simp add: increasing_def)
    obtain b where b: "fold_opt AddMessage [ns_msg ''a'' 1] (NewRevisionBuffer 1000) = Some b" "rb_inv b" "rb_log b = [ns_msg ''a'' 1]"
      using ring.add_all_ok [OF rb_inv_new, of "[ns_msg ''a'' 1]" 1000] by (auto simp: rb_size_new)
    with GetSince_spec [OF b(2)] inc have "GetSince b 1 = Some ([], True)" by (simp add: since_spec_def ns_msg_def)
    with b show ?thesis by blast
  qed
  have h: "\<exists>h. fold_opt hub_step [Broadcast id (ns_msg ''a'' 2), Register 0, Broadcast id (ns_msg ''a'' 3)] (NewHub (\<lambda>_. sample_stream)) = Some h \<and>
      0 \<in> set (hb_clients h) \<and> cl_Send (hb_heap h 0) = [ns_msg ''a'' 3]"
    by (simp add: hub_broadcast_def send_to_audience_def observe_def NewHub_def shard_clients_def hub_register_def addToShards_def is_wildcard_def
        sample_stream_def shard_add_def sendMessage_def ns_msg_def Let_def)
  have s: "sent (WatchFeature sample_query (\<lambda>_. ([], True)) [ns_msg ''a'' 3]) = [ns_msg ''a'' 3]"
    unfolding WatchFeature_def sample_query_client
    by (simp add: watch_start_def watch_one_def in_scope_def sample_stream_def ns_msg_def TypeNumber_def)
  have "\<exists>sdk. fold_opt handleUpdate [ns_msg ''a'' 3] behind_sdk = Some sdk \<and> mc_lastRev sdk = 3"
    using updates_state [OF behind_sdk_ok(1), of "[ns_msg ''a'' 3]"]
    by (auto simp: increasing_def ns_msg_def behind_sdk_def)
  with b h s show ?thesis by (auto simp: register_capacity_def)
qed

end
