(* ===== verification/Auth_Service.thy ===== *)
theory Auth_Service
  imports Stream_Api
begin

text \<open>
  \<open>internal/service/auth.go\<close>, \<open>internal/service/context.go\<close> and the authenticating middlewares
  \<open>internal/middleware/jwt.go\<close> and \<open>auth.go\<close>: sessions as a pair of signed tokens, the
  refresh token kept in redis. The JWT library, redis, the clock (nanoseconds since 1970)
  and the uuid generator are parameters.
\<close>

section \<open>What is not in the repository\<close>

text \<open>The claims of a token, with the registered ones the code sets; dates in seconds.\<close>

record UserClaims =
  uc_UserID :: string
  uc_Username :: string
  uc_Role :: string
  uc_ExpiresAt :: int
  uc_IssuedAt :: int
  uc_NotBefore :: int
  uc_Issuer :: string
  uc_ID :: string

text \<open>Signing, and \<open>ParseWithClaims\<close> at a time: \<open>None\<close> is an error or a token not \<open>Valid\<close>.\<close>

record jwt_lib =
  jl_Sign :: "string \<Rightarrow> UserClaims \<Rightarrow> string + string"
  jl_Parse :: "string \<Rightarrow> int \<Rightarrow> string \<Rightarrow> UserClaims option"

record 'r redis =
  rd_Get :: "string \<Rightarrow> 'r \<Rightarrow> (string + string option) \<times> 'r"
  rd_Set :: "string \<Rightarrow> string \<Rightarrow> int \<Rightarrow> 'r \<Rightarrow> string option \<times> 'r"
  rd_Del :: "string \<Rightarrow> 'r \<Rightarrow> string option \<times> 'r"

section \<open>The service\<close>

definition RedisKeyPrefix :: string where "RedisKeyPrefix = ''mizuflow:auth:session:''"
definition Issuer :: string where "Issuer = ''mizuflow-auth-service''"
definition SignedKey :: string where "SignedKey = ''mizuflow-super-secret-key-2026''"

datatype auth_error = ErrInvalidCredentials | ErrTokenInvalid | ErrSessionExpired | AuthOther string

record AuthService =
  au_accessTokenTTL :: int
  au_refreshTokenTTL :: int

definition numeric_date :: "int \<Rightarrow> int" where
  "numeric_date t = t div Second"

definition whole_seconds :: "int \<Rightarrow> int" where
  "whole_seconds d = (if d \<ge> 0 then d div Second else - ((- d) div Second))"

definition token_claims :: "string \<Rightarrow> string \<Rightarrow> string \<Rightarrow> int \<Rightarrow> int \<Rightarrow> string \<Rightarrow> UserClaims" where
  "token_claims userID username role now ttl jti =
     \<lparr>uc_UserID = userID, uc_Username = username, uc_Role = role, uc_ExpiresAt = numeric_date (now + ttl),
      uc_IssuedAt = numeric_date now, uc_NotBefore = numeric_date now, uc_Issuer = Issuer, uc_ID = jti\<rparr>"

definition zero_user :: UserInfo where "zero_user = \<lparr>ui_ID = [], ui_Username = [], ui_Role = []\<rparr>"

definition generateTokens ::
  "AuthService \<Rightarrow> jwt_lib \<Rightarrow> 'r redis \<Rightarrow> int \<Rightarrow> string \<Rightarrow> string \<Rightarrow> string \<Rightarrow> string \<Rightarrow> 'r \<Rightarrow> (auth_error + TokenResp) \<times> 'r" where
  "generateTokens s jl rd now uuid userID username role r =
     (case jl_Sign jl SignedKey (token_claims userID username role now (au_accessTokenTTL s) []) of
        Inl e \<Rightarrow> (Inl (AuthOther e), r)
      | Inr accessToken \<Rightarrow>
          (case jl_Sign jl SignedKey (token_claims userID username role now (au_refreshTokenTTL s) uuid) of
             Inl e \<Rightarrow> (Inl (AuthOther e), r)
           | Inr refreshToken \<Rightarrow>
               (case rd_Set rd (RedisKeyPrefix @ userID) refreshToken (au_refreshTokenTTL s) r of
                  (Some e, r1) \<Rightarrow> (Inl (AuthOther e), r1)
                | (None, r1) \<Rightarrow>
                    (Inr \<lparr>tk_AccessToken = accessToken, tk_RefreshToken = refreshToken,
                        tk_ExpiresIn = whole_seconds (au_accessTokenTTL s), tk_User = zero_user\<rparr>, r1))))"

definition Login ::
  "AuthService \<Rightarrow> jwt_lib \<Rightarrow> 'r redis \<Rightarrow> int \<Rightarrow> string \<Rightarrow> LoginReq \<Rightarrow> 'r \<Rightarrow> (auth_error + TokenResp) \<times> 'r" where
  "Login s jl rd now uuid req r =
     (if lr_Username req \<noteq> ''admin'' \<or> lr_Password req \<noteq> ''admin123'' then (Inl ErrInvalidCredentials, r)
      else
        (case generateTokens s jl rd now uuid ''1001'' (lr_Username req) ''admin'' r of
           (Inl e, r1) \<Rightarrow> (Inl e, r1)
         | (Inr tokens, r1) \<Rightarrow>
             (Inr (tokens\<lparr>tk_User := \<lparr>ui_ID = ''1001'', ui_Username = lr_Username req, ui_Role = ''admin''\<rparr>\<rparr>), r1)))"

text \<open>\<open>Refresh\<close> up to the check, then the rotation.\<close>

definition refresh_check ::
  "jwt_lib \<Rightarrow> 'r redis \<Rightarrow> int \<Rightarrow> string \<Rightarrow> 'r \<Rightarrow> (auth_error + UserClaims) \<times> 'r" where
  "refresh_check jl rd now refreshToken r =
     (case jl_Parse jl SignedKey now refreshToken of
        None \<Rightarrow> (Inl ErrTokenInvalid, r)
      | Some claims \<Rightarrow>
          (case rd_Get rd (RedisKeyPrefix @ uc_UserID claims) r of
             (Inl e, r1) \<Rightarrow> (Inl (AuthOther e), r1)
           | (Inr None, r1) \<Rightarrow> (Inl ErrSessionExpired, r1)
           | (Inr (Some storedToken), r1) \<Rightarrow>
               if storedToken \<noteq> refreshToken then (Inl ErrTokenInvalid, r1) else (Inr claims, r1)))"

definition Refresh ::
  "AuthService \<Rightarrow> jwt_lib \<Rightarrow> 'r redis \<Rightarrow> int \<Rightarrow> string \<Rightarrow> string \<Rightarrow> 'r \<Rightarrow> (auth_error + TokenResp) \<times> 'r" where
  "Refresh s jl rd now uuid refreshToken r =
     (case refresh_check jl rd now refreshToken r of
        (Inl e, r1) \<Rightarrow> (Inl e, r1)
      | (Inr claims, r1) \<Rightarrow>
          generateTokens s jl rd now uuid (uc_UserID claims) (uc_Username claims) (uc_Role claims) r1)"

definition Logout :: "'r redis \<Rightarrow> string \<Rightarrow> 'r \<Rightarrow> string option \<times> 'r" where
  "Logout rd userID r = rd_Del rd (RedisKeyPrefix @ userID) r"

section \<open>The operator of a request\<close>

record OperatorInfo =
  op_UserID :: string
  op_Name :: string
  op_Role :: string

text \<open>
  The context of a request is read by keys: the operator sits under the package's own key
  (of type \<open>contextKey\<close>), which no string equals, and there may be texts under string keys.
\<close>

record request_context =
  rc_Operator :: "OperatorInfo option"
  rc_Values :: "(string, string) gomap"

definition Background :: request_context where
  "Background = \<lparr>rc_Operator = None, rc_Values = []\<rparr>"

definition WithOperator :: "request_context \<Rightarrow> OperatorInfo \<Rightarrow> request_context" where
  "WithOperator ctx op = ctx\<lparr>rc_Operator := Some op\<rparr>"

definition GetOperatorInfo :: "request_context \<Rightarrow> OperatorInfo option" where
  "GetOperatorInfo ctx = rc_Operator ctx"

definition GetOperator :: "request_context \<Rightarrow> string" where
  "GetOperator ctx = (case GetOperatorInfo ctx of None \<Rightarrow> ''system'' | Some op \<Rightarrow> op_Name op)"

section \<open>The middlewares\<close>

record http_request =
  rq_Authorization :: string
  rq_DevPass :: string
  rq_token :: string
  rq_MizuKey :: string
  rq_env :: string

datatype 'a verdict = Abort int string | Pass 'a

definition dev_admin :: OperatorInfo where
  "dev_admin = \<lparr>op_UserID = ''9999'', op_Name = ''dev-admin'', op_Role = ''admin''\<rparr>"

definition bearer_token :: "http_request \<Rightarrow> string" where
  "bearer_token rq =
     (let parts = split_on (CHR '' '') (rq_Authorization rq);
          tokenString = (if rq_Authorization rq \<noteq> [] \<and> length parts = 2 \<and> parts ! 0 = ''Bearer'' then parts ! 1 else [])
      in if tokenString = [] then rq_token rq else tokenString)"

definition JWTMiddleware :: "bool \<Rightarrow> jwt_lib \<Rightarrow> int \<Rightarrow> http_request \<Rightarrow> request_context \<Rightarrow> request_context verdict" where
  "JWTMiddleware devMode jl now rq ctx =
     (if devMode \<and> rq_DevPass rq = ''true'' then Pass (WithOperator ctx dev_admin)
      else if bearer_token rq = [] then Abort 401 ''Authorization header missing''
      else (case jl_Parse jl SignedKey now (bearer_token rq) of
              None \<Rightarrow> Abort 401 ''Invalid access token''
            | Some claims \<Rightarrow>
                Pass (WithOperator ctx \<lparr>op_UserID = uc_UserID claims, op_Name = uc_Username claims, op_Role = uc_Role claims\<rparr>)))"

definition SDKAuthMiddleware :: "bool \<Rightarrow> 'd gorm \<Rightarrow> http_request \<Rightarrow> 'd \<Rightarrow> unit verdict \<times> 'd" where
  "SDKAuthMiddleware bypassAuth g rq d =
     (if bypassAuth then (Pass (), d)
      else if rq_MizuKey rq = [] then (Abort 401 ''missing API key'', d)
      else (case ValidateAPIKey g (rq_MizuKey rq) (rq_env rq) d of
              (Inl e, d1) \<Rightarrow> (Abort 403 ''forbidden'', d1)
            | (Inr ok, d1) \<Rightarrow> ((if \<not> ok then Abort 403 ''forbidden'' else Pass ()), d1)))"

section \<open>What the code relies on\<close>

definition in_time :: "int \<Rightarrow> UserClaims \<Rightarrow> bool" where
  "in_time now c \<longleftrightarrow> uc_NotBefore c * Second \<le> now \<and> now < uc_ExpiresAt c * Second"

definition claims_ok :: "UserClaims \<Rightarrow> bool" where
  "claims_ok c \<longleftrightarrow> valid_utf8 (uc_UserID c) \<and> valid_utf8 (uc_Username c) \<and> valid_utf8 (uc_Role c) \<and>
     valid_utf8 (uc_Issuer c) \<and> valid_utf8 (uc_ID c) \<and>
     (\<forall>t \<in> {uc_ExpiresAt c, uc_IssuedAt c, uc_NotBefore c}. 0 \<le> t \<and> t < 2 ^ 53)"

text \<open>
  A signed token is read back with its claims while it is in time and refused otherwise; it
  is not empty and has no space. Only well-formed claims are read.
\<close>

definition jwt_ok :: "jwt_lib \<Rightarrow> bool" where
  "jwt_ok jl \<longleftrightarrow>
     (\<forall>k c t. jl_Sign jl k c = Inr t \<longrightarrow> claims_ok c \<longrightarrow> t \<noteq> [] \<and> CHR '' '' \<notin> set t \<and>
        (\<forall>now. jl_Parse jl k now t = (if in_time now c then Some c else None))) \<and>
     (\<forall>k now t c. jl_Parse jl k now t = Some c \<longrightarrow> claims_ok c)"

text \<open>
  The sessions in redis: a read does not invent one, a write or a deletion touches its own
  key only, a failed call may or may not have had its effect, and a session may expire at
  any time.
\<close>

definition may_become :: "(string \<rightharpoonup> string) \<Rightarrow> (string \<rightharpoonup> string) \<Rightarrow> bool" where
  "may_become a b \<longleftrightarrow> (\<forall>k v. b k = Some v \<longrightarrow> a k = Some v)"

definition redis_ok :: "'r redis \<Rightarrow> ('r \<Rightarrow> string \<rightharpoonup> string) \<Rightarrow> bool" where
  "redis_ok rd view \<longleftrightarrow>
     (\<forall>k s r s'. rd_Get rd k s = (r, s') \<longrightarrow> may_become (view s) (view s') \<and> (\<forall>v. r = Inr (Some v) \<longrightarrow> view s k = Some v)) \<and>
     (\<forall>k v ttl s r s'. rd_Set rd k v ttl s = (r, s') \<longrightarrow>
        may_become ((view s)(k \<mapsto> v)) (view s') \<or> r \<noteq> None \<and> may_become (view s) (view s')) \<and>
     (\<forall>k s r s'. rd_Del rd k s = (r, s') \<longrightarrow>
        may_become (view s) (view s') \<and> (r = None \<longrightarrow> view s' k = None))"

section \<open>Calls that interleave\<close>

text \<open>
  What redis sees of the service: a login and a logout are one step each, a refresh is two,
  the check of the stored token and the storing of the new one, and steps of other requests
  come between them in any order. A request that has passed the check holds the token and its
  claims until it issues; requests have numbers.
\<close>

datatype auth_step =
    StepLogin int string LoginReq
  | StepCheck nat int string
  | StepIssue nat int string
  | StepLogout string

text \<open>The answers; \<open>Exchange\<close> is the one to a refresh with this token.\<close>

datatype auth_answer =
    LoggedIn "auth_error + TokenResp"
  | CheckPassed nat string
  | Exchange nat string "auth_error + TokenResp"
  | LoggedOut
  | NothingToDo

type_synonym checked = "nat \<rightharpoonup> string \<times> UserClaims"

fun auth_next ::
  "AuthService \<Rightarrow> jwt_lib \<Rightarrow> 'r redis \<Rightarrow> auth_step \<Rightarrow> checked \<times> 'r \<Rightarrow> auth_answer \<times> checked \<times> 'r" where
  "auth_next s jl rd (StepLogin now uuid req) (p, r) =
     (case Login s jl rd now uuid req r of (t, r1) \<Rightarrow> (LoggedIn t, p, r1))"
| "auth_next s jl rd (StepCheck i now tok) (p, r) =
     (case refresh_check jl rd now tok r of
        (Inl e, r1) \<Rightarrow> (Exchange i tok (Inl e), p(i := None), r1)
      | (Inr claims, r1) \<Rightarrow> (CheckPassed i tok, p(i \<mapsto> (tok, claims)), r1))"
| "auth_next s jl rd (StepIssue i now uuid) (p, r) =
     (case p i of
        None \<Rightarrow> (NothingToDo, p, r)
      | Some (tok, claims) \<Rightarrow>
          (case generateTokens s jl rd now uuid (uc_UserID claims) (uc_Username claims) (uc_Role claims) r of
             (t, r1) \<Rightarrow> (Exchange i tok t, p(i := None), r1)))"
| "auth_next s jl rd (StepLogout userID) (p, r) = (LoggedOut, p, snd (Logout rd userID r))"

fun auth_run ::
  "AuthService \<Rightarrow> jwt_lib \<Rightarrow> 'r redis \<Rightarrow> auth_step list \<Rightarrow> checked \<times> 'r \<Rightarrow> auth_answer list \<times> checked \<times> 'r" where
  "auth_run s jl rd [] st = ([], st)"
| "auth_run s jl rd (step # steps) st =
     (case auth_next s jl rd step st of (out, st1) \<Rightarrow>
        (case auth_run s jl rd steps st1 of (outs, st2) \<Rightarrow> (out # outs, st2)))"

text \<open>The two steps of a refresh, with nothing between them, are the method of the code.\<close>

lemma Refresh_steps:
  "Refresh s jl rd now uuid tok r = (res, r') \<Longrightarrow>
    \<exists>outs p'. auth_run s jl rd [StepCheck i now tok, StepIssue i now uuid] (p, r) = (outs, p', r') \<and> Exchange i tok res \<in> set outs"
  by (auto simp: Refresh_def split: prod.splits sum.splits)

text \<open>The clock and the generated ids are such that the claims are well-formed.\<close>

definition clock_ok :: "AuthService \<Rightarrow> int \<Rightarrow> string \<Rightarrow> bool" where
  "clock_ok s now uuid \<longleftrightarrow> valid_utf8 uuid \<and>
     (\<forall>t \<in> {now, now + au_accessTokenTTL s, now + au_refreshTokenTTL s}. 0 \<le> t \<and> t < 2 ^ 63)"

text \<open>The id that a step generates.\<close>

fun step_ids :: "auth_step \<Rightarrow> string list" where
  "step_ids (StepLogin now uuid req) = [uuid]"
| "step_ids (StepIssue i now uuid) = [uuid]"
| "step_ids _ = []"

fun step_ok :: "AuthService \<Rightarrow> auth_step \<Rightarrow> bool" where
  "step_ok s (StepLogin now uuid req) \<longleftrightarrow> clock_ok s now uuid"
| "step_ok s (StepIssue i now uuid) \<longleftrightarrow> clock_ok s now uuid"
| "step_ok s _ \<longleftrightarrow> True"

lemma numeric_date_range: "0 \<le> t \<Longrightarrow> t < 2 ^ 63 \<Longrightarrow> 0 \<le> numeric_date t \<and> numeric_date t < 2 ^ 53"
  using zdiv_mono1 [of t "2 ^ 63" Second] by (simp add: numeric_date_def Second_def)

lemma ascii_texts [simp]:
  "valid_utf8 Issuer" "valid_utf8 ''1001''" "valid_utf8 ''admin''" "valid_utf8 []"
  by (simp_all add: Issuer_def ascii_valid is_ascii_def)

lemma token_claims_ok:
  assumes "valid_utf8 uid" "valid_utf8 un" "valid_utf8 role" "valid_utf8 jti" "0 \<le> now" "now < 2 ^ 63" "0 \<le> now + ttl" "now + ttl < 2 ^ 63"
  shows "claims_ok (token_claims uid un role now ttl jti)"
  using assms numeric_date_range [of now] numeric_date_range [of "now + ttl"] by (simp add: claims_ok_def token_claims_def)

section \<open>A refresh token works once\<close>

text \<open>
  The invariant of a run: a stored session is a signed token whose id has been generated
  (\<open>G\<close>), and no token already exchanged (\<open>U\<close>) is stored. An exchanged token was in time once.
\<close>

definition signed_in :: "jwt_lib \<Rightarrow> string set \<Rightarrow> string \<Rightarrow> bool" where
  "signed_in jl G t \<longleftrightarrow> (\<exists>c. jl_Sign jl SignedKey c = Inr t \<and> claims_ok c \<and> uc_ID c \<in> G)"

definition session_of :: "jwt_lib \<Rightarrow> string set \<Rightarrow> string \<Rightarrow> string \<Rightarrow> bool" where
  "session_of jl G k t \<longleftrightarrow>
     (\<exists>c. jl_Sign jl SignedKey c = Inr t \<and> claims_ok c \<and> uc_ID c \<in> G \<and> k = RedisKeyPrefix @ uc_UserID c)"

lemma session_signed: "session_of jl G k t \<Longrightarrow> signed_in jl G t"
  by (auto simp: session_of_def signed_in_def)

lemma session_key:
  assumes "jwt_ok jl" "session_of jl G k t" "jl_Parse jl SignedKey now t = Some c"
  shows "k = RedisKeyPrefix @ uc_UserID c"
proof -
  from assms(2) obtain c0 where c0: "jl_Sign jl SignedKey c0 = Inr t" "claims_ok c0" "k = RedisKeyPrefix @ uc_UserID c0"
    by (auto simp: session_of_def)
  with assms(1) have "jl_Parse jl SignedKey now t = (if in_time now c0 then Some c0 else None)"
    unfolding jwt_ok_def by blast
  with assms(3) c0(3) show ?thesis by (auto split: if_splits)
qed

definition sessions_inv :: "jwt_lib \<Rightarrow> ('r \<Rightarrow> string \<rightharpoonup> string) \<Rightarrow> string set \<Rightarrow> string set \<Rightarrow> 'r \<Rightarrow> bool" where
  "sessions_inv jl view G U r \<longleftrightarrow>
     (\<forall>k v. view r k = Some v \<longrightarrow> session_of jl G k v \<and> v \<notin> U) \<and>
     (\<forall>v \<in> U. signed_in jl G v \<and> (\<exists>now c. jl_Parse jl SignedKey now v = Some c))"

lemma sessions_inv_view:
  "sessions_inv jl view G U r \<Longrightarrow> may_become (view r) (view r') \<Longrightarrow> sessions_inv jl view G U r'"
  unfolding sessions_inv_def may_become_def by blast

lemma sessions_inv_insert: "sessions_inv jl view G U r \<Longrightarrow> sessions_inv jl view (insert i G) U r"
  unfolding sessions_inv_def signed_in_def session_of_def by blast

lemma sessions_inv_used:
  assumes "sessions_inv jl view G U r" "signed_in jl G t" "jl_Parse jl SignedKey now t = Some c"
    and "\<forall>k. view r k \<noteq> Some t"
  shows "sessions_inv jl view G (insert t U) r"
  using assms unfolding sessions_inv_def by blast

text \<open>A fresh id makes a fresh token.\<close>

lemma fresh_token:
  assumes jwt: "jwt_ok jl" and t: "signed_in jl G t" "jl_Parse jl SignedKey now t = Some c"
    and t': "jl_Sign jl SignedKey c' = Inr t'" "claims_ok c'" "uc_ID c' \<notin> G"
  shows "t' \<noteq> t"
proof
  assume eq: "t' = t"
  from t(1) obtain c0 where c0: "jl_Sign jl SignedKey c0 = Inr t" "claims_ok c0" "uc_ID c0 \<in> G" by (auto simp: signed_in_def)
  have "jl_Parse jl SignedKey now t = (if in_time now c0 then Some c0 else None)"
    "jl_Parse jl SignedKey now t = (if in_time now c' then Some c' else None)"
    using jwt c0 t' eq unfolding jwt_ok_def by blast+
  with t(2) have "c0 = c'" by (auto split: if_splits)
  with c0(3) t'(3) show False by simp
qed

lemma generateTokens_inv:
  assumes jwt: "jwt_ok jl" and rd: "redis_ok rd view" and inv: "sessions_inv jl view G U r" and uid: "uuid \<notin> G"
    and ok: "valid_utf8 userID" "valid_utf8 username" "valid_utf8 role" "clock_ok s now uuid"
    and run: "generateTokens s jl rd now uuid userID username role r = (out, r')"
  shows "sessions_inv jl view (insert uuid G) U r' \<and>
    (\<forall>tk. out = Inr tk \<longrightarrow> view r' (RedisKeyPrefix @ userID) \<in> {None, Some (tk_RefreshToken tk)} \<and>
       (\<forall>k v. view r' k = Some v \<longrightarrow> k = RedisKeyPrefix @ userID \<and> v = tk_RefreshToken tk \<or> k \<noteq> RedisKeyPrefix @ userID \<and> view r k = Some v) \<and>
       signed_in jl (insert uuid G) (tk_RefreshToken tk) \<and> (\<forall>t \<in> U. tk_RefreshToken tk \<noteq> t))"
proof -
  let ?c = "token_claims userID username role now (au_refreshTokenTTL s) uuid"
  have c: "claims_ok ?c" "uc_ID ?c = uuid"
    using token_claims_ok [OF ok(1-3), of uuid now "au_refreshTokenTTL s"] ok(4) by (simp_all add: clock_ok_def token_claims_def)
  show ?thesis
  proof (cases "jl_Sign jl SignedKey (token_claims userID username role now (au_accessTokenTTL s) [])")
    case (Inl e)
    with run sessions_inv_insert [OF inv] show ?thesis by (auto simp: generateTokens_def)
  next
    case at: (Inr at)
    show ?thesis
    proof (cases "jl_Sign jl SignedKey ?c")
      case (Inl e)
      with run at sessions_inv_insert [OF inv] show ?thesis by (auto simp: generateTokens_def)
    next
      case rt: (Inr rt)
      let ?k = "RedisKeyPrefix @ userID"
      obtain e r1 where s: "rd_Set rd ?k rt (au_refreshTokenTTL s) r = (e, r1)" by (rule prod.exhaust)
      have o: "r' = r1" "\<And>tk. out = Inr tk \<Longrightarrow> e = None \<and> tk_RefreshToken tk = rt"
        using run at rt s by (auto simp: generateTokens_def split: option.splits)
      have so: "session_of jl (insert uuid G) ?k rt" using rt c by (auto simp: session_of_def token_claims_def)
      note sg = session_signed [OF so]
      have fr: "rt \<noteq> t" if "t \<in> U" for t
      proof -
        from that inv obtain now' c' where "signed_in jl G t" "jl_Parse jl SignedKey now' t = Some c'"
          unfolding sessions_inv_def by blast
        from fresh_token [OF jwt this rt c(1)] c(2) uid show ?thesis by simp
      qed
      have v: "may_become ((view r)(?k \<mapsto> rt)) (view r1) \<or> e \<noteq> None \<and> may_become (view r) (view r1)"
        using rd s unfolding redis_ok_def by blast
      have iv: "sessions_inv jl view (insert uuid G) U r1"
      proof -
        have mem: "k = ?k \<and> v = rt \<or> view r k = Some v" if "view r1 k = Some v" for k v
          using v that by (auto simp: may_become_def split: if_splits)
        show ?thesis
          using sessions_inv_insert [OF inv, of uuid] mem so fr unfolding sessions_inv_def by blast
      qed
      show ?thesis
      proof (intro conjI allI impI)
        fix tk assume tk: "out = Inr tk"
        with o v have m: "may_become ((view r)(?k \<mapsto> rt)) (view r1)" "tk_RefreshToken tk = rt" by auto
        have ev: "k = ?k \<and> v = rt \<or> k \<noteq> ?k \<and> view r k = Some v" if "view r1 k = Some v" for k v
          using m(1) that by (auto simp: may_become_def split: if_splits)
        then show "view r' ?k \<in> {None, Some (tk_RefreshToken tk)}" using o m(2) by (cases "view r1 ?k") auto
        show "k = ?k \<and> v = tk_RefreshToken tk \<or> k \<noteq> ?k \<and> view r k = Some v" if "view r' k = Some v" for k v
          using ev that unfolding o(1) m(2) by blast
        show "signed_in jl (insert uuid G) (tk_RefreshToken tk)" using sg m(2) by simp
        show "\<forall>t \<in> U. tk_RefreshToken tk \<noteq> t" using fr m(2) by simp
      qed (use iv o in simp)
    qed
  qed
qed

lemma fresh_refresh:
  assumes jwt: "jwt_ok jl" and t: "signed_in jl G t" "jl_Parse jl SignedKey now' t = Some c" and uid: "uuid \<notin> G"
    and run: "generateTokens s jl rd now uuid userID username role r = (out, r')" "out = Inr tk"
    and ok: "valid_utf8 userID" "valid_utf8 username" "valid_utf8 role" "clock_ok s now uuid"
  shows "tk_RefreshToken tk \<noteq> t"
proof -
  let ?c = "token_claims userID username role now (au_refreshTokenTTL s) uuid"
  have "jl_Sign jl SignedKey ?c = Inr (tk_RefreshToken tk)"
    using run by (auto simp: generateTokens_def split: sum.splits prod.splits option.splits)
  moreover have "claims_ok ?c" "uc_ID ?c = uuid"
    using token_claims_ok [OF ok(1-3), of uuid now "au_refreshTokenTTL s"] ok(4) by (simp_all add: clock_ok_def token_claims_def)
  ultimately show ?thesis using fresh_token [OF jwt t] uid by simp
qed

lemma refresh_check_ok:
  assumes "redis_ok rd view" "refresh_check jl rd now t r = (out, r1)"
  shows "may_become (view r) (view r1) \<and>
    (\<forall>c. out = Inr c \<longrightarrow> jl_Parse jl SignedKey now t = Some c \<and> view r (RedisKeyPrefix @ uc_UserID c) = Some t)"
proof (cases "jl_Parse jl SignedKey now t")
  case None
  with assms(2) show ?thesis by (auto simp: refresh_check_def may_become_def)
next
  case (Some c)
  obtain g s1 where g: "rd_Get rd (RedisKeyPrefix @ uc_UserID c) r = (g, s1)" by (rule prod.exhaust)
  have "may_become (view r) (view s1) \<and> (\<forall>v. g = Inr (Some v) \<longrightarrow> view r (RedisKeyPrefix @ uc_UserID c) = Some v)"
    using assms(1) g unfolding redis_ok_def by blast
  with assms(2) Some g show ?thesis by (auto simp: refresh_check_def split: sum.splits option.splits if_splits)
qed

text \<open>A request that has passed the check: its token was signed with a known id, for this session key.\<close>

definition checked_ok :: "jwt_lib \<Rightarrow> string set \<Rightarrow> checked \<Rightarrow> bool" where
  "checked_ok jl G p \<longleftrightarrow> (\<forall>i tok cl. p i = Some (tok, cl) \<longrightarrow>
     signed_in jl G tok \<and> claims_ok cl \<and> (\<exists>now. jl_Parse jl SignedKey now tok = Some cl))"

lemma checked_ok_mono: "checked_ok jl G p \<Longrightarrow> checked_ok jl (insert x G) p"
  unfolding checked_ok_def signed_in_def by blast

lemma checked_ok_del: "checked_ok jl G p \<Longrightarrow> checked_ok jl G (p(i := None))"
  unfolding checked_ok_def by auto

lemma issue_inv:
  assumes jwt: "jwt_ok jl" and rd: "redis_ok rd view" and inv: "sessions_inv jl view G U r" and uid: "uuid \<notin> G"
    and ok: "clock_ok s now uuid" and t: "signed_in jl G t" "claims_ok cl" "jl_Parse jl SignedKey now' t = Some cl"
    and run: "generateTokens s jl rd now uuid (uc_UserID cl) (uc_Username cl) (uc_Role cl) r = (out, r')"
  shows "sessions_inv jl view (insert uuid G) (if is_ok out then insert t U else U) r'"
proof -
  have utf: "valid_utf8 (uc_UserID cl)" "valid_utf8 (uc_Username cl)" "valid_utf8 (uc_Role cl)" using t(2) by (simp_all add: claims_ok_def)
  note G = generateTokens_inv [OF jwt rd inv uid utf ok run]
  show ?thesis
  proof (cases out)
    case tk: (Inr tk)
    have nw: "view r' k \<noteq> Some t" for k
    proof
      assume a: "view r' k = Some t"
      consider "k = RedisKeyPrefix @ uc_UserID cl" "t = tk_RefreshToken tk"
        | "k \<noteq> RedisKeyPrefix @ uc_UserID cl" "view r k = Some t" using G tk a by blast
      then show False
      proof cases
        case 1
        with fresh_refresh [OF jwt t(1,3) uid run tk utf ok] show False by simp
      next
        case 2
        then have "session_of jl G k t" using inv unfolding sessions_inv_def by blast
        from session_key [OF jwt this t(3)] 2(1) show False by simp
      qed
    qed
    have "sessions_inv jl view (insert uuid G) (insert t U) r'"
      using G nw t by (intro sessions_inv_used) (auto simp: signed_in_def)
    with tk show ?thesis by simp
  qed (use G in simp)
qed

text \<open>
  One step: the invariant is kept, an exchanged token is added to \<open>U\<close>, and a check of a token
  of \<open>U\<close> fails.
\<close>

definition exchanged :: "auth_answer \<Rightarrow> string set" where
  "exchanged out = (case out of Exchange i t res \<Rightarrow> if is_ok res then {t} else {} | _ \<Rightarrow> {})"

definition run_inv :: "jwt_lib \<Rightarrow> ('r \<Rightarrow> string \<rightharpoonup> string) \<Rightarrow> string set \<Rightarrow> string set \<Rightarrow> checked \<times> 'r \<Rightarrow> bool" where
  "run_inv jl view G U st \<longleftrightarrow> checked_ok jl G (fst st) \<and> sessions_inv jl view G U (snd st)"

lemma run_inv_later:
  "run_inv jl view G U (p, r) \<Longrightarrow> may_become (view r) (view r') \<Longrightarrow> run_inv jl view G U (p(i := None), r') \<and> run_inv jl view G U (p, r')"
  by (auto simp: run_inv_def checked_ok_del intro: sessions_inv_view)

lemma auth_next_inv:
  assumes jwt: "jwt_ok jl" and rd: "redis_ok rd view" and inv: "run_inv jl view G U st"
    and ok: "set (step_ids step) \<inter> G = {}" "step_ok s step" and run: "auth_next s jl rd step st = (out, st')"
  shows "run_inv jl view (set (step_ids step) \<union> G) (exchanged out \<union> U) st' \<and>
    (\<forall>i now t. step = StepCheck i now t \<and> t \<in> U \<longrightarrow> (\<exists>e. out = Exchange i t (Inl e)))"
proof -
  obtain p r where st: "st = (p, r)" by (rule prod.exhaust)
  have I: "checked_ok jl G p" "sessions_inv jl view G U r" using inv by (simp_all add: st run_inv_def)
  show ?thesis
  proof (cases step)
    case (StepLogin now uuid req)
    have k: "checked_ok jl (insert uuid G) p" "sessions_inv jl view (insert uuid G) U r"
      using I by (simp_all add: checked_ok_mono sessions_inv_insert)
    show ?thesis
    proof (cases "lr_Username req \<noteq> ''admin'' \<or> lr_Password req \<noteq> ''admin123''")
      case True
      with run StepLogin k show ?thesis by (auto simp: st Login_def exchanged_def run_inv_def)
    next
      case False
      obtain o1 r1 where g: "generateTokens s jl rd now uuid ''1001'' ''admin'' ''admin'' r = (o1, r1)" by (rule prod.exhaust)
      have "\<exists>t. out = LoggedIn t" "st' = (p, r1)" using run StepLogin False g by (auto simp: st Login_def split: sum.splits)
      moreover have "uuid \<notin> G" "clock_ok s now uuid" using ok StepLogin by simp_all
      ultimately show ?thesis
        using generateTokens_inv [OF jwt rd I(2) _ _ _ _ _ g] k(1) StepLogin by (auto simp: exchanged_def run_inv_def)
    qed
  next
    case (StepCheck i now t)
    obtain o1 r1 where c: "refresh_check jl rd now t r = (o1, r1)" by (rule prod.exhaust)
    note C = refresh_check_ok [OF rd c]
    have l: "run_inv jl view G U (p(i := None), r1)" "run_inv jl view G U (p, r1)"
      using run_inv_later [of jl view G U p r r1 i] inv C st by simp_all
    show ?thesis
    proof (cases o1)
      case (Inl e)
      with run StepCheck c l(1) show ?thesis by (auto simp: st exchanged_def)
    next
      case (Inr cl)
      with C have t: "jl_Parse jl SignedKey now t = Some cl" "view r (RedisKeyPrefix @ uc_UserID cl) = Some t" by auto
      then have "signed_in jl G t" "t \<notin> U" "claims_ok cl"
        using I(2) session_signed jwt unfolding sessions_inv_def jwt_ok_def by blast+
      with l(2) t(1) have "run_inv jl view G U (p(i \<mapsto> (t, cl)), r1)" by (auto simp: run_inv_def checked_ok_def)
      with run StepCheck c Inr \<open>t \<notin> U\<close> show ?thesis by (auto simp: st exchanged_def)
    qed
  next
    case (StepIssue i now uuid)
    have k: "checked_ok jl (insert uuid G) p" "sessions_inv jl view (insert uuid G) U r"
      using I by (simp_all add: checked_ok_mono sessions_inv_insert)
    have fresh: "uuid \<notin> G" "clock_ok s now uuid" using ok StepIssue by simp_all
    show ?thesis
    proof (cases "p i")
      case None
      with run StepIssue k show ?thesis by (auto simp: st exchanged_def run_inv_def)
    next
      case (Some tc)
      obtain t cl where tc: "tc = (t, cl)" by (rule prod.exhaust)
      obtain o1 r1 where g: "generateTokens s jl rd now uuid (uc_UserID cl) (uc_Username cl) (uc_Role cl) r = (o1, r1)" by (rule prod.exhaust)
      have o: "out = Exchange i t o1" "st' = (p(i := None), r1)" using run StepIssue Some tc g by (auto simp: st)
      obtain now' where "signed_in jl G t" "claims_ok cl" "jl_Parse jl SignedKey now' t = Some cl"
        using I(1) Some tc unfolding checked_ok_def by blast
      from issue_inv [OF jwt rd I(2) fresh this g] checked_ok_del [OF k(1)] StepIssue o show ?thesis
        by (auto simp: run_inv_def exchanged_def)
    qed
  next
    case (StepLogout userID)
    obtain e r1 where d: "rd_Del rd (RedisKeyPrefix @ userID) r = (e, r1)" by (rule prod.exhaust)
    have "may_become (view r) (view r1)" using rd d unfolding redis_ok_def by blast
    with run_inv_later [of jl view G U p r r1] inv run StepLogout d show ?thesis
      by (auto simp: st Logout_def exchanged_def)
  qed
qed

lemma auth_run_used:
  assumes jwt: "jwt_ok jl" and rd: "redis_ok rd view"
  shows "run_inv jl view G U st \<Longrightarrow> distinct (concat (map step_ids steps)) \<Longrightarrow> set (concat (map step_ids steps)) \<inter> G = {} \<Longrightarrow>
    list_all (step_ok s) steps \<Longrightarrow> auth_run s jl rd steps st = (outs, st') \<Longrightarrow> t \<in> U \<Longrightarrow>
    j < length steps \<Longrightarrow> steps ! j = StepCheck i now t \<Longrightarrow> \<exists>e. outs ! j = Exchange i t (Inl e)"
proof (induction steps arbitrary: G U st outs j)
  case (Cons step steps)
  obtain o1 st1 where c: "auth_next s jl rd step st = (o1, st1)" by (metis prod.exhaust)
  from Cons.prems(5) c obtain os where cs: "auth_run s jl rd steps st1 = (os, st')" and outs: "outs = o1 # os"
    by (auto split: prod.splits)
  have "set (step_ids step) \<inter> G = {}" "step_ok s step" using Cons.prems(3,4) by auto
  note I = auth_next_inv [OF jwt rd Cons.prems(1) this c]
  show ?case
  proof (cases j)
    case 0
    with Cons.prems(6,8) I outs show ?thesis by simp
  next
    case (Suc j')
    have "distinct (concat (map step_ids steps))" "set (concat (map step_ids steps)) \<inter> (set (step_ids step) \<union> G) = {}"
      "list_all (step_ok s) steps" using Cons.prems(2-4) by auto
    from Cons.IH [OF conjunct1 [OF I] this cs, of j'] Cons.prems(6-8) Suc outs show ?thesis by simp
  qed
qed simp

lemma auth_run_once:
  assumes jwt: "jwt_ok jl" and rd: "redis_ok rd view"
  shows "run_inv jl view G U st \<Longrightarrow> distinct (concat (map step_ids steps)) \<Longrightarrow> set (concat (map step_ids steps)) \<inter> G = {} \<Longrightarrow>
    list_all (step_ok s) steps \<Longrightarrow> auth_run s jl rd steps st = (outs, st') \<Longrightarrow> m < j \<Longrightarrow>
    outs ! m = Exchange h t (Inr tk) \<Longrightarrow> j < length steps \<Longrightarrow> steps ! j = StepCheck i now t \<Longrightarrow>
    \<exists>e. outs ! j = Exchange i t (Inl e)"
proof (induction steps arbitrary: G U st outs m j)
  case (Cons step steps)
  obtain o1 st1 where c: "auth_next s jl rd step st = (o1, st1)" by (metis prod.exhaust)
  from Cons.prems(5) c obtain os where cs: "auth_run s jl rd steps st1 = (os, st')" and outs: "outs = o1 # os"
    by (auto split: prod.splits)
  have "set (step_ids step) \<inter> G = {}" "step_ok s step" using Cons.prems(3,4) by auto
  note I = auth_next_inv [OF jwt rd Cons.prems(1) this c]
  obtain j' where j: "j = Suc j'" using Cons.prems(6) by (cases j) auto
  have tl: "distinct (concat (map step_ids steps))" "set (concat (map step_ids steps)) \<inter> (set (step_ids step) \<union> G) = {}"
    "list_all (step_ok s) steps" using Cons.prems(2-4) by auto
  show ?case
  proof (cases m)
    case 0
    then have "t \<in> exchanged o1 \<union> U" using Cons.prems(7) outs by (simp add: exchanged_def)
    from auth_run_used [OF jwt rd conjunct1 [OF I] tl cs this, of j' i now] Cons.prems(8,9) j outs show ?thesis by simp
  next
    case (Suc m')
    with Cons.IH [OF conjunct1 [OF I] tl cs, of m' j'] Cons.prems(6-9) j outs show ?thesis by simp
  qed
qed simp

text \<open>An exchange was checked before, by the same request.\<close>

lemma auth_run_checked:
  "auth_run s jl rd steps (p, r) = (outs, st') \<Longrightarrow> n < length steps \<Longrightarrow> outs ! n = Exchange i t (Inr tk) \<Longrightarrow>
    (\<exists>cl. p i = Some (t, cl)) \<or> (\<exists>c now. c < n \<and> steps ! c = StepCheck i now t \<and> outs ! c = CheckPassed i t)"
proof (induction steps arbitrary: p r outs n)
  case (Cons step steps)
  obtain o1 p1 r1 where c: "auth_next s jl rd step (p, r) = (o1, p1, r1)" by (metis prod.exhaust)
  from Cons.prems(1) c obtain os where cs: "auth_run s jl rd steps (p1, r1) = (os, st')" and outs: "outs = o1 # os"
    by (auto split: prod.splits)
  show ?case
  proof (cases n)
    case 0
    with Cons.prems(3) outs c show ?thesis by (cases step) (auto split: prod.splits sum.splits option.splits)
  next
    case (Suc n')
    with Cons.IH [OF cs, of n'] Cons.prems outs
    consider cl where "p1 i = Some (t, cl)" | c' now where "c' < n'" "steps ! c' = StepCheck i now t" "os ! c' = CheckPassed i t" by auto
    then show ?thesis
    proof cases
      case 1
      then have "(\<exists>cl. p i = Some (t, cl)) \<or> (\<exists>now. step = StepCheck i now t \<and> o1 = CheckPassed i t)"
        using c by (cases step) (auto split: prod.splits sum.splits option.splits if_splits)
      then show ?thesis
      proof
        assume "\<exists>now. step = StepCheck i now t \<and> o1 = CheckPassed i t"
        then obtain now where "step = StepCheck i now t" "o1 = CheckPassed i t" by blast
        then show ?thesis using Suc outs by (intro disjI2 exI [of _ 0] exI [of _ now]) simp
      qed simp
    next
      case (2 c' now)
      with Suc outs show ?thesis by (intro disjI2 exI [of _ "Suc c'"] exI [of _ now]) auto
    qed
  qed
qed simp

section \<open>Properties\<close>

text \<open>
  C17. A refresh token is spent by its exchange. Starting with no session, in any
  interleaving of the steps of logins, refreshes and logouts of any users, with redis
  failing or losing sessions at any time and each issued token having a new id: a refresh
  that begins after the token was exchanged is refused. So a token is exchanged twice only
  by refreshes that overlap: the second one had passed its check before the first one stored
  its new token. (Two refreshes that do overlap can both succeed, see \<open>refresh_race\<close>.)
\<close>

theorem refresh_token_once:
  assumes "jwt_ok jl" "redis_ok rd view" "view r = (\<lambda>_. None)"
    and "distinct (concat (map step_ids steps))" "list_all (step_ok s) steps"
    and "auth_run s jl rd steps (\<lambda>_. None, r) = (outs, st')"
    and "m < n" "n < length steps" "outs ! m = Exchange i t (Inr tk)"
  shows "(\<forall>j now. steps ! n = StepCheck j now t \<longrightarrow> (\<exists>e. outs ! n = Exchange j t (Inl e))) \<and>
    (\<forall>j tk'. outs ! n = Exchange j t (Inr tk') \<longrightarrow>
       (\<exists>c now. c < m \<and> steps ! c = StepCheck j now t \<and> outs ! c = CheckPassed j t))"
proof -
  have inv: "run_inv jl view {} {} (\<lambda>_. None, r)" using assms(3) by (simp add: run_inv_def checked_ok_def sessions_inv_def)
  note O = auth_run_once [OF assms(1,2) inv assms(4) _ assms(5,6) _ assms(9)]
  show ?thesis
  proof (intro conjI allI impI)
    fix j now assume "steps ! n = StepCheck j now t"
    with O [of n j now] assms(7,8) show "\<exists>e. outs ! n = Exchange j t (Inl e)" by simp
  next
    fix j tk' assume "outs ! n = Exchange j t (Inr tk')"
    from auth_run_checked [OF assms(6,8) this] obtain c now where
      c: "c < n" "steps ! c = StepCheck j now t" "outs ! c = CheckPassed j t" by auto
    have "\<not> m < c" using O [of c j now] c assms(8) by auto
    moreover have "c \<noteq> m" using c(3) assms(9) by auto
    ultimately have "c < m" by simp
    with c show "\<exists>c now. c < m \<and> steps ! c = StepCheck j now t \<and> outs ! c = CheckPassed j t" by blast
  qed
qed

section \<open>A token format and a store\<close>

text \<open>Instances of the parameters: claims written as unary numbers, redis as a map.\<close>

definition enc_nats :: "nat list \<Rightarrow> string" where
  "enc_nats ns = concat (map (\<lambda>n. replicate n (CHR ''1'') @ ''0'') ns)"

fun dec_nats :: "nat \<Rightarrow> string \<Rightarrow> nat list" where
  "dec_nats k [] = []"
| "dec_nats k (c # cs) = (if c = CHR ''1'' then dec_nats (Suc k) cs else k # dec_nats 0 cs)"

lemma dec_replicate: "dec_nats k (replicate n (CHR ''1'') @ CHR ''0'' # s) = (k + n) # dec_nats 0 s"
  by (induction n arbitrary: k) auto

lemma dec_enc_nats [simp]: "dec_nats 0 (enc_nats ns) = ns"
  by (induction ns) (auto simp: enc_nats_def dec_replicate)

definition str_nats :: "string \<Rightarrow> nat list" where
  "str_nats s = length s # map of_char s"

fun take_str :: "nat list \<Rightarrow> string \<times> nat list" where
  "take_str [] = ([], [])"
| "take_str (n # ns) = (map char_of (take n ns), drop n ns)"

lemma take_str_nats [simp]: "take_str (str_nats s @ ns) = (s, ns)"
  by (simp add: str_nats_def comp_def)

lemma take_str_all [simp]: "take_str (str_nats s) = (s, [])"
  using take_str_nats [of s "[]"] by simp

definition claims_nats :: "UserClaims \<Rightarrow> nat list" where
  "claims_nats c = nat (uc_ExpiresAt c) # nat (uc_IssuedAt c) # nat (uc_NotBefore c) #
     str_nats (uc_UserID c) @ str_nats (uc_Username c) @ str_nats (uc_Role c) @ str_nats (uc_Issuer c) @ str_nats (uc_ID c) @ []"

definition nats_claims :: "nat list \<Rightarrow> UserClaims option" where
  "nats_claims ns =
     (case ns of
        e # i # b # r0 \<Rightarrow>
          (let (uid, r1) = take_str r0; (un, r2) = take_str r1; (role, r3) = take_str r2; (iss, r4) = take_str r3; (jti, r5) = take_str r4
           in Some \<lparr>uc_UserID = uid, uc_Username = un, uc_Role = role, uc_ExpiresAt = int e, uc_IssuedAt = int i,
                uc_NotBefore = int b, uc_Issuer = iss, uc_ID = jti\<rparr>)
      | _ \<Rightarrow> None)"

lemma nats_claims_inverse: "claims_ok c \<Longrightarrow> nats_claims (claims_nats c) = Some c"
  by (simp add: nats_claims_def claims_nats_def claims_ok_def Let_def)

definition unary_jwt :: jwt_lib where
  "unary_jwt = \<lparr>jl_Sign = (\<lambda>k c. Inr (enc_nats (claims_nats c))),
     jl_Parse = (\<lambda>k now t. case nats_claims (dec_nats 0 t) of
        None \<Rightarrow> None | Some c \<Rightarrow> if claims_ok c \<and> in_time now c then Some c else None)\<rparr>"

lemma enc_nats_chars: "set (enc_nats ns) \<subseteq> {CHR ''0'', CHR ''1''}"
  by (induction ns) (auto simp: enc_nats_def)

lemma unary_jwt_ok: "jwt_ok unary_jwt"
proof -
  have "enc_nats (claims_nats c) \<noteq> []" for c by (simp add: enc_nats_def claims_nats_def)
  moreover have "CHR '' '' \<notin> set (enc_nats (claims_nats c))" for c using enc_nats_chars [of "claims_nats c"] by auto
  ultimately show ?thesis
    unfolding jwt_ok_def unary_jwt_def by (auto simp: nats_claims_inverse split: option.splits if_splits)
qed

definition mem_redis :: "(string, string) gomap redis" where
  "mem_redis = \<lparr>rd_Get = (\<lambda>k s. (Inr (gm_get s k), s)), rd_Set = (\<lambda>k v ttl s. (None, gm_put k v s)),
     rd_Del = (\<lambda>k s. (None, gm_del k s))\<rparr>"

lemma mem_redis_ok: "redis_ok mem_redis gm_get"
  by (auto simp: redis_ok_def mem_redis_def may_become_def split: if_splits)

definition sample_auth :: AuthService where
  "sample_auth = \<lparr>au_accessTokenTTL = 15 * 60 * Second, au_refreshTokenTTL = 7 * 24 * 3600 * Second\<rparr>"

definition first_claims :: UserClaims where
  "first_claims = token_claims ''1001'' ''admin'' ''admin'' 0 (au_refreshTokenTTL sample_auth) ''u1''"

definition first_token :: string where "first_token = enc_nats (claims_nats first_claims)"

definition admin_login :: LoginReq where "admin_login = \<lparr>lr_Username = ''admin'', lr_Password = ''admin123''\<rparr>"

text \<open>Two refreshes with the first token overlap, a third one comes after them.\<close>

definition replay_steps :: "auth_step list" where
  "replay_steps = [StepLogin 0 ''u1'' admin_login, StepCheck 0 Second first_token, StepCheck 1 Second first_token,
     StepIssue 0 Second ''u2'', StepIssue 1 Second ''u3'', StepCheck 2 (2 * Second) first_token]"

lemma first_parse: "0 \<le> now \<Longrightarrow> now \<le> 2 * Second \<Longrightarrow> jl_Parse unary_jwt SignedKey now first_token = Some first_claims"
proof -
  assume now: "0 \<le> now" "now \<le> 2 * Second"
  have "claims_ok first_claims"
    unfolding first_claims_def by (rule token_claims_ok) (simp_all add: sample_auth_def Second_def ascii_valid is_ascii_def)
  moreover have "in_time now first_claims"
    using now by (simp add: in_time_def first_claims_def token_claims_def numeric_date_def sample_auth_def Second_def)
  ultimately show ?thesis
    unfolding unary_jwt_def first_token_def by (simp add: nats_claims_inverse)
qed

lemma replay_run:
  "\<exists>outs st' t2 t3. auth_run sample_auth unary_jwt mem_redis replay_steps (\<lambda>_. None, []) = (outs, st') \<and>
     outs ! 3 = Exchange 0 first_token (Inr t2) \<and> outs ! 4 = Exchange 1 first_token (Inr t3)"
proof -
  have p: "jl_Parse unary_jwt SignedKey Second first_token = Some first_claims" by (rule first_parse) (simp_all add: Second_def)
  have sg: "jl_Sign unary_jwt k c = Inr (enc_nats (claims_nats c))" for k c by (simp add: unary_jwt_def)
  have u: "uc_UserID first_claims = ''1001''" by (simp add: first_claims_def token_claims_def)
  let ?r1 = "[(RedisKeyPrefix @ ''1001'', first_token)]"
  have l: "\<exists>t. Login sample_auth unary_jwt mem_redis 0 ''u1'' admin_login [] = (Inr t, ?r1)"
    by (simp add: Login_def admin_login_def generateTokens_def sg mem_redis_def first_token_def first_claims_def)
  have c: "refresh_check unary_jwt mem_redis Second first_token ?r1 = (Inr first_claims, ?r1)"
    by (simp add: refresh_check_def p u mem_redis_def)
  have g: "\<exists>t r'. generateTokens sample_auth unary_jwt mem_redis Second uid a b d r = (Inr t, r')" for uid a b d r
    by (simp add: generateTokens_def sg mem_redis_def)
  obtain t1 where t1: "Login sample_auth unary_jwt mem_redis 0 ''u1'' admin_login [] = (Inr t1, ?r1)" using l by blast
  obtain t2 r2 where t2: "generateTokens sample_auth unary_jwt mem_redis Second ''u2'' (uc_UserID first_claims)
      (uc_Username first_claims) (uc_Role first_claims) ?r1 = (Inr t2, r2)" using g by blast
  obtain t3 r3 where t3: "generateTokens sample_auth unary_jwt mem_redis Second ''u3'' (uc_UserID first_claims)
      (uc_Username first_claims) (uc_Role first_claims) r2 = (Inr t3, r3)" using g by blast
  obtain outs st' where run: "auth_run sample_auth unary_jwt mem_redis replay_steps (\<lambda>_. None, []) = (outs, st')" by (rule prod.exhaust)
  then have "outs ! 3 = Exchange 0 first_token (Inr t2)" "outs ! 4 = Exchange 1 first_token (Inr t3)"
    unfolding replay_steps_def by (auto simp: t1 c t2 t3 split: prod.splits)
  with run show ?thesis by blast
qed

theorem refresh_token_once_witness:
  "\<exists>outs st' e. auth_run sample_auth unary_jwt mem_redis replay_steps (\<lambda>_. None, []) = (outs, st') \<and>
     outs ! 5 = Exchange 2 first_token (Inl e) \<and> outs ! 2 = CheckPassed 1 first_token"
proof -
  obtain outs st' t2 t3 where run: "auth_run sample_auth unary_jwt mem_redis replay_steps (\<lambda>_. None, []) = (outs, st')"
    and x: "outs ! 3 = Exchange 0 first_token (Inr t2)" "outs ! 4 = Exchange 1 first_token (Inr t3)"
    using replay_run by blast
  have d: "distinct (concat (map step_ids replay_steps))" by (simp add: replay_steps_def)
  have c: "list_all (step_ok sample_auth) replay_steps"
    by (simp add: replay_steps_def clock_ok_def sample_auth_def Second_def ascii_valid is_ascii_def)
  have e: "gm_get [] = (\<lambda>_. None)" by (simp add: fun_eq_iff)
  note R = refresh_token_once [OF unary_jwt_ok mem_redis_ok e d c run, of 3 _ 0 first_token t2]
  have "\<exists>e. outs ! 5 = Exchange 2 first_token (Inl e)" using R [of 5] x by (simp add: replay_steps_def)
  moreover obtain k now where k: "k < 3" "replay_steps ! k = StepCheck 1 now first_token" "outs ! k = CheckPassed 1 first_token"
    using R [of 4] x by (auto simp: replay_steps_def)
  then have "k = 2" by (auto simp: replay_steps_def less_Suc_eq numeral_3_eq_3)
  ultimately show ?thesis using run k(3) by blast
qed

section \<open>The life of a session\<close>

lemma bearer_split: "CHR '' '' \<notin> set t \<Longrightarrow> t \<noteq> [] \<Longrightarrow> rq_Authorization rq = ''Bearer '' @ t \<Longrightarrow> bearer_token rq = t"
proof -
  assume t: "CHR '' '' \<notin> set t" "t \<noteq> []" "rq_Authorization rq = ''Bearer '' @ t"
  have "split_on (CHR '' '') (''Bearer'' @ CHR '' '' # t) = ''Bearer'' # split_on (CHR '' '') t"
    by (rule split_on_append_sep) simp
  then show ?thesis using t by (simp add: bearer_token_def split_on_no_sep Let_def)
qed

lemma signed_passes:
  assumes jwt: "jwt_ok jl" and t: "jl_Sign jl SignedKey c = Inr t" "claims_ok c" "in_time now c" and rq: "rq_Authorization rq = ''Bearer '' @ t"
  shows "JWTMiddleware False jl now rq ctx =
    Pass (WithOperator ctx \<lparr>op_UserID = uc_UserID c, op_Name = uc_Username c, op_Role = uc_Role c\<rparr>)"
proof -
  have "t \<noteq> []" "CHR '' '' \<notin> set t" "jl_Parse jl SignedKey now t = Some c"
    using jwt t unfolding jwt_ok_def by auto
  with bearer_split [of t rq] rq show ?thesis by (simp add: JWTMiddleware_def)
qed

lemma Login_tokens:
  assumes "Login s jl rd now uuid req r = (Inr tk, r1)"
  shows "lr_Username req = ''admin'' \<and> lr_Password req = ''admin123'' \<and>
    jl_Sign jl SignedKey (token_claims ''1001'' ''admin'' ''admin'' now (au_accessTokenTTL s) []) = Inr (tk_AccessToken tk) \<and>
    jl_Sign jl SignedKey (token_claims ''1001'' ''admin'' ''admin'' now (au_refreshTokenTTL s) uuid) = Inr (tk_RefreshToken tk)"
  using assms by (auto simp: Login_def generateTokens_def split: if_splits sum.splits prod.splits option.splits)

lemma Refresh_without_session:
  assumes jwt: "jwt_ok jl" and rd: "redis_ok rd view"
    and t: "jl_Sign jl SignedKey c = Inr t" "claims_ok c" "view r (RedisKeyPrefix @ uc_UserID c) = None"
  shows "\<not> is_ok (fst (Refresh s jl rd now uuid t r))"
proof -
  obtain o1 r1 where ck: "refresh_check jl rd now t r = (o1, r1)" by (rule prod.exhaust)
  have p: "jl_Parse jl SignedKey now t = (if in_time now c then Some c else None)" using jwt t unfolding jwt_ok_def by blast
  have "\<exists>e. o1 = Inl e"
  proof (cases o1)
    case (Inr c')
    then have "jl_Parse jl SignedKey now t = Some c'" "view r (RedisKeyPrefix @ uc_UserID c') = Some t"
      using refresh_check_ok [OF rd ck] by auto
    with p t(3) show ?thesis by (auto split: if_splits)
  qed simp
  with ck show ?thesis by (auto simp: Refresh_def)
qed

text \<open>
  C36. A session from login to logout. Only the one user and password log in; the access
  token authenticates its requests as this user until it expires, and so does the refresh
  token, for as long as it lives (the middleware does not tell the two apart), before and after a logout alike. What a
  logout ends is the exchange: once it has succeeded, the refresh token of this login can no
  longer be exchanged.
\<close>

theorem session_lifecycle:
  assumes "jwt_ok jl" "redis_ok rd view" "clock_ok s now uuid"
    and "Login s jl rd now uuid req r = (Inr tk, r1)"
  defines "admin \<equiv> \<lparr>op_UserID = ''1001'', op_Name = ''admin'', op_Role = ''admin''\<rparr>"
  shows "lr_Username req = ''admin'' \<and> lr_Password req = ''admin123'' \<and>
    (\<forall>t rq ctx. numeric_date now * Second \<le> t \<and> t < numeric_date (now + au_accessTokenTTL s) * Second \<and>
       rq_Authorization rq = ''Bearer '' @ tk_AccessToken tk \<longrightarrow> JWTMiddleware False jl t rq ctx = Pass (WithOperator ctx admin)) \<and>
    (\<forall>t rq ctx. numeric_date now * Second \<le> t \<and> t < numeric_date (now + au_refreshTokenTTL s) * Second \<and>
       rq_Authorization rq = ''Bearer '' @ tk_RefreshToken tk \<longrightarrow> JWTMiddleware False jl t rq ctx = Pass (WithOperator ctx admin)) \<and>
    (\<forall>r2 t u. Logout rd (op_UserID admin) r1 = (None, r2) \<longrightarrow>
       \<not> is_ok (fst (Refresh s jl rd t u (tk_RefreshToken tk) r2)))"
proof -
  let ?at = "token_claims ''1001'' ''admin'' ''admin'' now (au_accessTokenTTL s) []"
  let ?rt = "token_claims ''1001'' ''admin'' ''admin'' now (au_refreshTokenTTL s) uuid"
  note L = Login_tokens [OF assms(4)]
  have ok: "claims_ok ?at" "claims_ok ?rt" using assms(3) by (auto simp: clock_ok_def intro!: token_claims_ok)
  have pass: "JWTMiddleware False jl t rq ctx = Pass (WithOperator ctx admin)"
    if "numeric_date now * Second \<le> t" "t < numeric_date (now + ttl) * Second"
      "jl_Sign jl SignedKey (token_claims ''1001'' ''admin'' ''admin'' now ttl jti) = Inr tok"
      "claims_ok (token_claims ''1001'' ''admin'' ''admin'' now ttl jti)" "rq_Authorization rq = ''Bearer '' @ tok" for t ttl jti tok rq ctx
    using signed_passes [OF assms(1) that(3,4) _ that(5)] that(1,2) by (simp add: in_time_def token_claims_def admin_def)
  have out: "\<not> is_ok (fst (Refresh s jl rd t u (tk_RefreshToken tk) r2))" if "Logout rd (op_UserID admin) r1 = (None, r2)" for r2 t u
  proof (rule Refresh_without_session [OF assms(1,2)])
    show "jl_Sign jl SignedKey ?rt = Inr (tk_RefreshToken tk)" using L by blast
    have "view r2 (RedisKeyPrefix @ ''1001'') = None" using assms(2) that unfolding redis_ok_def Logout_def admin_def by auto
    then show "view r2 (RedisKeyPrefix @ uc_UserID ?rt) = None" by (simp add: token_claims_def)
  qed (rule ok)
  show ?thesis using L ok pass out by blast
qed

definition admin_operator :: OperatorInfo where
  "admin_operator = \<lparr>op_UserID = ''1001'', op_Name = ''admin'', op_Role = ''admin''\<rparr>"

definition bearer_request :: "string \<Rightarrow> http_request" where
  "bearer_request t = \<lparr>rq_Authorization = ''Bearer '' @ t, rq_DevPass = [], rq_token = [], rq_MizuKey = [], rq_env = []\<rparr>"

theorem session_lifecycle_witness:
  "\<exists>tk r1. Login sample_auth unary_jwt mem_redis 0 ''u1'' admin_login [] = (Inr tk, r1) \<and>
     JWTMiddleware False unary_jwt Second (bearer_request (tk_RefreshToken tk)) Background = Pass (WithOperator Background admin_operator) \<and>
     \<not> is_ok (fst (Refresh sample_auth unary_jwt mem_redis Second ''u2'' (tk_RefreshToken tk) (snd (Logout mem_redis ''1001'' r1))))"
proof -
  have sg: "jl_Sign unary_jwt k c = Inr (enc_nats (claims_nats c))" for k c by (simp add: unary_jwt_def)
  obtain tk r1 where l: "Login sample_auth unary_jwt mem_redis 0 ''u1'' admin_login [] = (Inr tk, r1)"
    by (simp add: Login_def admin_login_def generateTokens_def sg mem_redis_def)
  have c: "clock_ok sample_auth 0 ''u1''"
    by (simp add: clock_ok_def sample_auth_def Second_def ascii_valid is_ascii_def)
  have lo: "Logout mem_redis ''1001'' r1 = (None, snd (Logout mem_redis ''1001'' r1))" by (simp add: Logout_def mem_redis_def)
  note S = session_lifecycle [OF unary_jwt_ok mem_redis_ok c l]
  have "JWTMiddleware False unary_jwt Second (bearer_request (tk_RefreshToken tk)) Background = Pass (WithOperator Background admin_operator)"
    using S by (auto simp: bearer_request_def admin_operator_def numeric_date_def sample_auth_def Second_def)
  with S lo l show ?thesis by auto
qed

text \<open>
  The exchange is not atomic: when two requests with the same token both look up the session
  before either stores its new token, both are accepted. So the guarantee of a single
  exchange holds for requests that follow each other, not for concurrent ones.
\<close>

lemma refresh_race:
  assumes "refresh_check jl mem_redis now tok r = (Inr claims, r1)" "\<And>c. \<exists>t. jl_Sign jl SignedKey c = Inr t"
  shows "refresh_check jl mem_redis now tok r1 = (Inr claims, r1) \<and>
    (\<exists>t1 t2 r2 r3. generateTokens s jl mem_redis now u1 (uc_UserID claims) (uc_Username claims) (uc_Role claims) r1 = (Inr t1, r2) \<and>
       generateTokens s jl mem_redis now u2 (uc_UserID claims) (uc_Username claims) (uc_Role claims) r2 = (Inr t2, r3))"
proof -
  have "refresh_check jl mem_redis now tok r1 = (Inr claims, r1)"
    using assms(1) by (auto simp: refresh_check_def mem_redis_def split: option.splits if_splits)
  moreover have "\<exists>t r'. generateTokens s jl mem_redis now u a b d r0 = (Inr t, r')" for u a b d r0
    using assms(2) [of "token_claims a b d now (au_accessTokenTTL s) []"] assms(2) [of "token_claims a b d now (au_refreshTokenTTL s) u"]
    by (auto simp: generateTokens_def mem_redis_def)
  ultimately show ?thesis by meson
qed

end

