(* ===== verification/Go_Double.thy ===== *)
theory Go_Double
  imports Go_Float
begin

text \<open>
  Arithmetic on IEEE binary64, the \<open>float64\<close> of Go and the numbers of Lua: the result of an
  operation is the exact result rounded to the nearest double, ties to even (\<open>round64\<close> of
  \<open>Go_Float\<close>, on magnitudes). What the rounding costs: it is monotone, exact on integers below
  \<open>2 ^ 53\<close>, and off by at most a part in \<open>2 ^ 53\<close> (or \<open>2 ^ (- 1075)\<close>, next to zero).
\<close>

text \<open>Past the largest double stands infinity; here it is written as \<open>2 ^ 1024\<close>, above every double.\<close>

definition fl :: "rat \<Rightarrow> rat" where
  "fl x = (let m = (case round64 \<bar>x\<bar> of Some r \<Rightarrow> r | None \<Rightarrow> two_pow 1024) in if x < 0 then - m else m)"

section \<open>Powers of two and bit lengths\<close>

lemma two_pow_powi: "two_pow e = 2 powi e"
  by (simp add: two_pow_def power_int_def power_one_over inverse_eq_divide)

lemma two_pow_pos [simp]: "0 < two_pow e"
  by (simp add: two_pow_def)

lemma two_pow_ge_0 [simp]: "0 \<le> two_pow e"
  using two_pow_pos [of e] by linarith

lemma two_pow_nonzero [simp]: "two_pow e \<noteq> 0"
  using two_pow_pos [of e] by linarith

lemma two_pow_add: "two_pow (a + b) = two_pow a * two_pow b"
  by (simp add: two_pow_powi power_int_add)

lemma two_pow_mono: "a \<le> b \<Longrightarrow> two_pow a \<le> two_pow b"
  by (simp add: two_pow_powi power_int_increasing)

lemma bit_len_bounds: "0 < n \<Longrightarrow> 0 < bit_len n \<and> two_pow (bit_len n - 1) \<le> of_int n \<and> of_int n < two_pow (bit_len n)"
proof (induction n rule: bit_len.induct)
  case (1 n)
  have len: "bit_len n = 1 + bit_len (n div 2)" using 1(2) by (subst bit_len.simps) simp
  show ?case
  proof (cases "n = 1")
    case True
    then show ?thesis unfolding len by (simp add: bit_len.simps [of 0] two_pow_def)
  next
    case False
    with 1(2) have "0 < n div 2" "\<not> n \<le> 0" by auto
    from 1(1) [OF this(2,1)]
    have ih: "0 < bit_len (n div 2)" "two_pow (bit_len (n div 2) - 1) \<le> of_int (n div 2)" "of_int (n div 2) < two_pow (bit_len (n div 2))"
      by auto
    have up: "n div 2 + 1 \<le> (2::int) ^ nat (bit_len (n div 2))"
      using ih(1,3) by (simp add: two_pow_def flip: of_int_power)
    then have "n < 2 * (2::int) ^ nat (bit_len (n div 2))" by linarith
    then have "(of_int n :: rat) < of_int (2 * 2 ^ nat (bit_len (n div 2)))" by (simp only: of_int_less_iff)
    then have hi: "of_int n < two_pow (bit_len n)"
      using ih(1) unfolding len two_pow_add by (simp add: two_pow_def)
    have "2 * of_int (n div 2) \<le> (of_int n :: rat)" 
    proof -
      have "2 * (n div 2) \<le> n" by simp
      then have "of_int (2 * (n div 2)) \<le> (of_int n :: rat)" by (simp only: of_int_le_iff)
      then show ?thesis by simp
    qed
    then have "two_pow (bit_len n - 1) \<le> of_int n"
      using ih(2) two_pow_add [of 1 "bit_len (n div 2) - 1"] unfolding len by (simp add: two_pow_def [of 1])
    then show ?thesis using hi ih(1) len by simp
  qed
qed

section \<open>The exponent of the last place\<close>

lemma ulp_exp_bounds:
  assumes "0 < x"
  shows "- 1074 \<le> ulp_exp x" "ulp_exp x = - 1074 \<or> two_pow (ulp_exp x + 52) \<le> x" "x < two_pow (ulp_exp x + 53)"
proof -
  obtain p q where pq: "quotient_of x = (p, q)" by (rule prod.exhaust)
  then have x: "x = of_int p / of_int q" and q: "0 < q" by (rule quotient_of_div, rule quotient_of_denom_pos)
  then have p: "0 < p" using assms by (simp add: zero_less_divide_iff)
  define e0 where "e0 = bit_len p - bit_len q - 53"
  note bp = bit_len_bounds [OF p] and bq = bit_len_bounds [OF q]
  have lo: "two_pow (e0 + 52) \<le> x"
  proof -
    have "two_pow (e0 + 52) * of_int q \<le> two_pow (e0 + 52) * two_pow (bit_len q)" using bq by (intro mult_left_mono) auto
    also have "\<dots> = two_pow (bit_len p - 1)" unfolding e0_def by (simp flip: two_pow_add)
    also have "\<dots> \<le> of_int p" using bp by simp
    finally show ?thesis using q unfolding x by (simp add: pos_le_divide_eq)
  qed
  have hi: "x < two_pow (e0 + 54)"
  proof -
    have "of_int p < two_pow (bit_len p)" using bp by simp
    also have "\<dots> = two_pow (e0 + 54) * two_pow (bit_len q - 1)" unfolding e0_def by (simp flip: two_pow_add)
    also have "\<dots> \<le> two_pow (e0 + 54) * of_int q" using bq by (intro mult_left_mono) auto
    finally show ?thesis using q unfolding x by (simp add: pos_divide_less_eq)
  qed
  define e1 where "e1 = (if x \<ge> two_pow (e0 + 53) then e0 + 1 else e0)"
  have u: "ulp_exp x = max e1 (- 1074)"
    using lo unfolding ulp_exp_def pq e1_def e0_def by (simp add: Let_def)
  have e1: "two_pow (e1 + 52) \<le> x" "x < two_pow (e1 + 53)" using lo hi unfolding e1_def by (auto simp: add.commute)
  show "- 1074 \<le> ulp_exp x" unfolding u by simp
  show "ulp_exp x = - 1074 \<or> two_pow (ulp_exp x + 52) \<le> x" unfolding u using e1(1) by (auto simp: max_def)
  show "x < two_pow (ulp_exp x + 53)"
    unfolding u by (rule less_le_trans [OF e1(2) two_pow_mono]) simp
qed

lemma ulp_exp_mono: "0 < x \<Longrightarrow> x \<le> y \<Longrightarrow> ulp_exp x \<le> ulp_exp y"
proof (rule ccontr)
  assume xy: "0 < x" "x \<le> y" and n: "\<not> ulp_exp x \<le> ulp_exp y"
  then have y: "0 < y" by simp
  from n ulp_exp_bounds(1) [OF y] ulp_exp_bounds(2) [OF xy(1)] have "two_pow (ulp_exp x + 52) \<le> x" by auto
  moreover have "two_pow (ulp_exp y + 53) \<le> two_pow (ulp_exp x + 52)" using n by (intro two_pow_mono) simp
  ultimately show False using ulp_exp_bounds(3) [OF y] xy(2) by simp
qed

section \<open>Rounding to an integer\<close>

lemma round_even_error: "\<bar>of_int (round_even x) - x\<bar> \<le> 1 / 2"
proof -
  have "of_int \<lfloor>x\<rfloor> \<le> x" "x < of_int \<lfloor>x\<rfloor> + 1" by linarith+
  then show ?thesis by (auto simp: round_even_def Let_def abs_le_iff)
qed

lemma round_even_int [simp]: "round_even (of_int k) = k"
  by (simp add: round_even_def)

lemma round_even_mono: "x \<le> y \<Longrightarrow> round_even x \<le> round_even y"
proof -
  assume xy: "x \<le> y"
  have f: "\<lfloor>x\<rfloor> \<le> \<lfloor>y\<rfloor>" using xy by (rule floor_mono)
  have b: "\<lfloor>z\<rfloor> \<le> round_even z" "round_even z \<le> \<lfloor>z\<rfloor> + 1" for z by (auto simp: round_even_def Let_def)
  show ?thesis
  proof (cases "\<lfloor>x\<rfloor> = \<lfloor>y\<rfloor>")
    case True
    with xy show ?thesis by (auto simp: round_even_def Let_def)
  next
    case False
    with f b [of x] b [of y] show ?thesis by linarith
  qed
qed

lemma round_even_le: "x \<le> of_int k \<Longrightarrow> round_even x \<le> k"
  using round_even_mono [of x "of_int k"] by simp

lemma round_even_ge: "of_int k \<le> x \<Longrightarrow> k \<le> round_even x"
  using round_even_mono [of "of_int k" x] by simp

section \<open>Rounding to a double\<close>

definition fl_mag :: "rat \<Rightarrow> rat" where
  "fl_mag x = of_int (round_even (x / two_pow (ulp_exp x))) * two_pow (ulp_exp x)"

lemma fl_pos: "0 < x \<Longrightarrow> fl x = min (fl_mag x) (two_pow 1024)"
  by (simp add: fl_def round64_def fl_mag_def Let_def min_def)

lemma fl_0 [simp]: "fl 0 = 0"
  by (simp add: fl_def round64_def)

lemma fl_minus: "fl (- x) = - fl x"
  by (cases x "0 :: rat" rule: linorder_cases) (simp_all add: fl_def round64_def Let_def)

lemma fl_mag_error: "0 < x \<Longrightarrow> \<bar>fl_mag x - x\<bar> \<le> x / 2 ^ 53 + two_pow (- 1075)"
proof -
  assume x: "0 < x"
  let ?e = "ulp_exp x"
  have half: "two_pow ?e / 2 \<le> x / 2 ^ 53 + two_pow (- 1075)"
  proof (cases "?e = - 1074")
    case True
    have "two_pow (- 1074) / 2 = two_pow (- 1075)" using two_pow_add [of "- 1075" 1] by (simp add: two_pow_def [of 1])
    moreover have "0 \<le> x / 2 ^ 53" using x by simp
    ultimately show ?thesis unfolding True by linarith
  next
    case False
    with ulp_exp_bounds(2) [OF x] have "two_pow ?e * two_pow 52 \<le> x" by (simp add: two_pow_add)
    then have "two_pow ?e / 2 \<le> x / 2 ^ 53" by (simp add: two_pow_def [of 52])
    with two_pow_ge_0 [of "- 1075"] show ?thesis by linarith
  qed
  let ?r = "of_int (round_even (x / two_pow ?e)) :: rat"
  have "fl_mag x - x = (?r - x / two_pow ?e) * two_pow ?e" by (simp add: fl_mag_def left_diff_distrib)
  then have "\<bar>fl_mag x - x\<bar> = \<bar>?r - x / two_pow ?e\<bar> * two_pow ?e" by (simp add: abs_mult)
  also have "\<dots> \<le> 1 / 2 * two_pow ?e" by (intro mult_right_mono round_even_error) simp
  finally show ?thesis using half by simp
qed

lemma fl_mag_nonneg: "0 < x \<Longrightarrow> 0 \<le> fl_mag x"
  unfolding fl_mag_def using round_even_ge [of 0 "x / two_pow (ulp_exp x)"] by simp

lemma fl_nonneg: "0 \<le> x \<Longrightarrow> 0 \<le> fl x"
  by (cases "x = 0") (simp_all add: fl_pos fl_mag_nonneg)

lemma fl_upper: "0 \<le> x \<Longrightarrow> fl x \<le> x + x / 2 ^ 53 + two_pow (- 1075)"
  using fl_mag_error [of x] by (cases "x = 0") (auto simp: fl_pos)

lemma fl_lower: "0 \<le> x \<Longrightarrow> x \<le> two_pow 1024 \<Longrightarrow> x - x / 2 ^ 53 - two_pow (- 1075) \<le> fl x"
proof (cases "x = 0")
  case False
  assume x: "0 \<le> x" "x \<le> two_pow 1024"
  have "0 \<le> x / 2 ^ 53" using x by simp
  with x False fl_mag_error [of x] two_pow_ge_0 [of "- 1075"] show ?thesis by (auto simp: fl_pos min_def)
qed simp

lemma fl_mag_mono: "0 < x \<Longrightarrow> x \<le> y \<Longrightarrow> fl_mag x \<le> fl_mag y"
proof -
  assume xy: "0 < x" "x \<le> y"
  let ?a = "ulp_exp x" and ?b = "ulp_exp y"
  show ?thesis
  proof (cases "?a = ?b")
    case True
    have "round_even (x / two_pow ?b) \<le> round_even (y / two_pow ?b)" using xy(2) by (intro round_even_mono divide_right_mono) auto
    then show ?thesis unfolding fl_mag_def True by (intro mult_right_mono) auto
  next
    case False
    then have ab: "?a < ?b" using ulp_exp_mono [OF xy] by simp
    have y: "0 < y" using xy by simp
    have "?b \<noteq> - 1074" using ab ulp_exp_bounds(1) [OF xy(1)] by simp
    then have lo: "two_pow (?b + 52) \<le> y" using ulp_exp_bounds(2) [OF y] by simp
    have "x / two_pow ?a \<le> of_int (2 ^ 53)"
      using ulp_exp_bounds(3) [OF xy(1)] by (simp add: two_pow_add two_pow_def [of 53] pos_divide_le_eq mult.commute)
    from round_even_le [OF this] have "fl_mag x \<le> of_int (2 ^ 53) * two_pow ?a"
      unfolding fl_mag_def by (intro mult_right_mono) (auto simp only: of_int_le_iff two_pow_ge_0)
    also have "\<dots> = two_pow (?a + 53)" by (simp add: two_pow_add two_pow_def [of 53])
    also have "\<dots> \<le> two_pow (?b + 52)" using ab by (intro two_pow_mono) simp
    also have "\<dots> = of_int (2 ^ 52) * two_pow ?b" by (simp add: two_pow_add two_pow_def [of 52])
    also have "\<dots> \<le> fl_mag y"
    proof -
      have "of_int (2 ^ 52) \<le> y / two_pow ?b" using lo by (simp add: two_pow_add two_pow_def [of 52] pos_le_divide_eq mult.commute)
      from round_even_ge [OF this] show ?thesis
        unfolding fl_mag_def by (intro mult_right_mono) (auto simp only: of_int_le_iff two_pow_ge_0)
    qed
    finally show ?thesis .
  qed
qed

lemma fl_mono: "x \<le> y \<Longrightarrow> fl x \<le> fl y"
proof -
  assume xy: "x \<le> y"
  have pos: "fl x \<le> fl y" if "0 \<le> x" "x \<le> y" for x y
  proof (cases "x = 0")
    case False
    with that fl_mag_mono [of x y] show ?thesis by (simp add: fl_pos min.coboundedI1 min_le_iff_disj)
  qed (use that in \<open>simp add: fl_nonneg\<close>)
  have neg: "fl x = - fl (- x)" for x by (simp add: fl_minus)
  show ?thesis
  proof (cases "0 \<le> x")
    case True
    with xy show ?thesis by (rule pos [rotated])
  next
    case False
    show ?thesis
    proof (cases "0 \<le> y")
      case True
      have "0 \<le> fl (- x)" using False by (intro fl_nonneg) simp
      then show ?thesis using fl_nonneg [OF True] neg [of x] by simp
    qed (use pos [of "- y" "- x"] xy neg [of x] neg [of y] in simp)
  qed
qed

lemma fl_int: "\<bar>k\<bar> < 2 ^ 53 \<Longrightarrow> fl (of_int k) = of_int k"
proof -
  have pos: "fl (of_int k) = of_int k" if k: "0 < k" "k < 2 ^ 53" for k
  proof -
    have x: "(0::rat) < of_int k" using k by simp
    have "(of_int k :: rat) < of_int (2 ^ 53)" using k by (simp only: of_int_less_iff)
    then have lt: "of_int k < two_pow 53" by (simp add: two_pow_def)
    let ?e = "ulp_exp (of_int k)"
    have "?e \<le> 0"
    proof (rule ccontr)
      assume n: "\<not> ?e \<le> 0"
      then have "two_pow (?e + 52) \<le> of_int k" using ulp_exp_bounds(2) [OF x] by auto
      moreover have "two_pow 53 \<le> two_pow (?e + 52)" using n by (intro two_pow_mono) simp
      ultimately show False using lt by simp
    qed
    then have "two_pow (- ?e) = of_int (2 ^ nat (- ?e))" by (simp add: two_pow_def)
    moreover have "of_int k / two_pow ?e = of_int k * two_pow (- ?e)" using two_pow_add [of ?e "- ?e"] by (simp add: two_pow_def [of 0] divide_eq_eq mult.assoc mult.commute)
    ultimately have "of_int k / two_pow ?e = of_int (k * 2 ^ nat (- ?e))" by simp
    then have "fl_mag (of_int k) = of_int k" unfolding fl_mag_def by (metis nonzero_divide_eq_eq round_even_int two_pow_nonzero)
    moreover have "two_pow 53 \<le> two_pow 1024" by (rule two_pow_mono) simp
    ultimately show ?thesis using lt x by (simp add: fl_pos min_def)
  qed
  assume k: "\<bar>k\<bar> < 2 ^ 53"
  then show ?thesis
    using pos [of k] pos [of "- k"] fl_minus [of "of_int k"] by (cases k "0 :: int" rule: linorder_cases) auto
qed

lemma fl_numeral [simp]: "numeral k < (2 :: int) ^ 53 \<Longrightarrow> fl (numeral k) = numeral k"
  using fl_int [of "numeral k"] by simp

lemma fl_1 [simp]: "fl 1 = 1"
  using fl_int [of 1] by simp

end
