(* ===== verification/Rate_Limit.thy ===== *)
theory Rate_Limit
  imports Api_Types Go_Double
begin

text \<open>
  \<open>internal/middleware/ratelimit.go\<close>: the token bucket in redis, as the Lua script the
  middleware sends, and the in-memory limiter it falls back to. Lua's numbers and Go's
  \<open>float64\<close> are IEEE doubles: every operation rounds (\<open>fl\<close>, from \<open>Go_Double\<close>).
  \<open>golang.org/x/time/rate\<close> is a parameter.
\<close>

section \<open>The script\<close>

text \<open>
  The two keys are written together with one time to live, so they are one record; they are
  gone once redis's clock has reached the end of it. A double goes to redis and comes back
  in a decimal form that identifies it (the client writes the shortest one, redis 17 digits),
  so what the script reads is what was written.
\<close>

record bucket =
  bk_tokens :: rat
  bk_ts :: rat
  bk_expires :: rat

definition live_bucket :: "rat \<Rightarrow> bucket option \<Rightarrow> bucket option" where
  "live_bucket clock st = (case st of None \<Rightarrow> None | Some b \<Rightarrow> if bk_expires b \<le> clock then None else Some b)"

definition bucket_ttl :: "rat \<Rightarrow> rat \<Rightarrow> rat" where
  "bucket_ttl rate capacity = (let fill_time = fl (capacity / rate) in of_int \<lceil>fl (fill_time * 2)\<rceil>)"

definition token_bucket ::
  "rat \<Rightarrow> rat \<Rightarrow> rat \<Rightarrow> rat \<Rightarrow> rat \<Rightarrow> bucket option \<Rightarrow> (int \<times> rat \<times> rat) \<times> bucket option" where
  "token_bucket rate capacity now requested clock st =
     (let live = live_bucket clock st;
          last_tokens = (case live of None \<Rightarrow> capacity | Some b \<Rightarrow> bk_tokens b);
          last_ts = (case live of None \<Rightarrow> now | Some b \<Rightarrow> bk_ts b);
          delta = max 0 (fl (now - last_ts));
          filled_tokens = min capacity (fl (last_tokens + fl (delta * rate)));
          left = fl (filled_tokens - requested)
      in if filled_tokens \<ge> requested
         then ((1, left, 0), Some \<lparr>bk_tokens = left, bk_ts = now, bk_expires = clock + bucket_ttl rate capacity\<rparr>)
         else ((0, filled_tokens, fl (fl (requested - filled_tokens) / rate)), live))"

section \<open>The middleware\<close>

text \<open>What the redis client hands back; a number that a script returns is cut to an integer.\<close>

datatype redis_value = RInt int | RFloat rat | ROther

definition cut_int :: "rat \<Rightarrow> int" where
  "cut_int x = (if x \<ge> 0 then \<lfloor>x\<rfloor> else \<lceil>x\<rceil>)"

definition script_reply :: "int \<times> rat \<times> rat \<Rightarrow> redis_value list" where
  "script_reply r = (case r of (allowed, remaining, reset_after) \<Rightarrow>
     [RInt allowed, RInt (cut_int remaining), RInt (cut_int reset_after)])"

definition helperInt :: "redis_value \<Rightarrow> int" where
  "helperInt v = (case v of RInt i \<Rightarrow> i | RFloat f \<Rightarrow> cut_int f | ROther \<Rightarrow> 0)"

definition helperFloat :: "redis_value \<Rightarrow> rat" where
  "helperFloat v = (case v of RFloat f \<Rightarrow> f | RInt i \<Rightarrow> fl (of_int i) | ROther \<Rightarrow> 0)"

text \<open>The limiters of the fallback, by address: the limiter and when it was last used.\<close>

record 'l limiter_lib =
  ll_New :: "int \<Rightarrow> int \<Rightarrow> 'l"
  ll_Allow :: "int \<Rightarrow> 'l \<Rightarrow> bool \<times> 'l"
  ll_Tokens :: "int \<Rightarrow> 'l \<Rightarrow> rat"

type_synonym 'l local_limiters = "(string, 'l \<times> int) gomap"

definition Minute_ns :: int where "Minute_ns = 60 * 10 ^ 9"

definition cleanup :: "int \<Rightarrow> 'l local_limiters \<Rightarrow> 'l local_limiters" where
  "cleanup now m = filter (\<lambda>(ip, (l, lastSeen)). \<not> (now - lastSeen > 10 * Minute_ns)) m"

definition getLocalLimiter ::
  "'l limiter_lib \<Rightarrow> int \<Rightarrow> string \<Rightarrow> int \<Rightarrow> int \<Rightarrow> 'l local_limiters \<Rightarrow> 'l \<times> 'l local_limiters" where
  "getLocalLimiter lib now ip r b m =
     (case gm_get m ip of
        Some (l, lastSeen) \<Rightarrow> (l, gm_put ip (l, now) m)
      | None \<Rightarrow> (let l = ll_New lib r b in (l, gm_put ip (l, now) m)))"

definition effective_rps :: "int \<Rightarrow> int" where
  "effective_rps requestsPerSecond = (if requestsPerSecond \<le> 0 then 5 else requestsPerSecond)"

text \<open>The arguments of the script: \<open>float64(time.Now().UnixMicro()) / 1e6\<close>, from nanoseconds.\<close>

definition script_now :: "int \<Rightarrow> rat" where
  "script_now now = fl (fl (of_int (now div 1000)) / 10 ^ 6)"

definition run_script :: "int \<Rightarrow> int \<Rightarrow> rat \<Rightarrow> bucket option \<Rightarrow> (int \<times> rat \<times> rat) \<times> bucket option" where
  "run_script requestsPerSecond now clock st =
     (let rps = effective_rps requestsPerSecond
      in token_bucket (fl (of_int rps)) (fl (of_int rps)) (script_now now) 1 clock st)"

type_synonym headers = "(string \<times> string) list"

definition unix_after :: "int \<Rightarrow> rat \<Rightarrow> int" where
  "unix_after now resetAfter = (now + cut_int (fl (resetAfter * 10 ^ 9))) div 10 ^ 9"

text \<open>
  The rest of the middleware, from the script's result: an error, a reply that is not a
  slice (\<open>None\<close>), or a slice. \<open>True\<close> lets the request through; otherwise it ends with 429.
\<close>

definition RateLimitMiddleware ::
  "'l limiter_lib \<Rightarrow> int \<Rightarrow> string + redis_value list option \<Rightarrow> int \<Rightarrow> string \<Rightarrow> 'l local_limiters \<Rightarrow>
     (bool \<times> headers) \<times> 'l local_limiters" where
  "RateLimitMiddleware lib requestsPerSecond result now clientIP m =
     (let rps = effective_rps requestsPerSecond;
          limit = (''X-RateLimit-Limit'', show_int rps)
      in case result of
           Inl err \<Rightarrow>
             (let (limiter, m1) = getLocalLimiter lib now clientIP rps rps m;
                  (ok, limiter1) = ll_Allow lib now limiter;
                  m2 = gm_put clientIP (limiter1, now) m1
              in if \<not> ok
                 then ((False, [limit, (''X-RateLimit-Remaining'', ''0''), (''X-RateLimit-Reset'', ''1'')]), m2)
                 else ((True, [limit, (''X-RateLimit-Remaining'', show_int (cut_int (ll_Tokens lib now limiter1)))]), m2))
         | Inr None \<Rightarrow> ((True, []), m)
         | Inr (Some resSlice) \<Rightarrow>
             (if length resSlice \<noteq> 3 then ((True, []), m)
              else
                (let allowed = (helperInt (resSlice ! 0) = 1);
                     remaining = helperFloat (resSlice ! 1);
                     resetAfter = helperFloat (resSlice ! 2)
                 in ((allowed, [limit, (''X-RateLimit-Remaining'', show_int (cut_int remaining)),
                       (''X-RateLimit-Reset'', show_int (unix_after now resetAfter))]), m))))"

section \<open>The bound\<close>

text \<open>
  The script runs of one address, in the order redis runs them, each with the clock of the
  server that sent it (nanoseconds) and the clock of redis (seconds).
\<close>

fun bucket_run :: "int \<Rightarrow> (int \<times> rat) list \<Rightarrow> bucket option \<Rightarrow> bool list \<times> bucket option" where
  "bucket_run requestsPerSecond [] st = ([], st)"
| "bucket_run requestsPerSecond ((now, clock) # reqs) st =
     (case run_script requestsPerSecond now clock st of
        ((allowed, remaining, reset_after), st1) \<Rightarrow>
          (case bucket_run requestsPerSecond reqs st1 of (rs, st2) \<Rightarrow> ((allowed = 1) # rs, st2)))"

text \<open>By how much the servers' clocks moved forward from one run to the next, in all.\<close>

fun forward :: "rat \<Rightarrow> rat list \<Rightarrow> rat" where
  "forward t [] = 0"
| "forward t (u # us) = max 0 (u - t) + forward u us"

lemma forward_sorted: "sorted (t # us) \<Longrightarrow> forward t us = last (t # us) - t"
  by (induction us arbitrary: t) auto

text \<open>The clock of a server may be behind the one of redis, by \<open>off\<close> to \<open>off + 1\<close> seconds.\<close>

definition clocks_ok :: "rat \<Rightarrow> int \<times> rat \<Rightarrow> bool" where
  "clocks_ok off req \<longleftrightarrow> (case req of (now, clock) \<Rightarrow> off + script_now now \<le> clock \<and> clock \<le> off + script_now now + 1)"

text \<open>What a bucket of rate and burst \<open>R\<close> that never expires and never rounds would hold.\<close>

definition fill_level :: "rat \<Rightarrow> bucket option \<Rightarrow> rat \<Rightarrow> rat" where
  "fill_level R st now = (case st of None \<Rightarrow> R | Some b \<Rightarrow> min R (bk_tokens b + max 0 (now - bk_ts b) * R))"

text \<open>What runs of the script under such clocks leave (\<open>bucket_step\<close>).\<close>

definition bucket_ok :: "rat \<Rightarrow> bucket option \<Rightarrow> bool" where
  "bucket_ok off st \<longleftrightarrow> (case st of None \<Rightarrow> True | Some b \<Rightarrow> 0 \<le> bk_tokens b \<and> bk_ts b + off + 2 \<le> bk_expires b)"

lemma ttl_two: "0 < R \<Longrightarrow> bucket_ttl R R = 2"
  by (simp add: bucket_ttl_def)

lemma live_bucket_ok: "bucket_ok off st \<Longrightarrow> bucket_ok off (live_bucket clock st)"
  by (auto simp: bucket_ok_def live_bucket_def split: option.splits)

lemma level_le: "fill_level R st now \<le> R"
  by (auto simp: fill_level_def split: option.splits)

lemma level_nonneg: "0 \<le> R \<Longrightarrow> bucket_ok off st \<Longrightarrow> 0 \<le> fill_level R st now"
  by (auto simp: fill_level_def bucket_ok_def split: option.splits)

lemma level_grows:
  assumes "0 \<le> R"
  shows "fill_level R st now' \<le> fill_level R st now + R * max 0 (now' - now)"
proof (cases st)
  case (Some b)
  have "max 0 (now' - bk_ts b) * R \<le> (max 0 (now - bk_ts b) + max 0 (now' - now)) * R"
    using assms by (intro mult_right_mono) auto
  moreover have "0 \<le> R * max 0 (now' - now)" using assms by simp
  ultimately show ?thesis unfolding Some fill_level_def option.case distrib_right mult.commute [of R] by linarith
qed (use assms in \<open>simp add: fill_level_def\<close>)

text \<open>The expiry of the keys cannot be observed: an expired bucket would be full again.\<close>

lemma level_live:
  assumes R: "0 < R" and ok: "bucket_ok off st" and c: "clock \<le> off + now + 1"
  shows "fill_level R (live_bucket clock st) now = fill_level R st now"
proof (cases st)
  case (Some b)
  show ?thesis
  proof (cases "bk_expires b \<le> clock")
    case True
    then have "1 \<le> max 0 (now - bk_ts b)" using ok c Some by (simp add: bucket_ok_def)
    then have "1 * R \<le> max 0 (now - bk_ts b) * R" using R by (intro mult_right_mono) auto
    then show ?thesis using True Some ok by (simp add: live_bucket_def fill_level_def bucket_ok_def)
  qed (simp add: Some live_bucket_def)
qed (simp add: live_bucket_def)

section \<open>What the rounding adds\<close>

lemma tiny: "two_pow (- 1075) \<le> 1 / 2 ^ 60"
proof -
  have "two_pow (- 1075) \<le> two_pow (- 60)" by (rule two_pow_mono) simp
  then show ?thesis by (simp add: two_pow_def [of "- 60"])
qed

lemma refill_upper:
  assumes R: "1 \<le> R" and L: "0 \<le> L"
  shows "min R (fl (L + fl (max 0 (fl (now - ts)) * R))) \<le> min R (L + max 0 (now - ts) * R) + 6 * R / 2 ^ 53"
proof (cases "L + max 0 (now - ts) * R < R")
  case True
  define d where "d = max 0 (now - ts)"
  define a where "a = max 0 (fl (now - ts))"
  have d: "0 \<le> d" "0 \<le> d * R" and a0: "0 \<le> a * R" using R by (auto simp: d_def a_def)
  have "a \<le> d + d / 2 ^ 53 + 1 / 2 ^ 60"
  proof (cases "0 \<le> now - ts")
    case True
    then have "fl (now - ts) \<le> d + d / 2 ^ 53 + two_pow (- 1075)" using fl_upper [OF True] by (simp add: d_def)
    with d(1) tiny show ?thesis by (auto simp: a_def)
  next
    case False
    then have "fl (now - ts) \<le> 0" using fl_mono [of "now - ts" 0] by simp
    then show ?thesis using d(1) by (simp add: a_def)
  qed
  then have "a * R \<le> (d + d / 2 ^ 53 + 1 / 2 ^ 60) * R" using R by (intro mult_right_mono) auto
  then have a: "a * R \<le> d * R + d * R / 2 ^ 53 + R / 2 ^ 60" by (simp add: algebra_simps)
  define b where "b = fl (a * R)"
  have b: "0 \<le> b" "b \<le> a * R + a * R / 2 ^ 53 + 1 / 2 ^ 60"
    using fl_nonneg [OF a0] fl_upper [OF a0] tiny by (auto simp: b_def)
  have "0 \<le> L + b" using L b by simp
  then have c: "fl (L + b) \<le> L + b + (L + b) / 2 ^ 53 + 1 / 2 ^ 60" using fl_upper [of "L + b"] tiny by linarith
  have "fl (L + b) \<le> L + d * R + 6 * R / 2 ^ 53"
    using a b c d R L True [folded d_def] by (simp add: field_simps)
  with True show ?thesis unfolding d_def b_def a_def by linarith
next
  case False
  have "0 \<le> 6 * R / 2 ^ 53" using R by simp
  with False show ?thesis by linarith
qed

lemma charge_upper:
  assumes "1 \<le> R" "1 \<le> F" "F \<le> R"
  shows "0 \<le> fl (F - 1)" "fl (F - 1) \<le> F - 1 + 2 * R / 2 ^ 53"
proof -
  show "0 \<le> fl (F - 1)" using assms by (intro fl_nonneg) simp
  have "fl (F - 1) \<le> F - 1 + (F - 1) / 2 ^ 53 + 1 / 2 ^ 60" using assms fl_upper [of "F - 1"] tiny by simp
  then show "fl (F - 1) \<le> F - 1 + 2 * R / 2 ^ 53" using assms by (simp add: field_simps)
qed

text \<open>One run of the script: the level falls by one for an admitted request, up to the rounding.\<close>

lemma bucket_step:
  assumes R: "1 \<le> R" and ok: "bucket_ok off st" and c: "off + now \<le> clock" "clock \<le> off + now + 1"
    and run: "token_bucket R R now 1 clock st = ((a, rest), st')"
  shows "bucket_ok off st' \<and> fill_level R st' now \<le> fill_level R st now + R / 2 ^ 50 - (if a = 1 then 1 else 0)"
proof -
  let ?live = "live_bucket clock st"
  let ?L = "case ?live of None \<Rightarrow> R | Some b \<Rightarrow> bk_tokens b"
  let ?ts = "case ?live of None \<Rightarrow> now | Some b \<Rightarrow> bk_ts b"
  let ?F = "min R (fl (?L + fl (max 0 (fl (now - ?ts)) * R)))"
  have L: "0 \<le> ?L" using live_bucket_ok [OF ok, of clock] R by (auto simp: bucket_ok_def split: option.splits)
  have lev: "fill_level R st now = min R (?L + max 0 (now - ?ts) * R)"
    using level_live [OF _ ok c(2), of R] R by (auto simp: fill_level_def split: option.splits)
  have F: "?F \<le> fill_level R st now + 6 * R / 2 ^ 53" unfolding lev by (rule refill_upper [OF R L])
  show ?thesis
  proof (cases "1 \<le> ?F")
    case True
    have st': "a = 1" "st' = Some \<lparr>bk_tokens = fl (?F - 1), bk_ts = now, bk_expires = clock + bucket_ttl R R\<rparr>"
      using run True by (auto simp: token_bucket_def Let_def)
    have "?F \<le> R" by simp
    note C = charge_upper [OF R True this]
    have "bucket_ok off st'" using C(1) c(1) R ttl_two [of R] by (simp add: st' bucket_ok_def)
    moreover have "fill_level R st' now \<le> fl (?F - 1)" by (simp add: st' fill_level_def)
    ultimately show ?thesis using C(2) F R st'(1) by (simp add: field_simps)
  next
    case False
    then have st': "a = 0" "st' = ?live" using run by (auto simp: token_bucket_def Let_def)
    have "fill_level R ?live now = fill_level R st now" using R by (intro level_live [OF _ ok c(2)]) simp
    moreover have "0 \<le> R / 2 ^ 50" using R by simp
    ultimately show ?thesis using st' live_bucket_ok [OF ok] by simp
  qed
qed

lemma bucket_run_bound:
  assumes n: "n < 2 ^ 53"
  defines "R \<equiv> of_int (effective_rps n)"
  shows "bucket_ok off st \<Longrightarrow> list_all (clocks_ok off) reqs \<Longrightarrow> bucket_run n reqs st = (rs, st') \<Longrightarrow>
    of_nat (length (filter (\<lambda>ok. ok) rs)) \<le>
      fill_level R st t0 + R * forward t0 (map (\<lambda>(t, c). script_now t) reqs) + of_nat (length reqs) * (R / 2 ^ 50)"
proof (induction reqs arbitrary: st t0 rs)
  case Nil
  then show ?case using level_nonneg [of R off st t0] by (simp add: R_def effective_rps_def)
next
  case (Cons req reqs)
  have R: "1 \<le> R" "fl R = R"
    unfolding R_def using n by (auto simp: effective_rps_def intro!: fl_int)
  obtain t c where req: "req = (t, c)" by (rule prod.exhaust)
  let ?now = "script_now t"
  obtain a x y st1 where s: "token_bucket R R ?now 1 c st = ((a, x, y), st1)" by (metis prod.exhaust)
  obtain rs1 where r: "bucket_run n reqs st1 = (rs1, st')" "rs = (a = 1) # rs1"
    using Cons.prems(3) s R(2) by (auto simp: req run_script_def Let_def R_def [symmetric] split: prod.splits)
  have c: "off + ?now \<le> c" "c \<le> off + ?now + 1" 
    using Cons.prems(2) by (simp_all add: req clocks_ok_def)
  have l: "list_all (clocks_ok off) reqs" using Cons.prems(2) by simp
  note B = bucket_step [OF R(1) Cons.prems(1) c s]
  from B have "bucket_ok off st1" by blast
  note IH = Cons.IH [OF this l r(1), of ?now]
  have "fill_level R st ?now \<le> fill_level R st t0 + R * max 0 (?now - t0)" using R(1) by (intro level_grows) simp
  with IH B show ?case
    unfolding r(2) by (cases "a = 1") (simp_all add: req distrib_left distrib_right add_divide_distrib)
qed

text \<open>The double of the clock is within five microseconds of it, for every 64-bit clock, and monotone.\<close>

lemma script_now_mono: "t \<le> t' \<Longrightarrow> script_now t \<le> script_now t'"
  unfolding script_now_def by (intro fl_mono divide_right_mono) (simp_all add: zdiv_mono1)

lemma script_now_close:
  assumes "0 \<le> t" "t < 2 ^ 63"
  shows "\<bar>script_now t - of_int t / 10 ^ 9\<bar> \<le> 5 / 10 ^ 6"
proof -
  define m where "m = t div 1000"
  have "0 \<le> m" "1000 * m \<le> t" "t < 1000 * m + 1000" using assms(1) by (auto simp: m_def)
  then have "of_int 0 \<le> (of_int m :: rat)" "of_int (1000 * m) \<le> (of_int t :: rat)" "of_int t < (of_int (1000 * m + 1000) :: rat)"
    "of_int t < (of_int (2 ^ 63) :: rat)" using assms(2) by (simp_all only: of_int_le_iff of_int_less_iff)
  then have m: "0 \<le> (of_int m :: rat)" "1000 * of_int m \<le> (of_int t :: rat)" "of_int t < 1000 * of_int m + (1000 :: rat)" "of_int t < (2 :: rat) ^ 63"
    by simp_all
  have big: "(2 :: rat) ^ 63 \<le> two_pow 1024" using two_pow_mono [of 63 1024] by (simp add: two_pow_def [of 63])
  define q where "q = fl (of_int m) / 10 ^ 6"
  have "fl (of_int m) \<le> of_int m + of_int m / 2 ^ 53 + 1 / 2 ^ 60" "of_int m - of_int m / 2 ^ 53 - 1 / 2 ^ 60 \<le> fl (of_int m)"
    "0 \<le> fl (of_int m)"
    using fl_upper [OF m(1)] fl_lower [OF m(1)] fl_nonneg [OF m(1)] m big tiny by linarith+
  then have q: "0 \<le> q" "\<bar>q - of_int t / 10 ^ 9\<bar> \<le> 3 / 10 ^ 6" "q \<le> 10 ^ 10"
    using m unfolding q_def by (simp_all add: abs_le_iff field_simps)
  have "q \<le> two_pow 1024" using q(3) big by simp
  with fl_upper [OF q(1)] fl_lower [OF q(1)] tiny have "fl q - q \<le> q / 2 ^ 53 + 1 / 2 ^ 60" "q - fl q \<le> q / 2 ^ 53 + 1 / 2 ^ 60"
    by linarith+
  moreover have "q / 2 ^ 53 + 1 / 2 ^ 60 \<le> 2 / 10 ^ 6" using q(3) by (simp add: field_simps)
  ultimately have "\<bar>fl q - of_int t / 10 ^ 9\<bar> \<le> 5 / 10 ^ 6" using q(2) by linarith
  then show ?thesis by (simp add: script_now_def q_def m_def)
qed

lemma abs_diff_diff: "\<bar>a - b\<bar> \<le> e \<Longrightarrow> \<bar>c - d\<bar> \<le> e \<Longrightarrow> a - c \<le> b - d + 2 * (e :: rat)"
  by linarith

section \<open>Properties\<close>

text \<open>
  C18. The rate limit holds, in the doubles of the script. Let the clocks of the servers
  that send requests of an address stay within a second of the clock of redis, up to a fixed
  offset, start from a bucket that such requests leave (or none), and let the configured
  number be below \<open>2 ^ 53\<close>. Then the script lets through at most the burst, plus the rate times the seconds by
  which the clocks moved forward from one run to the next, in all, plus a rounding of at most
  a part in \<open>2 ^ 50\<close> of the rate per request; burst and rate are the configured number, or 5 if
  it is not positive. If the clocks never run backwards from one run to the next, the
  seconds are those from the start of the window to its last request, to ten microseconds.
  The expiry of the redis keys does not weaken this. (Clocks that go back and forth do:
  each turn forward refills, see \<open>skewed_clocks_unlimited\<close>.)
\<close>

theorem rate_limit_bound:
  assumes "n < 2 ^ 53" "bucket_ok off st" "list_all (clocks_ok off) reqs"
    and "list_all (\<lambda>t. 0 \<le> t \<and> t < 2 ^ 63) (t0 # map fst reqs)"
    and "bucket_run n reqs st = (rs, st')"
  defines "rate \<equiv> of_int (effective_rps n)"
    and "admitted \<equiv> of_nat (length (filter (\<lambda>ok. ok) rs))"
    and "rounding \<equiv> of_nat (length reqs) * (of_int (effective_rps n) / 2 ^ 50)"
  shows "admitted \<le> rate + rate * forward (script_now t0) (map (\<lambda>(t, c). script_now t) reqs) + rounding \<and>
    (sorted (t0 # map fst reqs) \<longrightarrow>
       admitted \<le> rate + rate * (of_int (last (t0 # map fst reqs) - t0) / 10 ^ 9 + 1 / 10 ^ 5) + rounding)"
proof -
  have rate: "0 \<le> rate" by (simp add: rate_def effective_rps_def)
  have m: "map (\<lambda>(t, c). script_now t) reqs = map script_now (map fst reqs)" by (auto simp: split_def)
  let ?f = "forward (script_now t0) (map (\<lambda>(t, c). script_now t) reqs)"
  have bound: "admitted \<le> rate + rate * ?f + rounding"
    using bucket_run_bound [OF assms(1,2,3,5), of "script_now t0"] level_le [of rate st "script_now t0"]
    unfolding rate_def admitted_def rounding_def by linarith
  have "admitted \<le> rate + rate * (of_int (last (t0 # map fst reqs) - t0) / 10 ^ 9 + 1 / 10 ^ 5) + rounding"
    if so: "sorted (t0 # map fst reqs)"
  proof -
    define l where "l = last (t0 # map fst reqs)"
    have "sorted (map script_now (t0 # map fst reqs))" unfolding sorted_map
      by (rule sorted_wrt_mono_rel [OF _ so]) (rule script_now_mono)
    then have "sorted (script_now t0 # map script_now (map fst reqs))" by simp
    from forward_sorted [OF this] have f: "?f = script_now l - script_now t0" unfolding m l_def by (simp add: last_map)
    have "l \<in> set (t0 # map fst reqs)" unfolding l_def by (rule last_in_set) simp
    then have "0 \<le> l" "l < 2 ^ 63" "0 \<le> t0" "t0 < 2 ^ 63" using assms(4) unfolding list_all_iff by auto
    then have "\<bar>script_now l - of_int l / 10 ^ 9\<bar> \<le> 5 / 10 ^ 6" "\<bar>script_now t0 - of_int t0 / 10 ^ 9\<bar> \<le> 5 / 10 ^ 6"
      by (blast intro: script_now_close)+
    then have "script_now l - script_now t0 \<le> of_int l / 10 ^ 9 - of_int t0 / 10 ^ 9 + 2 * (5 / 10 ^ 6)" by (rule abs_diff_diff)
    then have "?f \<le> of_int (l - t0) / 10 ^ 9 + 1 / 10 ^ 5" unfolding f of_int_diff diff_divide_distrib by simp
    then have "rate * ?f \<le> rate * (of_int (l - t0) / 10 ^ 9 + 1 / 10 ^ 5)" using rate by (rule mult_left_mono)
    with bound show ?thesis unfolding l_def by linarith
  qed
  with bound show ?thesis by blast
qed

text \<open>Two per second: four requests at once and one a second later.\<close>

definition five_requests :: "(int \<times> rat) list" where
  "five_requests = map (\<lambda>t. (t, script_now t)) [0, 0, 0, 0, 1000000000]"

lemma five_requests_times: "script_now 0 = 0" "script_now 1000000000 = 1"
  by (simp_all add: script_now_def)

lemma five_requests_run: "\<exists>st. bucket_run 2 five_requests None = ([True, True, False, False, True], st)"
  by (simp add: five_requests_def five_requests_times run_script_def effective_rps_def token_bucket_def live_bucket_def
    bucket_ttl_def Let_def min_def max_def)

theorem rate_limit_bound_witness:
  "\<exists>rs st. bucket_run 2 five_requests None = (rs, st) \<and> length (filter (\<lambda>ok. ok) rs) = 3 \<and>
     (of_nat (length (filter (\<lambda>ok. ok) rs)) :: rat) \<le> 2 + 2 * (1 + 1 / 10 ^ 5) + 5 * (2 / 2 ^ 50)"
proof -
  obtain st where run: "bucket_run 2 five_requests None = ([True, True, False, False, True], st)"
    using five_requests_run by blast
  have h: "(2::int) < 2 ^ 53" "bucket_ok 0 None" "list_all (clocks_ok 0) five_requests"
    "list_all (\<lambda>t. 0 \<le> t \<and> t < 2 ^ 63) (0 # map fst five_requests)" "sorted (0 # map fst five_requests)"
    by (simp_all add: bucket_ok_def clocks_ok_def five_requests_def)
  from rate_limit_bound [OF h(1-4) run] h(5)
  have "(of_nat (length (filter (\<lambda>ok. ok) [True, True, False, False, True])) :: rat) \<le> 2 + 2 * (1 + 1 / 10 ^ 5) + 5 * (2 / 2 ^ 50)"
    by (simp add: effective_rps_def five_requests_def)
  with run show ?thesis by (intro exI [of _ "[True, True, False, False, True]"] exI [of _ st]) simp
qed

text \<open>
  The clock is the one of the server that handles the request, and an admitted request
  stores it even if it is behind: two servers whose clocks differ by a second refill the
  bucket with every change of server, so alternating requests are never limited.
\<close>

fun skewed_run :: "nat \<Rightarrow> bucket option \<Rightarrow> bool list" where
  "skewed_run 0 st = []"
| "skewed_run (Suc n) st =
     (case run_script 2 1000000000 1 st of ((a, _), st1) \<Rightarrow>
        (case run_script 2 0 1 st1 of ((b, _), st2) \<Rightarrow> (a = 1) # (b = 1) # skewed_run n st2))"

lemma skewed_clocks_unlimited: "skewed_run n None = replicate (2 * n) True"
proof -
  let ?empty = "Some \<lparr>bk_tokens = 0, bk_ts = 0, bk_expires = 3\<rparr>"
  have step: "skewed_run (Suc n) st = True # True # skewed_run n ?empty" if "st = None \<or> st = ?empty" for n st
    using that by (auto simp: run_script_def effective_rps_def five_requests_times token_bucket_def live_bucket_def bucket_ttl_def Let_def fl_minus)
  have "st = None \<or> st = ?empty \<Longrightarrow> skewed_run n st = replicate (2 * n) True" for st
    by (induction n arbitrary: st) (simp_all only: step, simp_all)
  then show ?thesis by blast
qed

end
