(* ===== verification/Http_Api.thy ===== *)
theory Http_Api
  imports Auth_Service Rate_Limit
begin

text \<open>
  The HTTP surface: \<open>internal/api/feature_handler.go\<close>, \<open>auth_handler.go\<close> and \<open>router.go\<close>. gin's
  binding is modelled as documented: a body is decoded from its first JSON value, a
  parameter or query value goes to the field with its tag or, without a tag, its name, and
  after each binding every field marked \<open>required\<close> must be non-zero.
\<close>

section \<open>Binding\<close>

definition set_uint64 :: "((int \<Rightarrow> int) \<Rightarrow> 'r \<Rightarrow> 'r) \<Rightarrow> json \<Rightarrow> 'r \<Rightarrow> 'r option" where
  "set_uint64 upd j r =
     (case j of
        JNum n \<Rightarrow> (case parse_uint n of Inr i \<Rightarrow> Some (upd (\<lambda>_. i) r) | Inl _ \<Rightarrow> None)
      | JNull \<Rightarrow> Some r
      | _ \<Rightarrow> None)"

definition bind_json :: "'r json_field list \<Rightarrow> ('r \<Rightarrow> bool) \<Rightarrow> 'r \<Rightarrow> string \<Rightarrow> 'r option" where
  "bind_json fs valid r0 body =
     (case json_decode body of
        None \<Rightarrow> None
      | Some (j, rest) \<Rightarrow>
          (case decode_struct fs j r0 of None \<Rightarrow> None | Some r \<Rightarrow> if valid r then Some r else None))"

definition login_fields :: "LoginReq json_field list" where
  "login_fields = [(''username'', set_string lr_Username_update), (''password'', set_string lr_Password_update)]"

definition bind_login :: "string \<Rightarrow> LoginReq option" where
  "bind_login = bind_json login_fields (\<lambda>r. lr_Username r \<noteq> [] \<and> lr_Password r \<noteq> [])
     \<lparr>lr_Username = [], lr_Password = []\<rparr>"

definition bind_refresh :: "string \<Rightarrow> RefreshReq option" where
  "bind_refresh = bind_json [(''refresh_token'', set_string rr_RefreshToken_update)] (\<lambda>r. rr_RefreshToken r \<noteq> [])
     \<lparr>rr_RefreshToken = []\<rparr>"

definition create_fields :: "CreateFeatureRequest json_field list" where
  "create_fields =
     [(''namespace'', set_string cr_Namespace_update), (''env'', set_string cr_Env_update),
      (''key'', set_string cr_Key_update), (''value'', set_string cr_Value_update), (''type'', set_string cr_Type_update)]"

definition bind_create :: "string \<Rightarrow> CreateFeatureRequest option" where
  "bind_create = bind_json create_fields
     (\<lambda>r. cr_Namespace r \<noteq> [] \<and> cr_Env r \<noteq> [] \<and> cr_Key r \<noteq> [] \<and> cr_Value r \<noteq> [] \<and> cr_Type r \<noteq> [])
     \<lparr>cr_Namespace = [], cr_Env = [], cr_Key = [], cr_Value = [], cr_Type = []\<rparr>"

definition rollback_fields :: "RollbackFeatureRequest json_field list" where
  "rollback_fields =
     [(''namespace'', set_string rf_Namespace_update), (''env'', set_string rf_Env_update),
      (''audit_id'', set_uint64 rf_AuditID_update)]"

definition bind_rollback :: "string \<Rightarrow> RollbackFeatureRequest option" where
  "bind_rollback = bind_json rollback_fields (\<lambda>r. rf_Namespace r \<noteq> [] \<and> rf_Env r \<noteq> [] \<and> rf_AuditID r \<noteq> 0)
     \<lparr>rf_Namespace = [], rf_Env = [], rf_AuditID = 0\<rparr>"

text \<open>Path parameters and query values, as lists of names and values.\<close>

type_synonym values_of = "(string \<times> string) list"

definition value_or :: "values_of \<Rightarrow> string \<Rightarrow> string \<Rightarrow> string" where
  "value_or vs name old = (case map_of vs name of None \<Rightarrow> old | Some v \<Rightarrow> v)"

definition get_valid :: "GetFeatureRequest \<Rightarrow> bool" where
  "get_valid r \<longleftrightarrow> gr_Namespace r \<noteq> [] \<and> gr_Env r \<noteq> [] \<and> gr_Key r \<noteq> []"

definition bind_get_uri :: "values_of \<Rightarrow> GetFeatureRequest \<Rightarrow> GetFeatureRequest option" where
  "bind_get_uri ps r =
     (let r' = \<lparr>gr_Namespace = value_or ps ''Namespace'' (gr_Namespace r), gr_Env = value_or ps ''Env'' (gr_Env r),
                gr_Key = value_or ps ''key'' (gr_Key r)\<rparr>
      in if get_valid r' then Some r' else None)"

definition bind_get_query :: "values_of \<Rightarrow> GetFeatureRequest \<Rightarrow> GetFeatureRequest option" where
  "bind_get_query qs r =
     (let r' = \<lparr>gr_Namespace = value_or qs ''namespace'' (gr_Namespace r), gr_Env = value_or qs ''env'' (gr_Env r),
                gr_Key = value_or qs ''Key'' (gr_Key r)\<rparr>
      in if get_valid r' then Some r' else None)"

section \<open>The feature handlers\<close>

datatype http_body =
    ErrorText string
  | BindError
  | ServiceError service_error
  | VersionBody int
  | ItemBody FeatureItem
  | ItemsBody "FeatureItem list"
  | AuditsBody "AuditLogItem list"
  | TokensBody TokenResp
  | ProfileBody string string string string
  | StatusBody string "service_error option"
  | MessageBody string

type_synonym http_response = "int \<times> http_body"

text \<open>The handlers that start a goroutine return the job of it.\<close>

definition CreateFeature ::
  "'d gorm \<Rightarrow> request_context \<Rightarrow> string \<Rightarrow> string \<Rightarrow> 'd \<Rightarrow> http_response \<times> (int \<times> FeatureFlag) option \<times> 'd" where
  "CreateFeature g ctx traceID body d =
     (case bind_create body of
        None \<Rightarrow> ((400, ErrorText ''JSON format error''), None, d)
      | Some r \<Rightarrow>
          (case SaveFeature g (zero_flag\<lparr>ff_Namespace := cr_Namespace r, ff_Env := cr_Env r, ff_Key := cr_Key r,
                  ff_Value := cr_Value r, ff_Version := 0, ff_Type := cr_Type r\<rparr>) (GetOperator ctx) traceID d of
             (Inl e, job, d1) \<Rightarrow> ((500, ServiceError e), job, d1)
           | (Inr v, job, d1) \<Rightarrow> ((200, VersionBody v), job, d1)))"

definition handler_GetFeature :: "'d gorm \<Rightarrow> values_of \<Rightarrow> values_of \<Rightarrow> 'd \<Rightarrow> http_response \<times> 'd" where
  "handler_GetFeature g params query d =
     (case bind_get_uri params \<lparr>gr_Namespace = [], gr_Env = [], gr_Key = []\<rparr> of
        None \<Rightarrow> ((400, ErrorText ''invalid key''), d)
      | Some r \<Rightarrow>
          (case bind_get_query query r of
             None \<Rightarrow> ((400, ErrorText ''invalid params''), d)
           | Some r' \<Rightarrow>
               (case service_GetFeature g (gr_Namespace r') (gr_Env r') (gr_Key r') d of
                  (Inl e, d1) \<Rightarrow> ((500, ServiceError e), d1)
                | (Inr item, d1) \<Rightarrow> ((200, ItemBody item), d1))))"

definition handler_ListFeatures :: "'d gorm \<Rightarrow> values_of \<Rightarrow> 'd \<Rightarrow> http_response \<times> 'd" where
  "handler_ListFeatures g query d =
     (case ListFeatures g (value_or query ''namespace'' []) (value_or query ''env'' []) (value_or query ''search'' []) d of
        (Inl e, d1) \<Rightarrow> ((500, ServiceError e), d1)
      | (Inr items, d1) \<Rightarrow> ((200, ItemsBody items), d1))"

definition handler_GetFeatureAudits :: "'d gorm \<Rightarrow> values_of \<Rightarrow> values_of \<Rightarrow> 'd \<Rightarrow> http_response \<times> 'd" where
  "handler_GetFeatureAudits g params query d =
     (case GetFeatureAudits g (value_or query ''namespace'' ''default'') (value_or query ''env'' ''dev'') (value_or params ''key'' []) d of
        (Inl e, d1) \<Rightarrow> ((500, ServiceError e), d1)
      | (Inr audits, d1) \<Rightarrow> ((200, AuditsBody audits), d1))"

definition handler_RollbackFeature ::
  "'d gorm \<Rightarrow> request_context \<Rightarrow> string \<Rightarrow> values_of \<Rightarrow> string \<Rightarrow> 'd \<Rightarrow> http_response \<times> (int \<times> FeatureFlag) option \<times> 'd" where
  "handler_RollbackFeature g ctx traceID params body d =
     (case bind_rollback body of
        None \<Rightarrow> ((400, ErrorText ''invalid request body''), None, d)
      | Some r \<Rightarrow>
          (case RollbackFeature g (rf_Namespace r) (rf_Env r) (value_or params ''key'' []) (rf_AuditID r) (GetOperator ctx) traceID d of
             (Inl e, job, d1) \<Rightarrow> ((500, ServiceError e), job, d1)
           | (Inr v, job, d1) \<Rightarrow> ((200, VersionBody v), job, d1)))"

definition HealthCheck :: "'d gorm \<Rightarrow> 'e etcd_client \<Rightarrow> 'e \<times> 'd \<Rightarrow> http_response \<times> 'e \<times> 'd" where
  "HealthCheck g c s =
     (case Health g c s of
        (Some e, s1) \<Rightarrow> ((503, StatusBody ''unhealthy'' (Some e)), s1)
      | (None, s1) \<Rightarrow> ((200, StatusBody ''ok'' None), s1))"

section \<open>The auth handlers\<close>

definition handler_Login ::
  "AuthService \<Rightarrow> jwt_lib \<Rightarrow> 'r redis \<Rightarrow> int \<Rightarrow> string \<Rightarrow> string \<Rightarrow> 'r \<Rightarrow> http_response \<times> 'r" where
  "handler_Login s jl rd now uuid body r =
     (case bind_login body of
        None \<Rightarrow> ((400, BindError), r)
      | Some req \<Rightarrow>
          (case Login s jl rd now uuid req r of
             (Inl ErrInvalidCredentials, r1) \<Rightarrow> ((401, ErrorText ''invalid username or password''), r1)
           | (Inl e, r1) \<Rightarrow> ((500, ErrorText ''login failed''), r1)
           | (Inr tokens, r1) \<Rightarrow> ((200, TokensBody tokens), r1)))"

definition handler_Refresh ::
  "AuthService \<Rightarrow> jwt_lib \<Rightarrow> 'r redis \<Rightarrow> int \<Rightarrow> string \<Rightarrow> string \<Rightarrow> 'r \<Rightarrow> http_response \<times> 'r" where
  "handler_Refresh s jl rd now uuid body r =
     (case bind_refresh body of
        None \<Rightarrow> ((400, BindError), r)
      | Some req \<Rightarrow>
          (case Refresh s jl rd now uuid (rr_RefreshToken req) r of
             (Inl e, r1) \<Rightarrow> ((401, ErrorText ''invalid refresh token''), r1)
           | (Inr tokens, r1) \<Rightarrow> ((200, TokensBody tokens), r1)))"

definition handler_Logout :: "'r redis \<Rightarrow> request_context \<Rightarrow> 'r \<Rightarrow> http_response \<times> 'r" where
  "handler_Logout rd ctx r =
     (case GetOperatorInfo ctx of
        None \<Rightarrow> ((401, ErrorText ''unauthorized''), r)
      | Some op \<Rightarrow> ((200, MessageBody ''logged out''), snd (Logout rd (op_UserID op) r)))"

definition GetProfile :: "request_context \<Rightarrow> http_response" where
  "GetProfile ctx =
     (case GetOperatorInfo ctx of
        None \<Rightarrow> (401, ErrorText ''unauthorized'')
      | Some op \<Rightarrow> (200, ProfileBody (op_UserID op) (op_Name op) (op_Role op)
            (''https://api.dicebear.com/7.x/avataaars/svg?seed='' @ op_Name op)))"

section \<open>The routes\<close>

datatype http_method = GET | POST

datatype handler =
    H_HealthCheck | H_Metrics | H_Login | H_Refresh | H_GetProfile | H_Logout | H_WatchFeature | H_FetchAll
  | H_DashboardWatch | H_CreateFeature | H_ListFeatures | H_GetFeature | H_GetFeatureAudits | H_RollbackFeature

text \<open>The middlewares of a route that can end a request; the global ones never do.\<close>

datatype guard = JWT bool | SDKAuth bool | WriteLimiter

record route =
  rt_Method :: http_method
  rt_Path :: string
  rt_Guards :: "guard list"
  rt_Handler :: handler

definition RegisterRoutes :: "string \<Rightarrow> route list" where
  "RegisterRoutes env =
     (let bypassAuth = (env = ''loadtest'');
          r = (\<lambda>m p gs h. \<lparr>rt_Method = m, rt_Path = p, rt_Guards = gs, rt_Handler = h\<rparr>)
      in [r GET ''/health'' [] H_HealthCheck,
          r GET ''/metrics'' [] H_Metrics,
          r POST ''/v1/auth/login'' [] H_Login,
          r POST ''/v1/auth/refresh'' [] H_Refresh,
          r GET ''/v1/auth/me'' [JWT True] H_GetProfile,
          r POST ''/v1/auth/logout'' [JWT True] H_Logout,
          r GET ''/v1/stream/watch'' [SDKAuth bypassAuth] H_WatchFeature,
          r GET ''/v1/stream/snapshot'' [SDKAuth bypassAuth] H_FetchAll,
          r GET ''/v1/admin/stream'' [JWT True] H_DashboardWatch,
          r POST ''/v1/feature'' [JWT True, WriteLimiter] H_CreateFeature,
          r GET ''/v1/features'' [JWT True] H_ListFeatures,
          r GET ''/v1/feature/:key'' [JWT True] H_GetFeature,
          r GET ''/v1/feature/:key/audits'' [JWT True] H_GetFeatureAudits,
          r POST ''/v1/feature/:key/rollback'' [JWT True, WriteLimiter] H_RollbackFeature])"

text \<open>
  A request through the guards of its route: the context its handler sees, or the answer.
  The verdict of the rate limiter is an argument.
\<close>

fun run_guards ::
  "jwt_lib \<Rightarrow> 'd gorm \<Rightarrow> int \<Rightarrow> bool \<Rightarrow> http_request \<Rightarrow> guard list \<Rightarrow> request_context \<Rightarrow> 'd \<Rightarrow> request_context verdict \<times> 'd" where
  "run_guards jl g now admitted rq [] ctx d = (Pass ctx, d)"
| "run_guards jl g now admitted rq (JWT devMode # gs) ctx d =
     (case JWTMiddleware devMode jl now rq ctx of
        Abort st msg \<Rightarrow> (Abort st msg, d)
      | Pass ctx1 \<Rightarrow> run_guards jl g now admitted rq gs ctx1 d)"
| "run_guards jl g now admitted rq (SDKAuth bypassAuth # gs) ctx d =
     (case SDKAuthMiddleware bypassAuth g rq d of
        (Abort st msg, d1) \<Rightarrow> (Abort st msg, d1)
      | (Pass u, d1) \<Rightarrow> run_guards jl g now admitted rq gs ctx d1)"
| "run_guards jl g now admitted rq (WriteLimiter # gs) ctx d =
     (if \<not> admitted then (Abort 429 ''Too Many Requests'', d) else run_guards jl g now admitted rq gs ctx d)"

section \<open>Properties\<close>

text \<open>
  Reading a single feature never works: \<open>GET /v1/feature/:key\<close> answers 400 to every
  request, whatever the key and the query, and never asks the service. Binding the path
  parameters validates the whole request struct, whose namespace and environment are
  required and only bound from the query afterwards.
\<close>

theorem get_feature_unreachable:
  "handler_GetFeature g [(''key'', k)] query d = ((400, ErrorText ''invalid key''), d)"
  by (simp add: handler_GetFeature_def bind_get_uri_def value_or_def get_valid_def Let_def)

definition anonymous :: http_request where
  "anonymous = \<lparr>rq_Authorization = [], rq_DevPass = [], rq_token = [], rq_MizuKey = [], rq_env = []\<rparr>"

definition passes :: "request_context verdict \<Rightarrow> bool" where
  "passes v \<longleftrightarrow> (case v of Pass _ \<Rightarrow> True | Abort _ _ \<Rightarrow> False)"

definition open_handlers :: "string \<Rightarrow> handler set" where
  "open_handlers env = {H_HealthCheck, H_Metrics, H_Login, H_Refresh} \<union>
     (if env = ''loadtest'' then {H_WatchFeature, H_FetchAll} else {})"

definition stream_handlers :: "handler set" where
  "stream_handlers = {H_WatchFeature, H_FetchAll}"

lemma list_all_routes: "(\<forall>x \<in> set xs. P x) = list_all P xs"
  by (simp add: list_all_iff)

text \<open>
  C38. Who gets through, on every route. Without any credential exactly the health check, the
  metrics, the login and the refresh are open, and in the load test environment the SDK's
  two routes. But one header, \<open>X-Dev-Pass: true\<close>, and no token at all opens every
  control-plane route, in every environment, as the administrator \<open>dev-admin\<close>
  (writes as far as the rate limiter admits them). It does not
  open the SDK's two routes, which ask for an SDK key except in the load test environment.
\<close>

theorem routes_guarded:
  "\<forall>r \<in> set (RegisterRoutes env).
     (passes (fst (run_guards jl g now True anonymous (rt_Guards r) ctx d)) \<longleftrightarrow> rt_Handler r \<in> open_handlers env) \<and>
     (rt_Handler r \<notin> open_handlers env \<and> rt_Handler r \<notin> stream_handlers \<longrightarrow>
        fst (run_guards jl g now True (anonymous\<lparr>rq_DevPass := ''true''\<rparr>) (rt_Guards r) ctx d) = Pass (WithOperator ctx dev_admin)) \<and>
     (rt_Handler r \<in> stream_handlers \<and> env \<noteq> ''loadtest'' \<longrightarrow>
        \<not> passes (fst (run_guards jl g now True (anonymous\<lparr>rq_DevPass := ''true''\<rparr>) (rt_Guards r) ctx d)))"
  unfolding list_all_routes RegisterRoutes_def Let_def
  by (simp add: anonymous_def JWTMiddleware_def SDKAuthMiddleware_def bearer_token_def
      passes_def open_handlers_def stream_handlers_def Let_def)

theorem routes_guarded_witness:
  "fst (run_guards unary_jwt (mem_gorm id) 0 True (anonymous\<lparr>rq_DevPass := ''true''\<rparr>) [JWT True, WriteLimiter] Background rows_db) =
     Pass (WithOperator Background dev_admin)"
proof -
  let ?r = "\<lparr>rt_Method = POST, rt_Path = ''/v1/feature'', rt_Guards = [JWT True, WriteLimiter], rt_Handler = H_CreateFeature\<rparr>"
  have "?r \<in> set (RegisterRoutes ''prod'')" by (simp add: RegisterRoutes_def)
  from routes_guarded [of "''prod''" unary_jwt "mem_gorm id" 0 Background rows_db, rule_format, OF this]
  show ?thesis by (simp add: open_handlers_def stream_handlers_def)
qed

end
