(* ===== verification/Recon_Cluster.thy ===== *)
theory Recon_Cluster
  imports Delivery
begin

text \<open>
  \<open>Run\<close> of \<open>internal/service/worker.go\<close> and of \<open>reconciler.go\<close>: the loops around the ticks,
  and the distributed lock that keeps the reconcilers of several servers apart. The lock is
  a mutex of etcd's concurrency package: its calls are arguments, what they promise is
  \<open>lock_ok\<close>.
\<close>

section \<open>The outbox worker\<close>

text \<open>
  What the select of \<open>Run\<close> yields; the first result says whether \<open>Run\<close> has returned. A ticker
  with an interval that is not positive panics (\<open>None\<close>).
\<close>

datatype signal = Done | Tick

fun worker_loop :: "'e etcd_client \<Rightarrow> 'd gorm \<Rightarrow> signal list \<Rightarrow> 'e \<times> 'd \<Rightarrow> bool \<times> 'e \<times> 'd" where
  "worker_loop c g [] s = (False, s)"
| "worker_loop c g (Done # sigs) s = (True, s)"
| "worker_loop c g (Tick # sigs) s = worker_loop c g sigs (processPending c g s)"

definition worker_Run :: "int \<Rightarrow> 'e etcd_client \<Rightarrow> 'd gorm \<Rightarrow> signal list \<Rightarrow> 'e \<times> 'd \<Rightarrow> (bool \<times> 'e \<times> 'd) option" where
  "worker_Run interval c g sigs s = (if interval \<le> 0 then None else Some (worker_loop c g sigs s))"

lemma worker_loop_ticks: "worker_loop c g (replicate n Tick) s = (False, (processPending c g ^^ n) s)"
  by (induction n arbitrary: s) (simp_all add: funpow_swap1)

section \<open>The reconciler\<close>

datatype lock_result = Locked | LockTimeout | LockFailed string

record 'l lock_lib =
  lk_Lock :: "nat \<Rightarrow> 'l \<Rightarrow> lock_result \<times> 'l"
  lk_Unlock :: "nat \<Rightarrow> 'l \<Rightarrow> bool \<times> 'l"
  lk_Close :: "nat \<Rightarrow> 'l \<Rightarrow> 'l"

text \<open>
  Where \<open>Run\<close> is, in the server whose session is \<open>i\<close>: waiting for a tick; inside \<open>reconcile\<close>,
  before a query at an offset or with rows of a page still to check; before the unlock; or
  returned. Without a session \<open>Run\<close> returns at once, and its ticker panics like the worker's.
\<close>

datatype recon_pc = Waiting | Paging int | Checking "FeatureMaster list" int | Unlocking | Returned

definition recon_start :: "int \<Rightarrow> bool \<Rightarrow> recon_pc option" where
  "recon_start interval session = (if interval \<le> 0 then None else Some (if session then Waiting else Returned))"

definition after_lock :: "lock_result \<Rightarrow> recon_pc" where
  "after_lock r = (case r of Locked \<Rightarrow> Paging 0 | LockTimeout \<Rightarrow> Waiting | LockFailed e \<Rightarrow> Waiting)"

fun recon_next ::
  "int \<Rightarrow> 'e etcd_client \<Rightarrow> 'd gorm \<Rightarrow> 'l lock_lib \<Rightarrow> nat \<Rightarrow> recon_pc \<times> 'e \<times> 'd \<times> 'l \<Rightarrow> recon_pc \<times> 'e \<times> 'd \<times> 'l" where
  "recon_next n c g lib i (Waiting, es, d, l) = (case lk_Lock lib i l of (r, l1) \<Rightarrow> (after_lock r, es, d, l1))"
| "recon_next n c g lib i (Paging offset, es, d, l) =
     (case ListByPage g offset n d of
        (Inl e, d1) \<Rightarrow> (Unlocking, es, d1, l)
      | (Inr dbFeatures, d1) \<Rightarrow>
          if dbFeatures = [] then (Unlocking, es, d1, l) else (Checking dbFeatures (wrap64 (offset + n)), es, d1, l))"
| "recon_next n c g lib i (Checking [] offset, es, d, l) = (Paging offset, es, d, l)"
| "recon_next n c g lib i (Checking (m # ms) offset, es, d, l) = (Checking ms offset, checkOne c m es, d, l)"
| "recon_next n c g lib i (Unlocking, es, d, l) = (Waiting, es, d, snd (lk_Unlock lib i l))"
| "recon_next n c g lib i (Returned, es, d, l) = (Returned, es, d, l)"

text \<open>The loop of \<open>reconcile\<close> in one piece is the steps of one server in a row.\<close>

lemma checking_steps:
  "(recon_next n c g lib i ^^ length ms) (Checking ms off, es, d, l) = (Checking [] off, fold (checkOne c) ms es, d, l)"
  by (induction ms arbitrary: es) (simp_all add: funpow_swap1)

lemma reconcile_by_steps:
  assumes "reconcile_loop c g n off s = Some y"
  shows "\<exists>k. (recon_next n c g lib i ^^ k) (Paging off, fst s, snd s, l) = (Unlocking, fst (snd y), snd (snd y), l)"
  using assms
proof (rule reconcile_loop.raw_induct [where P = "\<lambda>c g n off s y. \<exists>k. (recon_next n c g lib i ^^ k) (Paging off, fst s, snd s, l) =
    (Unlocking, fst (snd y), snd (snd y), l)", rotated])
  fix loop and c :: "'a etcd_client" and g :: "'b gorm" and n off s y
  assume IH: "\<And>c g n off s y. loop c g n off s = Some y \<Longrightarrow>
      \<exists>k. (recon_next n c g lib i ^^ k) (Paging off, fst s, snd s, l) = (Unlocking, fst (snd y), snd (snd y), l)"
    and run: "(case ListByPage g off n (snd s) of
        (Inl e, d1) \<Rightarrow> Some (False, fst s, d1)
      | (Inr dbFeatures, d1) \<Rightarrow>
          if dbFeatures = [] then Some (True, fst s, d1)
          else loop c g n (wrap64 (off + n)) (fold (checkOne c) dbFeatures (fst s), d1)) = Some y"
  let ?next = "recon_next n c g lib i"
  obtain r d1 where p: "ListByPage g off n (snd s) = (r, d1)" by (rule prod.exhaust)
  show "\<exists>k. (?next ^^ k) (Paging off, fst s, snd s, l) = (Unlocking, fst (snd y), snd (snd y), l)"
  proof (cases "\<exists>m ms. r = Inr (m # ms)")
    case True
    then obtain rows where r: "r = Inr rows" "rows \<noteq> []" by blast
    let ?es = "fold (checkOne c) rows (fst s)" and ?o = "wrap64 (off + n)"
    have "loop c g n ?o (?es, d1) = Some y" using run p r by simp
    from IH [OF this] obtain k where k: "(?next ^^ k) (Paging ?o, ?es, d1, l) = (Unlocking, fst (snd y), snd (snd y), l)" by auto
    have "(?next ^^ Suc (length rows)) (Checking rows ?o, fst s, d1, l) = (Paging ?o, ?es, d1, l)"
      by (simp add: checking_steps)
    moreover have "?next (Paging off, fst s, snd s, l) = (Checking rows ?o, fst s, d1, l)" using p r by simp
    ultimately have "(?next ^^ (k + Suc (Suc (length rows)))) (Paging off, fst s, snd s, l) = (?next ^^ k) (Paging ?o, ?es, d1, l)"
      by (simp only: funpow_add funpow_Suc_right [of "Suc (length rows)"] comp_def)
    with k show ?thesis by metis
  next
    case False
    then have "?next (Paging off, fst s, snd s, l) = (Unlocking, fst (snd y), snd (snd y), l)"
      using run p by (cases r) (auto simp: neq_Nil_conv)
    then show ?thesis by (intro exI [of _ 1]) simp
  qed
qed

section \<open>Several servers\<close>

text \<open>
  What the lock promises. \<open>holder\<close> is the session that has the lock and \<open>lost\<close> the sessions
  whose lease is gone: a lost session never locks again; a call of one session does not
  touch what another one holds, and a successful lock holds it.
\<close>

definition others_keep :: "('l \<Rightarrow> nat option) \<Rightarrow> ('l \<Rightarrow> nat list) \<Rightarrow> nat \<Rightarrow> 'l \<Rightarrow> 'l \<Rightarrow> bool" where
  "others_keep holder lost i l l' \<longleftrightarrow> set (lost l) \<subseteq> set (lost l') \<and>
     (\<forall>j. j \<noteq> i \<longrightarrow> (j \<in> set (lost l') \<longleftrightarrow> j \<in> set (lost l)) \<and> (holder l' = Some j \<longleftrightarrow> holder l = Some j))"

definition lock_ok :: "'l lock_lib \<Rightarrow> ('l \<Rightarrow> nat option) \<Rightarrow> ('l \<Rightarrow> nat list) \<Rightarrow> bool" where
  "lock_ok lib holder lost \<longleftrightarrow>
     (\<forall>i l r l'. lk_Lock lib i l = (r, l') \<longrightarrow> others_keep holder lost i l l' \<and>
        (r = Locked \<longrightarrow> i \<notin> set (lost l) \<and> holder l' = Some i)) \<and>
     (\<forall>i l r l'. lk_Unlock lib i l = (r, l') \<longrightarrow> others_keep holder lost i l l') \<and>
     (\<forall>i l. others_keep holder lost i l (lk_Close lib i l))"

record ('e, 'd, 'l) cluster =
  cr_etcd :: 'e
  cr_db :: 'd
  cr_lock :: 'l
  cr_pc :: "nat \<Rightarrow> recon_pc"

text \<open>
  The steps of a cluster: a step of the reconciler of one server, its return when the context
  is done while it waits, the loss of a session, and whatever else happens to the database
  and, without lowering a version, to etcd.
\<close>

inductive cluster_step ::
  "int \<Rightarrow> 'e etcd_handle \<Rightarrow> 'd gorm \<Rightarrow> ('d \<Rightarrow> tables) \<Rightarrow> 'l lock_lib \<Rightarrow> ('l \<Rightarrow> nat option) \<Rightarrow> ('l \<Rightarrow> nat list) \<Rightarrow>
     ('e, 'd, 'l) cluster \<Rightarrow> ('e, 'd, 'l) cluster \<Rightarrow> bool"
  for n h g view lib holder lost where
  server: "recon_next n (eh_client h) g lib i (cr_pc s i, cr_etcd s, cr_db s, cr_lock s) = (pc', e', d', l') \<Longrightarrow>
    cluster_step n h g view lib holder lost s
      (s\<lparr>cr_etcd := e', cr_db := d', cr_lock := l', cr_pc := (cr_pc s)(i := pc')\<rparr>)"
| stop: "cr_pc s i = Waiting \<Longrightarrow>
    cluster_step n h g view lib holder lost s
      (s\<lparr>cr_lock := lk_Close lib i (cr_lock s), cr_pc := (cr_pc s)(i := Returned)\<rparr>)"
| lose: "i \<in> set (lost l') \<Longrightarrow> others_keep holder lost i (cr_lock s) l' \<Longrightarrow>
    cluster_step n h g view lib holder lost s (s\<lparr>cr_lock := l'\<rparr>)"
| others: "progress (eh_view h (cr_etcd s)) (eh_view h e') \<Longrightarrow> versions_int (tb_masters (view d')) \<Longrightarrow>
    cluster_step n h g view lib holder lost s (s\<lparr>cr_etcd := e', cr_db := d'\<rparr>)"

definition at_work :: "recon_pc \<Rightarrow> bool" where
  "at_work pc \<longleftrightarrow> (case pc of Waiting \<Rightarrow> False | Returned \<Rightarrow> False | _ \<Rightarrow> True)"

definition rows_int :: "recon_pc \<Rightarrow> bool" where
  "rows_int pc \<longleftrightarrow> (case pc of Checking ms _ \<Rightarrow> versions_int ms | _ \<Rightarrow> True)"

definition cluster_inv ::
  "'e etcd_handle \<Rightarrow> ('d \<Rightarrow> tables) \<Rightarrow> ('l \<Rightarrow> nat option) \<Rightarrow> ('l \<Rightarrow> nat list) \<Rightarrow> ('e, 'd, 'l) cluster \<Rightarrow> bool" where
  "cluster_inv h view holder lost s \<longleftrightarrow>
     handle_good h (cr_etcd s) \<and> versions_int (tb_masters (view (cr_db s))) \<and> (\<forall>i. rows_int (cr_pc s i)) \<and>
     (\<forall>i. at_work (cr_pc s i) \<and> i \<notin> set (lost (cr_lock s)) \<longrightarrow> holder (cr_lock s) = Some i)"

lemma set_cut: "set (cut q rs) \<subseteq> set rs"
  by (auto simp: cut_def split: option.splits dest: in_set_takeD in_set_dropD)

lemma rows_for_subset: "rows_for matches rank q table rows \<Longrightarrow> set rows \<subseteq> set table"
proof -
  assume "rows_for matches rank q table rows"
  then obtain rs where "mset rs = mset (filter (\<lambda>r. \<forall>c \<in> set (q_where q). matches r c) table)" "rows = cut q rs"
    by (auto simp: rows_for_def)
  moreover then have "set rs \<subseteq> set table" by (metis filter_is_subset set_mset_mset)
  ultimately show ?thesis using set_cut [of q rs] by blast
qed

lemma ListByPage_rows:
  assumes "db_ok coll g view base" "ListByPage g off n d = (r, d1)"
  shows "view d1 = view d \<and> (\<forall>rows. r = Inr rows \<longrightarrow> set rows \<subseteq> set (tb_masters (view d)))"
proof -
  let ?q = "\<lparr>q_where = [], q_order = IdAsc, q_offset = Some off, q_limit = Some n\<rparr>"
  have f: "go_FindMasters g ?q d = (r, d1)" using assms(2) by (simp add: ListByPage_def)
  have "set rows \<subseteq> set (tb_masters (view d))" if "rows_for (master_matches coll) master_rank ?q (tb_masters (view d)) rows" for rows
    using that by (rule rows_for_subset)
  with db_find_masters [OF assms(1) f] show ?thesis by blast
qed

lemma recon_next_inv:
  assumes ok: "db_ok coll g view base" "lock_ok lib holder lost"
    and h: "handle_good h es" and v: "versions_int (tb_masters (view d))" "rows_int pc"
    and run: "recon_next n (eh_client h) g lib i (pc, es, d, l) = (pc', es', d', l')"
  shows "progress (eh_view h es) (eh_view h es') \<and> view d' = view d \<and> rows_int pc' \<and> others_keep holder lost i l l' \<and>
    (at_work pc' \<longrightarrow> (at_work pc \<and> l' = l) \<or> holder l' = Some i)"
proof -
  have keep: "others_keep holder lost i l l" by (simp add: others_keep_def)
  have refl: "progress (eh_view h es) (eh_view h es)" by (rule etcd.leads_refl)
  show ?thesis
  proof (cases pc)
    case Waiting
    obtain r l1 where L: "lk_Lock lib i l = (r, l1)" by (rule prod.exhaust)
    have "others_keep holder lost i l l1 \<and> (r = Locked \<longrightarrow> holder l1 = Some i)" using ok(2) L unfolding lock_ok_def by blast
    with Waiting run L refl show ?thesis
      by (auto simp: after_lock_def rows_int_def at_work_def split: lock_result.splits)
  next
    case (Paging off)
    obtain r d1 where p: "ListByPage g off n d = (r, d1)" by (rule prod.exhaust)
    from ListByPage_rows [OF ok(1) p] v(1) have P: "view d1 = view d" "\<And>rows. r = Inr rows \<Longrightarrow> versions_int rows"
      by (auto simp: versions_int_def)
    show ?thesis
    proof (cases r)
      case (Inr rows)
      with Paging run p P refl keep show ?thesis by (auto simp: rows_int_def at_work_def split: if_splits)
    qed (use Paging run p P refl keep in \<open>auto simp: rows_int_def at_work_def\<close>)
  next
    case (Checking ms off)
    show ?thesis
    proof (cases ms)
      case (Cons m ms')
      with v(2) Checking have "is_int64 (fm_Version m)" "versions_int ms'" by (auto simp: rows_int_def versions_int_def)
      with Cons Checking run keep checkOne_progress [OF h] show ?thesis by (auto simp: rows_int_def at_work_def)
    qed (use Checking run keep refl in \<open>auto simp: rows_int_def at_work_def\<close>)
  next
    case Unlocking
    have "others_keep holder lost i l (snd (lk_Unlock lib i l))"
      using ok(2) unfolding lock_ok_def by (metis surjective_pairing)
    with Unlocking run refl show ?thesis by (auto simp: rows_int_def at_work_def)
  qed (use run keep refl in \<open>auto simp: rows_int_def at_work_def\<close>)
qed

text \<open>What holds a session survives what another session does.\<close>

lemma keep_holders:
  assumes "others_keep holder lost i l l'" "\<forall>j. at_work (pc j) \<and> j \<notin> set (lost l) \<longrightarrow> holder l = Some j"
    and "j \<noteq> i" "at_work (pc j)" "j \<notin> set (lost l')"
  shows "holder l' = Some j"
  using assms by (auto simp: others_keep_def)

lemma cluster_step_inv:
  assumes ok: "db_ok coll g view base" "lock_ok lib holder lost"
  shows "cluster_step n h g view lib holder lost s s' \<Longrightarrow> cluster_inv h view holder lost s \<Longrightarrow>
    cluster_inv h view holder lost s' \<and> progress (eh_view h (cr_etcd s)) (eh_view h (cr_etcd s'))"
proof (induction rule: cluster_step.induct)
  case (server i s pc' e' d' l')
  from server.prems have I: "handle_good h (cr_etcd s)" "versions_int (tb_masters (view (cr_db s)))" "\<forall>i. rows_int (cr_pc s i)"
    "\<forall>i. at_work (cr_pc s i) \<and> i \<notin> set (lost (cr_lock s)) \<longrightarrow> holder (cr_lock s) = Some i" by (auto simp: cluster_inv_def)
  note N = recon_next_inv [OF ok I(1,2) I(3)[rule_format, of i] server.hyps]
  have "holder l' = Some j" if "at_work (((cr_pc s)(i := pc')) j)" "j \<notin> set (lost l')" for j
  proof (cases "j = i")
    case True
    with N I(4) that show ?thesis by auto
  next
    case False
    with keep_holders [of holder lost i "cr_lock s" l' "cr_pc s" j] N I(4) that show ?thesis by simp
  qed
  with N I etcd.leads_good [OF _ I(1)] show ?case by (auto simp: cluster_inv_def)
next
  case (stop s i)
  then have I: "\<forall>i. at_work (cr_pc s i) \<and> i \<notin> set (lost (cr_lock s)) \<longrightarrow> holder (cr_lock s) = Some i" by (simp add: cluster_inv_def)
  have k: "others_keep holder lost i (cr_lock s) (lk_Close lib i (cr_lock s))" using ok(2) by (simp add: lock_ok_def)
  have "holder (lk_Close lib i (cr_lock s)) = Some j"
    if "at_work (((cr_pc s)(i := Returned)) j)" "j \<notin> set (lost (lk_Close lib i (cr_lock s)))" for j
    using keep_holders [OF k I, of j] that by (auto simp: at_work_def split: if_splits)
  with stop show ?case by (auto simp: cluster_inv_def rows_int_def etcd.leads_refl)
next
  case (lose i l' s)
  then have I: "\<forall>i. at_work (cr_pc s i) \<and> i \<notin> set (lost (cr_lock s)) \<longrightarrow> holder (cr_lock s) = Some i" by (simp add: cluster_inv_def)
  have "holder l' = Some j" if "at_work (cr_pc s j)" "j \<notin> set (lost l')" for j
    using keep_holders [OF lose.hyps(2) I, of j] that lose.hyps(1) by metis
  with lose show ?case by (auto simp: cluster_inv_def etcd.leads_refl)
next
  case (others s e' d')
  then have "handle_good h e'" using etcd.leads_good by (fastforce simp: cluster_inv_def)
  with others show ?case by (auto simp: cluster_inv_def)
qed

lemma cluster_steps_inv:
  assumes "db_ok coll g view base" "lock_ok lib holder lost"
    and "(cluster_step n h g view lib holder lost)\<^sup>*\<^sup>* s s'" "cluster_inv h view holder lost s"
  shows "cluster_inv h view holder lost s' \<and> progress (eh_view h (cr_etcd s)) (eh_view h (cr_etcd s'))"
  using assms(3)
proof (induction rule: rtranclp_induct)
  case base
  show ?case using assms(4) by (simp add: etcd.leads_refl)
next
  case (step y z)
  with cluster_step_inv [OF assms(1,2) step.hyps(2)] show ?case by (blast intro: progress_trans)
qed

lemma lost_stays:
  assumes ok: "lock_ok lib holder lost"
  shows "cluster_step n h g view lib holder lost s s' \<Longrightarrow> i \<in> set (lost (cr_lock s)) \<and> cr_pc s i \<in> {Waiting, Returned} \<Longrightarrow>
    i \<in> set (lost (cr_lock s')) \<and> cr_pc s' i \<in> {Waiting, Returned}"
proof (induction rule: cluster_step.induct)
  case (server j s pc' e' d' l')
  have lockj: "others_keep holder lost j (cr_lock s) l'"
  proof (cases "cr_pc s j")
    case Waiting
    obtain r l1 where L: "lk_Lock lib j (cr_lock s) = (r, l1)" by (rule prod.exhaust)
    with ok have "others_keep holder lost j (cr_lock s) l1" unfolding lock_ok_def by blast
    with Waiting server.hyps L show ?thesis by simp
  next
    case (Checking ms off)
    then show ?thesis using server.hyps by (cases ms) (auto simp: others_keep_def)
  next
    case Unlocking
    have "others_keep holder lost j (cr_lock s) (snd (lk_Unlock lib j (cr_lock s)))"
      using ok unfolding lock_ok_def by (metis surjective_pairing)
    with Unlocking server.hyps show ?thesis by auto
  qed (use server.hyps in \<open>auto simp: others_keep_def split: prod.splits sum.splits if_splits\<close>)
  then have keep: "i \<in> set (lost l')" using server.prems by (auto simp: others_keep_def)
  show ?case
  proof (cases "j = i")
    case True
    obtain r l1 where L: "lk_Lock lib i (cr_lock s) = (r, l1)" by (rule prod.exhaust)
    with ok server.prems have "r \<noteq> Locked" unfolding lock_ok_def by blast
    with True server L keep show ?thesis by (auto simp: after_lock_def split: lock_result.splits)
  qed (use server keep in auto)
next
  case (stop s j)
  have "others_keep holder lost j (cr_lock s) (lk_Close lib j (cr_lock s))" using ok by (simp add: lock_ok_def)
  with stop show ?case by (auto simp: others_keep_def)
next
  case (lose j l' s)
  then show ?case by (auto simp: others_keep_def)
next
  case (others s e' d')
  then show ?case by simp
qed

lemma lost_stays_run:
  assumes "lock_ok lib holder lost" "(cluster_step n h g view lib holder lost)\<^sup>*\<^sup>* s s'"
    and "i \<in> set (lost (cr_lock s)) \<and> cr_pc s i \<in> {Waiting, Returned}"
  shows "i \<in> set (lost (cr_lock s')) \<and> cr_pc s' i \<in> {Waiting, Returned}"
  using assms(2)
proof (induction rule: rtranclp_induct)
  case (step y z)
  from lost_stays [OF assms(1) step.hyps(2) step.IH] show ?case .
qed (rule assms(3))

section \<open>An instance of the lock\<close>

definition mem_lock :: "(nat option \<times> nat list) lock_lib" where
  "mem_lock = \<lparr>
     lk_Lock = (\<lambda>i (ho, lo). if i \<in> set lo then (LockFailed ''lease not found'', (ho, lo))
        else if ho = None \<or> ho = Some i then (Locked, (Some i, lo)) else (LockTimeout, (ho, lo))),
     lk_Unlock = (\<lambda>i (ho, lo). (True, (if ho = Some i then None else ho, lo))),
     lk_Close = (\<lambda>i (ho, lo). (if ho = Some i then None else ho, lo))\<rparr>"

lemma mem_lock_ok: "lock_ok mem_lock fst snd"
  by (auto simp: lock_ok_def mem_lock_def others_keep_def split: if_splits)

section \<open>Properties\<close>

text \<open>
  C33. Reconcilers exclude each other. In every state that the reconcilers of any number of
  servers reach, with sessions lost at any time, queries and pushes failing at any time, two
  servers that both run \<open>reconcile\<close> with a live session are the same server; and whatever
  overlaps after a lost session, no key of etcd ever loses a version.
\<close>

theorem recon_exclusive:
  assumes "db_ok coll g view base" "lock_ok lib holder lost" "handle_good h (cr_etcd s)"
    and "versions_int (tb_masters (view (cr_db s)))" "\<forall>i. \<exists>interval session. recon_start interval session = Some (cr_pc s i)"
    and "(cluster_step n h g view lib holder lost)\<^sup>*\<^sup>* s s'"
  shows "(\<forall>i j. at_work (cr_pc s' i) \<and> at_work (cr_pc s' j) \<and> i \<notin> set (lost (cr_lock s')) \<and> j \<notin> set (lost (cr_lock s')) \<longrightarrow> i = j) \<and>
    progress (eh_view h (cr_etcd s)) (eh_view h (cr_etcd s'))"
proof -
  have "rows_int (cr_pc s i) \<and> \<not> at_work (cr_pc s i)" for i
    using assms(5) [rule_format, of i] by (auto simp: recon_start_def rows_int_def at_work_def split: if_splits)
  then have "cluster_inv h view holder lost s" using assms(3,4) by (simp add: cluster_inv_def)
  from cluster_steps_inv [OF assms(1,2,6) this]
  have inv: "cluster_inv h view holder lost s'" and p: "progress (eh_view h (cr_etcd s)) (eh_view h (cr_etcd s'))" by blast+
  from inv have "\<forall>i. at_work (cr_pc s' i) \<and> i \<notin> set (lost (cr_lock s')) \<longrightarrow> holder (cr_lock s') = Some i"
    by (simp add: cluster_inv_def)
  with p show ?thesis by (metis option.inject)
qed

text \<open>Two servers: the first one locks, the second one is told that the lock is held.\<close>

definition two_servers :: "(mem_etcd, mem_db, nat option \<times> nat list) cluster" where
  "two_servers = \<lparr>cr_etcd = mem_empty, cr_db = rows_db, cr_lock = (None, []),
     cr_pc = (\<lambda>i. if i < 2 then Waiting else Returned)\<rparr>"

definition first_locks :: "(mem_etcd, mem_db, nat option \<times> nat list) cluster" where
  "first_locks = two_servers\<lparr>cr_lock := (Some 0, []), cr_pc := ((cr_pc two_servers)(0 := Paging 0))(1 := Waiting)\<rparr>"

lemma first_locks_reached: "(cluster_step 2 mem_handle (mem_gorm id) md_tables mem_lock fst snd)\<^sup>*\<^sup>* two_servers first_locks"
proof -
  let ?s1 = "two_servers\<lparr>cr_lock := (Some 0, []), cr_pc := (cr_pc two_servers)(0 := Paging 0)\<rparr>"
  have "cluster_step 2 mem_handle (mem_gorm id) md_tables mem_lock fst snd two_servers ?s1"
    using cluster_step.server [of 2 mem_handle "mem_gorm id" mem_lock 0 two_servers "Paging 0" mem_empty rows_db "(Some 0, [])" md_tables fst snd]
    by (simp add: two_servers_def mem_lock_def after_lock_def)
  moreover have "cluster_step 2 mem_handle (mem_gorm id) md_tables mem_lock fst snd ?s1 first_locks"
    using cluster_step.server [of 2 mem_handle "mem_gorm id" mem_lock 1 ?s1 Waiting mem_empty rows_db "(Some 0, [])" md_tables fst snd]
    by (simp add: two_servers_def first_locks_def mem_lock_def after_lock_def)
  ultimately show ?thesis by (meson converse_rtranclp_into_rtranclp r_into_rtranclp)
qed

theorem recon_exclusive_witness:
  "(cluster_step 2 mem_handle (mem_gorm id) md_tables mem_lock fst snd)\<^sup>*\<^sup>* two_servers first_locks \<and>
   at_work (cr_pc first_locks 0) \<and> \<not> at_work (cr_pc first_locks 1)"
proof -
  have "recon_start 1 (i < 2) = Some (cr_pc two_servers i)" for i by (simp add: recon_start_def two_servers_def)
  then have start: "\<forall>i. \<exists>interval session. recon_start interval session = Some (cr_pc two_servers i)" by blast
  have s: "handle_good mem_handle (cr_etcd two_servers)" "versions_int (tb_masters (md_tables (cr_db two_servers)))"
    by (simp_all add: two_servers_def mem_handle_good mem_empty_wf three_rows_ok versions_int_def three_rows_def row_v_def
        is_int64_def int64_min_def int64_max_def)
  have w: "at_work (cr_pc first_locks 0)" "snd (cr_lock first_locks) = []" by (simp_all add: first_locks_def at_work_def)
  from recon_exclusive [OF mem_db_ok mem_lock_ok s start first_locks_reached] w have "\<not> at_work (cr_pc first_locks 1)"
    by (metis empty_iff list.set(1) zero_neq_one)
  with w first_locks_reached show ?thesis by blast
qed

text \<open>
  A reconciler whose session is lost never works again: \<open>Run\<close> opens its session once,
  before the loop, so after the lease has expired every lock fails, on every tick, until the
  process is restarted.
\<close>

theorem lost_session_is_final:
  assumes "lock_ok lib holder lost" "i \<in> set (lost (cr_lock s))" "cr_pc s i = Waiting"
    and "(cluster_step n h g view lib holder lost)\<^sup>*\<^sup>* s s'"
  shows "\<not> at_work (cr_pc s' i)"
  using lost_stays_run [OF assms(1,4), of i] assms(2,3) by (auto simp: at_work_def)

theorem lost_session_is_final_witness:
  "snd (recon_next 2 mem_client (mem_gorm id) mem_lock 0 (Waiting, mem_empty, rows_db, (None, [0]))) = (mem_empty, rows_db, (None, [0])) \<and>
   \<not> at_work (fst (recon_next 2 mem_client (mem_gorm id) mem_lock 0 (Waiting, mem_empty, rows_db, (None, [0]))))"
proof -
  let ?s = "two_servers\<lparr>cr_lock := (None, [0])\<rparr>"
  let ?n = "recon_next 2 mem_client (mem_gorm id) mem_lock 0 (Waiting, mem_empty, rows_db, (None, [0]))"
  have n: "snd ?n = (mem_empty, rows_db, (None, [0]))" by (simp add: mem_lock_def)
  have "cluster_step 2 mem_handle (mem_gorm id) md_tables mem_lock fst snd ?s (?s\<lparr>cr_pc := (cr_pc ?s)(0 := fst ?n)\<rparr>)"
    using cluster_step.server [of 2 mem_handle "mem_gorm id" mem_lock 0 ?s "fst ?n" mem_empty rows_db "(None, [0])" md_tables fst snd]
    by (simp add: two_servers_def mem_handle_def mem_lock_def)
  then have "(cluster_step 2 mem_handle (mem_gorm id) md_tables mem_lock fst snd)\<^sup>*\<^sup>* ?s (?s\<lparr>cr_pc := (cr_pc ?s)(0 := fst ?n)\<rparr>)"
    by (rule r_into_rtranclp)
  from lost_session_is_final [OF mem_lock_ok _ _ this, of 0] n show ?thesis
    by (simp add: two_servers_def)
qed

end
