(* ===== verification/Json_Typing.thy ===== *)
theory Json_Typing
  imports Api_Types
begin

text \<open>
  What comes out of the decoder is well typed: every string is UTF-8 and every number fits
  its field, whatever the bytes were. The components that store and print decoded flags and
  messages again (the outbox, the snapshot file of the SDK) rest on this.
\<close>

section \<open>Strings\<close>

lemma runes_rune: "is_rune q \<Longrightarrow> runes (q @ s) = Some q # runes s"
  using rune_len_rune [of q s] by (subst runes.simps) (auto simp: is_rune_def)

lemma valid_utf8_rune [simp]: "is_rune q \<Longrightarrow> valid_utf8 (q @ s) = valid_utf8 s"
  by (simp add: valid_utf8_def runes_rune)

lemma valid_utf8_Nil [simp]: "valid_utf8 []"
  by (simp add: valid_utf8_def)

lemma valid_utf8_Cons [simp]: "is_rune [c] \<Longrightarrow> valid_utf8 (c # s) = valid_utf8 s"
  using valid_utf8_rune [of "[c]" s] by simp

lemma is_rune_ascii: "(of_char c :: int) < 0x80 \<Longrightarrow> is_rune [c]"
  by (simp add: is_rune_def bytes_def)

lemma bytes_char_of: "\<forall>b \<in> set bs. 0 \<le> b \<and> b < 256 \<Longrightarrow> bytes (map char_of bs) = bs"
  by (induction bs) (auto simp: bytes_def of_char_of take_bit_eq_mod)

lemma is_rune_replacement: "is_rune replacement"
  by (simp add: is_rune_def replacement_def bytes_def of_char_of take_bit_eq_mod cont_def)

lemma is_rune_bytes:
  assumes "\<forall>b \<in> set bs. 0 \<le> b \<and> b < 256" "bs \<noteq> []" "length bs \<le> 4" "\<And>ys. utf8_len (bs @ ys) = length bs"
  shows "is_rune (map char_of bs)"
  using assms bytes_char_of [OF assms(1)] by (simp add: is_rune_def)

lemma is_rune_2:
  assumes "2 \<le> x" "x < 32" "0 \<le> y" "y < 64"
  shows "is_rune (map char_of [0xC0 + x, 0x80 + y :: int])"
  by (rule is_rune_bytes) (use assms in \<open>simp_all add: cont_def\<close>)

lemma is_rune_3:
  assumes "0 \<le> x" "x < 16" "0 \<le> y" "y < 64" "0 \<le> z" "z < 64" "x = 0 \<longrightarrow> 32 \<le> y" "x = 13 \<longrightarrow> y \<le> 31"
  shows "is_rune (map char_of [0xE0 + x, 0x80 + y, 0x80 + z :: int])"
  by (rule is_rune_bytes) (use assms in \<open>simp_all add: cont_def\<close>)

lemma is_rune_4:
  assumes "0 \<le> x" "x \<le> 4" "0 \<le> y" "y < 64" "0 \<le> z" "z < 64" "0 \<le> u" "u < 64" "x = 0 \<longrightarrow> 16 \<le> y" "x = 4 \<longrightarrow> y \<le> 15"
  shows "is_rune (map char_of [0xF0 + x, 0x80 + y, 0x80 + z, 0x80 + u :: int])"
  by (rule is_rune_bytes) (use assms in \<open>simp_all add: cont_def\<close>)

text \<open>A code point that is no surrogate is written as one valid sequence.\<close>

lemma is_rune_encode:
  assumes "0 \<le> r" "r < 0x110000" "r < 0xD800 \<or> 0xE000 \<le> r"
  shows "is_rune (utf8_encode r)"
proof -
  define z where "z = r mod 64" define q where "q = r div 64"
  define y where "y = q mod 64" define p where "p = q div 64"
  define x where "x = p mod 64" define w where "w = p div 64"
  have r: "r = 64 * q + z" "0 \<le> z" "z < 64" by (simp_all add: z_def q_def)
  have q: "q = 64 * p + y" "0 \<le> y" "y < 64" by (simp_all add: y_def p_def)
  have p: "p = 64 * w + x" "0 \<le> x" "x < 64" by (simp_all add: x_def w_def)
  have e: "r div 4096 = p" "r div 262144 = w"
    using zdiv_zmult2_eq [of 64 r 64] zdiv_zmult2_eq [of 64 r 4096] zdiv_zmult2_eq [of 64 q 64]
    by (simp_all add: p_def q_def w_def)
  have enc: "utf8_encode r = map char_of (if r < 0x80 then [r] else if r < 0x800 then [0xC0 + q, 0x80 + z]
      else if r < 0x10000 then [0xE0 + p, 0x80 + y, 0x80 + z] else [0xF0 + w, 0x80 + x, 0x80 + y, 0x80 + z])"
    unfolding utf8_encode_def e z_def [symmetric] q_def [symmetric] y_def [symmetric] x_def [symmetric] by (rule refl)
  consider "r < 0x80" | "0x80 \<le> r" "r < 0x800" | "0x800 \<le> r" "r < 0x10000" | "0x10000 \<le> r" by linarith
  then show ?thesis
  proof cases
    case 1
    have "is_rune (map char_of [r])" using 1 assms(1) by (intro is_rune_bytes) simp_all
    with 1 show ?thesis unfolding enc by simp
  next
    case 2
    have "is_rune (map char_of [0xC0 + q, 0x80 + z])" by (rule is_rune_2) (use 2 r in linarith)+
    with 2 show ?thesis unfolding enc by simp
  next
    case 3
    have "is_rune (map char_of [0xE0 + p, 0x80 + y, 0x80 + z])"
    proof (rule is_rune_3)
      show "p = 13 \<longrightarrow> y \<le> 31" using assms(3) r q by (elim disjE) linarith+
    qed (use 3 r q in linarith)+
    with 3 show ?thesis unfolding enc by simp
  next
    case 4
    have "is_rune (map char_of [0xF0 + w, 0x80 + x, 0x80 + y, 0x80 + z])"
      by (rule is_rune_4) (use 4 assms(2) r q p in linarith)+
    with 4 show ?thesis unfolding enc by simp
  qed
qed

lemma hex_val_range: "hex_val c = Some n \<Longrightarrow> 0 \<le> n \<and> n < 16"
  by (auto simp: hex_val_def Let_def split: if_splits)

lemma hex4_range: "hex4 s = Some r \<Longrightarrow> 0 \<le> r \<and> r < 0x10000"
  by (cases s rule: hex4.cases) (auto split: option.splits dest!: hex_val_range)

lemma surrogate_pair_range: "surrogate_pair hi s = Some r \<Longrightarrow> 0x10000 \<le> r \<and> r < 0x110000"
  by (auto simp: surrogate_pair_def split: list.splits option.splits if_splits)

lemma simple_escape_ascii: "simple_escape e = Some x \<Longrightarrow> (of_char x :: int) < 0x80"
  by (auto simp: simple_escape_def split: if_splits)

lemma cons_str_valid:
  "cons_str q r = Some (t, s) \<Longrightarrow> is_rune q \<Longrightarrow> (\<And>t s. r = Some (t, s) \<Longrightarrow> valid_utf8 t) \<Longrightarrow> valid_utf8 t"
  by auto

lemma parse_str_valid: "parse_str s = Some (t, r) \<Longrightarrow> valid_utf8 t"
proof (induction s arbitrary: t r rule: parse_str.induct)
  case (2 c cs)
  have enc: "is_rune (utf8_encode x)" if "hex4 es = Some x" "\<not> (0xD800 \<le> x \<and> x < 0xE000)" for es x
    using hex4_range [OF that(1)] that(2) by (intro is_rune_encode) auto
  have pair: "is_rune (utf8_encode x)" if "surrogate_pair hi es = Some x" for hi es x
    using surrogate_pair_range [OF that] by (intro is_rune_encode) auto
  have esc: "is_rune [x]" if "simple_escape e = Some x" for e x
    using simple_escape_ascii [OF that] by (rule is_rune_ascii)
  have raw: "is_rune (take (rune_len (c # cs)) (c # cs))" if "rune_len (c # cs) \<noteq> 0"
    using that by (rule is_rune_take)
  show ?case
    using "2.prems" "2.IH" enc pair esc raw is_rune_replacement
    by (subst (asm) parse_str.simps) (auto split: if_splits list.splits option.splits)
qed simp

section \<open>Values\<close>

fun jtext :: "json \<Rightarrow> bool" where
  "jtext (JStr s) = valid_utf8 s"
| "jtext (JArr vs) = list_all jtext vs"
| "jtext (JObj ms) = list_all (\<lambda>(k, v). valid_utf8 k \<and> jtext v) ms"
| "jtext _ = True"

lemma parse_text:
  "parse_val f d s = Some (v, r) \<Longrightarrow> jtext v"
  "parse_elems f d s = Some (vs, r) \<Longrightarrow> list_all jtext vs"
  "parse_members f d s = Some (ms, r) \<Longrightarrow> list_all (\<lambda>(k, v). valid_utf8 k \<and> jtext v) ms"
proof (induction f d s and f d s and f d s arbitrary: v r and vs r and ms r
    rule: parse_val_parse_elems_parse_members.induct)
  case (2 f d s)
  obtain c cs where s: "skip_ws s = c # cs" using "2.prems" by (auto split: list.splits)
  show ?case
    using "2.prems" s "2.IH" by (fastforce split: if_splits list.splits dest: parse_str_valid)
next
  case (4 f d s)
  then show ?case by (fastforce split: if_splits list.splits option.splits)
next
  case (6 f d s)
  then show ?case by (fastforce split: if_splits list.splits option.splits dest: parse_str_valid)
qed auto

lemma json_decode_text: "json_decode s = Some (j, r) \<Longrightarrow> jtext j"
  unfolding json_decode_def by (rule parse_text)

lemma json_parse_text: "json_parse s = Some j \<Longrightarrow> jtext j"
  by (auto simp: json_parse_def split: option.splits prod.splits if_splits dest: json_decode_text)

section \<open>Structs\<close>

text \<open>A predicate on a struct that every field keeps, when it stores a value with valid text.\<close>

definition fields_keep :: "('r \<Rightarrow> bool) \<Rightarrow> 'r json_field list \<Rightarrow> bool" where
  "fields_keep P fs \<longleftrightarrow> (\<forall>(n, st) \<in> set fs. \<forall>v r r'. jtext v \<longrightarrow> P r \<longrightarrow> st v r = Some r' \<longrightarrow> P r')"

lemma findSomeD: "find P xs = Some x \<Longrightarrow> x \<in> set xs"
  by (auto simp: find_Some_iff)

lemma find_field_in: "find_field fs k = Some st \<Longrightarrow> \<exists>n. (n, st) \<in> set fs"
  by (auto simp: find_field_def split: option.splits dest: map_of_SomeD findSomeD)

lemma decode_members_keep:
  "decode_members fs ms r = Some r' \<Longrightarrow> fields_keep P fs \<Longrightarrow> list_all (\<lambda>(k, v). jtext v) ms \<Longrightarrow> P r \<Longrightarrow> P r'"
proof (induction fs ms r rule: decode_members.induct)
  case (2 fs k v ms r)
  then show ?case by (fastforce simp: fields_keep_def split: option.splits dest: find_field_in)
qed simp

lemma decode_struct_keep:
  assumes "decode_struct fs j r = Some r'" "fields_keep P fs" "jtext j" "P r"
  shows "P r'"
proof (cases j)
  case (JObj ms)
  have "list_all (\<lambda>(k, v). jtext v) ms" using assms(3) JObj by (auto simp: list_all_iff)
  with assms JObj show ?thesis by (auto simp: decode_struct_def intro: decode_members_keep)
qed (use assms in \<open>auto simp: decode_struct_def\<close>)

lemma unmarshal_keep: "unmarshal fs r s = Some r' \<Longrightarrow> fields_keep P fs \<Longrightarrow> P r \<Longrightarrow> P r'"
  by (auto simp: unmarshal_def split: option.splits intro: decode_struct_keep json_parse_text)

lemma decode_list_keep:
  "decode_list dec js = Some xs \<Longrightarrow> (\<And>j x. jtext j \<Longrightarrow> dec j = Some x \<Longrightarrow> P x) \<Longrightarrow> list_all jtext js \<Longrightarrow> list_all P xs"
  by (induction js arbitrary: xs) (auto split: option.splits)

lemma set_string_text: "set_string upd v r = Some r' \<Longrightarrow> jtext v \<Longrightarrow> r' = r \<or> (\<exists>s. valid_utf8 s \<and> r' = upd (\<lambda>_. s) r)"
  by (auto simp: set_string_def split: json.splits)

lemma set_int32_range: "set_int 32 upd j r = Some r' \<Longrightarrow> r' = r \<or> (\<exists>i. - (2 ^ 31) \<le> i \<and> i < 2 ^ 31 \<and> r' = upd (\<lambda>_. i) r)"
  by (auto simp: set_int_def split: json.splits prod.splits option.splits if_splits)

lemmas setter_results = set_string_text set_int64_range set_int32_range

definition flag_typed :: "FeatureFlag \<Rightarrow> bool" where
  "flag_typed f \<longleftrightarrow> flag_utf8 f \<and> flag_ints f"

lemma fields_keep_Cons:
  "fields_keep P ((n, st) # fs) \<longleftrightarrow> (\<forall>v r r'. jtext v \<longrightarrow> P r \<longrightarrow> st v r = Some r' \<longrightarrow> P r') \<and> fields_keep P fs"
  by (simp add: fields_keep_def)

lemma flag_fields_keep: "fields_keep flag_typed flag_fields"
  by (auto simp: flag_fields_def fields_keep_def flag_typed_def flag_utf8_def flag_ints_def dest!: setter_results)

lemma message_fields_keep: "fields_keep message_ok message_fields"
  by (auto simp: message_fields_def fields_keep_def message_ok_def dest!: setter_results)

lemma flag_typed_zero: "flag_typed zero_flag"
  by (simp add: flag_typed_def flag_utf8_def flag_ints_def zero_flag_def is_int64_small)

lemma message_ok_zero: "message_ok zero_message"
  by (simp add: message_ok_def zero_message_def is_int64_small)

lemma decode_flag_typed: "decode_struct flag_fields j zero_flag = Some f \<Longrightarrow> jtext j \<Longrightarrow> flag_typed f"
  using decode_struct_keep [OF _ flag_fields_keep _ flag_typed_zero] by blast

lemma unmarshal_flag_typed: "unmarshal_flag s = Some f \<Longrightarrow> flag_typed f"
  unfolding unmarshal_flag_def using unmarshal_keep [OF _ flag_fields_keep flag_typed_zero] by blast

lemma unmarshal_message_ok: "unmarshal_message s = Some m \<Longrightarrow> message_ok m"
  unfolding unmarshal_message_def using unmarshal_keep [OF _ message_fields_keep message_ok_zero] by blast

end
