(* ===== verification/Sdk_Loops.thy ===== *)
theory Sdk_Loops
  imports Sdk_Facts Json_Typing
begin

text \<open>
  \<open>client/client.go\<close> with its goroutines side by side. The watch loop and the snapshot loop
  share the client under its mutex: \<open>runSnapshotLoop\<close> claims the dirty flag in one critical
  section, \<open>saveSnapshot\<close> encodes the state in a second one and then writes two files without
  the lock, and updates come in between. Each critical section and each file operation is a
  step of a transition relation. The second half is the time a stream lives: the watchdog
  of \<open>runWatchLoop\<close> and the timeout of the HTTP client.
\<close>

section \<open>The snapshot loop and the updates, interleaved\<close>

text \<open>Where the snapshot loop is; what it has encoded and not yet written.\<close>

datatype snap_pc = Sleeping | Claimed | Encoded string | TmpWritten

text \<open>\<open>sk_failed\<close> is no variable of the code: whether the last attempt to save failed.\<close>

record sdk =
  sk_client :: MizuClient
  sk_files :: files
  sk_pc :: snap_pc
  sk_failed :: bool

definition snapshot_bytes :: "MizuClient \<Rightarrow> string" where
  "snapshot_bytes c = jprint (snapshot_json \<lparr>sn_Features = mc_features c, sn_Revision = mc_lastRev c\<rparr>)"

abbreviation tmp_file :: "MizuClient \<Rightarrow> string" where
  "tmp_file c \<equiv> mc_cacheFile c @ ''.tmp''"

definition claim :: "sdk \<Rightarrow> sdk" where
  "claim s = (if \<not> mc_isDirty (sk_client s) then s
     else s\<lparr>sk_client := (sk_client s)\<lparr>mc_isDirty := False\<rparr>, sk_pc := Claimed\<rparr>)"

definition encode_state :: "sdk \<Rightarrow> sdk" where
  "encode_state s = s\<lparr>sk_pc := Encoded (snapshot_bytes (sk_client s))\<rparr>"

definition write_tmp :: "write_result \<Rightarrow> string \<Rightarrow> sdk \<Rightarrow> sdk" where
  "write_tmp wr data s =
     (case WriteFile wr (tmp_file (sk_client s)) data (sk_files s) of
        (ok, fs) \<Rightarrow> if ok then s\<lparr>sk_files := fs, sk_pc := TmpWritten\<rparr>
                    else s\<lparr>sk_files := fs, sk_pc := Sleeping, sk_failed := True\<rparr>)"

definition rename_tmp :: "bool \<Rightarrow> sdk \<Rightarrow> sdk" where
  "rename_tmp ok s =
     s\<lparr>sk_files := Rename ok (tmp_file (sk_client s)) (mc_cacheFile (sk_client s)) (sk_files s),
       sk_pc := Sleeping, sk_failed := \<not> ok\<rparr>"

text \<open>The snapshot loop, as a function of where it is and of what the file system does.\<close>

definition snap_next :: "write_result \<Rightarrow> bool \<Rightarrow> sdk \<Rightarrow> sdk" where
  "snap_next wr ok s =
     (case sk_pc s of
        Sleeping \<Rightarrow> claim s
      | Claimed \<Rightarrow> encode_state s
      | Encoded data \<Rightarrow> write_tmp wr data s
      | TmpWritten \<Rightarrow> rename_tmp ok s)"

inductive sdk_step :: "sdk \<Rightarrow> sdk \<Rightarrow> bool" where
  updated: "unmarshal_message data = Some msg \<Longrightarrow> handleUpdate msg (sk_client s) = Some c \<Longrightarrow> sdk_step s (s\<lparr>sk_client := c\<rparr>)"
| fetched: "decode_response body = Some res \<Longrightarrow> store_response res (sk_client s) = Some c \<Longrightarrow> sdk_step s (s\<lparr>sk_client := c\<rparr>)"
| snapshot_loop: "sdk_step s (snap_next wr ok s)"

lemmas snap_defs = snap_next_def claim_def encode_state_def write_tmp_def rename_tmp_def
  WriteFile_def Rename_def

text \<open>When nothing comes in between, four steps of the loop are the tick of \<open>Sdk_Client\<close>.\<close>

lemma snap_pass_is_tick:
  assumes "sk_pc s = Sleeping" "mc_isDirty (sk_client s)"
  shows "let s4 = (snap_next wr ok ^^ 4) s in
    (sk_client s4, sk_files s4) = snapshot_tick wr ok (sk_client s, sk_files s) \<and> sk_pc s4 = Sleeping"
  using assms
  by (cases wr) (auto simp: numeral_eq_Suc snap_defs snapshot_tick_def saveSnapshot_def snapshot_bytes_def Let_def)

section \<open>What the steps keep\<close>

lemma put_feature_frame:
  "put_feature k f c = Some c' \<Longrightarrow> mc_cacheFile c' = mc_cacheFile c \<and> mc_isDirty c' = mc_isDirty c"
  by (auto simp: put_feature_def split: option.splits)

lemma handleUpdate_frame:
  "handleUpdate msg c = Some c' \<Longrightarrow> mc_cacheFile c' = mc_cacheFile c \<and> (c' = c \<or> mc_isDirty c')"
  by (auto simp: handleUpdate_def dest!: put_feature_frame split: if_splits)

lemma store_response_frame:
  "store_response res c = Some c' \<Longrightarrow> mc_cacheFile c' = mc_cacheFile c \<and> mc_isDirty c'"
proof -
  assume "store_response res c = Some c'"
  then obtain c1 where c1: "fold_opt (\<lambda>f. put_feature (ff_Key f) f) (sr_Data res) c = Some c1"
    "c' = c1\<lparr>mc_lastRev := sr_Revision res, mc_isDirty := True\<rparr>" by (auto simp: store_response_def)
  have "mc_cacheFile c1 = mc_cacheFile c"
    by (rule fold_opt_invariant [where I = "\<lambda>x. mc_cacheFile x = mc_cacheFile c", OF _ _ c1(1)])
       (auto dest: put_feature_frame)
  with c1(2) show ?thesis by simp
qed

text \<open>
  The invariant. What the loop holds is either the state or older than a change that set
  the dirty flag again; so is the file when the loop sleeps and did not fail.
\<close>

definition holds_state :: "MizuClient \<Rightarrow> string option \<Rightarrow> bool" where
  "holds_state c data \<longleftrightarrow> mc_isDirty c \<or> data = Some (snapshot_bytes c)"

definition sdk_inv :: "sdk \<Rightarrow> bool" where
  "sdk_inv s \<longleftrightarrow>
     (case sk_pc s of
        Sleeping \<Rightarrow> sk_failed s \<or> holds_state (sk_client s) (sk_files s (mc_cacheFile (sk_client s)))
      | Claimed \<Rightarrow> True
      | Encoded data \<Rightarrow> holds_state (sk_client s) (Some data)
      | TmpWritten \<Rightarrow> sk_files s (tmp_file (sk_client s)) \<noteq> None \<and>
          holds_state (sk_client s) (sk_files s (tmp_file (sk_client s))))"

lemma sdk_inv_changed:
  assumes "sdk_inv s" "mc_cacheFile c = mc_cacheFile (sk_client s)" "c = sk_client s \<or> mc_isDirty c"
  shows "sdk_inv (s\<lparr>sk_client := c\<rparr>)"
  using assms by (cases "sk_pc s") (auto simp: sdk_inv_def holds_state_def)

lemma sdk_inv_snap: "sdk_inv s \<Longrightarrow> sdk_inv (snap_next wr ok s)"
  by (cases "sk_pc s"; cases wr) (auto simp: sdk_inv_def holds_state_def snap_defs snapshot_bytes_def)

lemma sdk_step_inv [inv_intros]: "sdk_step s s' \<Longrightarrow> sdk_inv s \<Longrightarrow> sdk_inv s'"
proof (induction rule: sdk_step.induct)
  case (updated data msg s c)
  then show ?case using handleUpdate_frame [OF updated.hyps(2)] by (intro sdk_inv_changed) auto
next
  case (fetched body res s c)
  then show ?case using store_response_frame [OF fetched.hyps(2)] by (intro sdk_inv_changed) auto
qed (rule sdk_inv_snap)

lemma sdk_steps_inv: "sdk_step\<^sup>*\<^sup>* s s' \<Longrightarrow> sdk_inv s \<Longrightarrow> sdk_inv s'"
  by (induction rule: rtranclp_induct) (auto intro: sdk_step_inv)

lemma sdk_step_file: "sdk_step s s' \<Longrightarrow> mc_cacheFile (sk_client s') = mc_cacheFile (sk_client s)"
proof (induction rule: sdk_step.induct)
  case (snapshot_loop s wr ok)
  show ?case by (cases "sk_pc s"; cases wr) (auto simp: snap_defs)
qed (auto dest: handleUpdate_frame store_response_frame)

text \<open>Whatever is in the cache file, or on its way there, was the state at some moment of the run.\<close>

definition was_state :: "sdk \<Rightarrow> sdk \<Rightarrow> string \<Rightarrow> bool" where
  "was_state s0 s data \<longleftrightarrow> (\<exists>x. sdk_step\<^sup>*\<^sup>* s0 x \<and> sdk_step\<^sup>*\<^sup>* x s \<and> data = snapshot_bytes (sk_client x))"

definition file_inv :: "sdk \<Rightarrow> sdk \<Rightarrow> bool" where
  "file_inv s0 s \<longleftrightarrow>
     (let f = mc_cacheFile (sk_client s0); t = tmp_file (sk_client s0) in
      mc_cacheFile (sk_client s) = f \<and>
      (sk_files s f = sk_files s0 f \<or> (\<exists>d. sk_files s f = Some d \<and> was_state s0 s d)) \<and>
      (case sk_pc s of Encoded d \<Rightarrow> was_state s0 s d
         | TmpWritten \<Rightarrow> (\<exists>d. sk_files s t = Some d \<and> was_state s0 s d) | _ \<Rightarrow> True))"

lemma was_state_later: "was_state s0 s d \<Longrightarrow> sdk_step s s' \<Longrightarrow> was_state s0 s' d"
  unfolding was_state_def by (blast intro: rtranclp.rtrancl_into_rtrancl)

lemma was_state_now: "sdk_step\<^sup>*\<^sup>* s0 s \<Longrightarrow> sdk_step s s' \<Longrightarrow> was_state s0 s' (snapshot_bytes (sk_client s))"
  unfolding was_state_def by (blast intro: r_into_rtranclp)

lemma file_inv_snap:
  assumes "file_inv s0 s" "sdk_step\<^sup>*\<^sup>* s0 s"
  shows "file_inv s0 (snap_next wr ok s)"
proof -
  have st: "sdk_step s (snap_next wr ok s)" by (rule sdk_step.snapshot_loop)
  note later = was_state_later [OF _ st]
  note now = was_state_now [OF assms(2) st]
  show ?thesis
    using assms(1) later now
    by (cases "sk_pc s"; cases wr) (auto simp: file_inv_def Let_def snap_defs snapshot_bytes_def)
qed

lemma file_inv_client:
  assumes "file_inv s0 s" "sdk_step s (s\<lparr>sk_client := c\<rparr>)"
  shows "file_inv s0 (s\<lparr>sk_client := c\<rparr>)"
  using assms(1) was_state_later [OF _ assms(2)] sdk_step_file [OF assms(2)]
  by (cases "sk_pc s") (auto simp: file_inv_def Let_def)

lemma sdk_steps_file:
  assumes "sdk_step\<^sup>*\<^sup>* s0 s" "sk_pc s0 = Sleeping"
  shows "file_inv s0 s"
  using assms(1)
proof (induction rule: rtranclp_induct)
  case base
  with assms(2) show ?case by (simp add: file_inv_def Let_def)
next
  case (step y z)
  from step.hyps(2) show ?case
  proof (cases rule: sdk_step.cases)
    case (updated data msg c)
    with step show ?thesis by (auto intro: file_inv_client)
  next
    case (fetched body res c)
    with step show ?thesis by (auto intro: file_inv_client)
  next
    case (snapshot_loop wr ok)
    with step show ?thesis by (auto intro: file_inv_snap)
  qed
qed

section \<open>The state can always be saved\<close>

text \<open>What the decoder delivers has valid text and numbers, so the state has too.\<close>

lemma decode_response_typed:
  assumes "decode_response body = Some res"
  shows "list_all flag_typed (sr_Data res) \<and> is_int64 (sr_Revision res)"
proof -
  let ?P = "\<lambda>r. list_all flag_typed (sr_Data r) \<and> is_int64 (sr_Revision r)"
  have sl: "list_all flag_typed xs" if "decode_list (\<lambda>j. decode_struct flag_fields j zero_flag) js = Some xs" "jtext (JArr js)" for js xs
    using decode_list_keep [OF that(1) decode_flag_typed] that(2) by simp
  have "fields_keep ?P snapshot_response_fields"
    unfolding snapshot_response_fields_def fields_keep_def
    by (auto simp: set_slice_def dest!: set_int64_range split: json.splits intro: sl)
  moreover have "?P \<lparr>sr_Data = [], sr_Revision = 0\<rparr>" by (simp add: is_int64_small)
  ultimately show ?thesis
    using assms by (auto simp: decode_response_def split: option.splits prod.splits dest: decode_struct_keep json_decode_text)
qed

definition client_typed :: "MizuClient \<Rightarrow> bool" where
  "client_typed c \<longleftrightarrow> persistable (mc_features c) (mc_lastRev c)"

lemma persistable_put:
  "persistable (Some m) r \<Longrightarrow> flag_typed f \<Longrightarrow> valid_utf8 k \<Longrightarrow> persistable (Some (gm_put k f m)) r"
  using gm_put_subset [of k f m] by (fastforce simp: persistable_def flag_typed_def)

lemma persistable_del: "persistable (Some m) r \<Longrightarrow> persistable (Some (gm_del k m)) r"
  using gm_del_subset [of k m] by (fastforce simp: persistable_def)

lemma put_feature_typed:
  assumes "put_feature (ff_Key f) f c = Some c'" "flag_typed f" "client_typed c"
  shows "client_typed c'"
proof -
  have "valid_utf8 (ff_Key f)" using assms(2) by (simp add: flag_typed_def flag_utf8_def)
  with assms show ?thesis
    by (auto simp: put_feature_def client_typed_def intro: persistable_put split: option.splits)
qed

lemma message_flag_typed: "message_ok m \<Longrightarrow> flag_typed (message_flag m)"
  by (simp add: message_ok_def flag_typed_def flag_utf8_def flag_ints_def message_flag_def zero_flag_def)

lemma client_typed_rev: "client_typed c \<Longrightarrow> is_int64 r \<Longrightarrow> client_typed (c\<lparr>mc_lastRev := r, mc_isDirty := d\<rparr>)"
  by (auto simp: client_typed_def persistable_def split: option.splits)

lemma handleUpdate_typed:
  assumes "handleUpdate m c = Some c'" "message_ok m" "client_typed c"
  shows "client_typed c'"
proof -
  have r: "is_int64 (msg_Revision m)" using assms(2) by (simp add: message_ok_def)
  have k: "ff_Key (message_flag m) = msg_Key m" by (simp add: message_flag_def)
  have "client_typed (c\<lparr>mc_features := map_option (gm_del (msg_Key m)) (mc_features c)\<rparr>)"
    using assms(3) by (cases "mc_features c") (simp_all add: client_typed_def persistable_del)
  then show ?thesis
    using assms put_feature_typed [of "message_flag m" c] message_flag_typed [OF assms(2)] client_typed_rev [OF _ r]
    by (auto simp: handleUpdate_def k split: if_splits)
qed

lemma store_response_typed:
  assumes "store_response res c = Some c'" "list_all flag_typed (sr_Data res)" "is_int64 (sr_Revision res)" "client_typed c"
  shows "client_typed c'"
proof -
  obtain c1 where c1: "fold_opt (\<lambda>f. put_feature (ff_Key f) f) (sr_Data res) c = Some c1"
    "c' = c1\<lparr>mc_lastRev := sr_Revision res, mc_isDirty := True\<rparr>" using assms(1) by (auto simp: store_response_def)
  have "client_typed c1"
    by (rule fold_opt_invariant [where I = client_typed, OF _ assms(4) c1(1)])
       (use assms(2) put_feature_typed in \<open>auto simp: list_all_iff\<close>)
  then show ?thesis unfolding c1(2) using assms(3) by (rule client_typed_rev)
qed

lemma snap_next_client: "sk_client (snap_next wr ok s) = sk_client s \<or> sk_client (snap_next wr ok s) = (sk_client s)\<lparr>mc_isDirty := False\<rparr>"
  by (cases "sk_pc s"; cases wr) (auto simp: snap_defs)

lemma sdk_step_typed [inv_intros]: "sdk_step s s' \<Longrightarrow> client_typed (sk_client s) \<Longrightarrow> client_typed (sk_client s')"
proof (induction rule: sdk_step.induct)
  case (snapshot_loop s wr ok)
  then show ?case using snap_next_client [of wr ok s] by (auto simp: client_typed_def)
qed (auto dest: unmarshal_message_ok decode_response_typed intro: handleUpdate_typed store_response_typed)

lemma sdk_steps_typed: "sdk_step\<^sup>*\<^sup>* s s' \<Longrightarrow> client_typed (sk_client s) \<Longrightarrow> client_typed (sk_client s')"
  by (induction rule: rtranclp_induct) (auto intro: sdk_step_typed)

section \<open>Fetching again\<close>

lemma put_features_get:
  "client_ok c \<Longrightarrow> \<exists>c'. fold_opt (\<lambda>f. put_feature (ff_Key f) f) fs c = Some c' \<and> client_ok c' \<and>
     (\<forall>k. gm_get (features_of c') k = (case find (\<lambda>f. ff_Key f = k) (rev fs) of None \<Rightarrow> gm_get (features_of c) k | Some f \<Rightarrow> Some f))"
proof (induction fs arbitrary: c)
  case (Cons f fs)
  then obtain m where m: "mc_features c = Some m" "gm_wf m" by (auto simp: client_ok_def)
  let ?c1 = "c\<lparr>mc_features := Some (gm_put (ff_Key f) f m)\<rparr>"
  have "client_ok ?c1" using m by (simp add: client_ok_def)
  from Cons.IH [OF this] obtain c' where c': "fold_opt (\<lambda>f. put_feature (ff_Key f) f) fs ?c1 = Some c'" "client_ok c'"
    "\<And>k. gm_get (features_of c') k = (case find (\<lambda>f. ff_Key f = k) (rev fs) of None \<Rightarrow> gm_get (features_of ?c1) k | Some f \<Rightarrow> Some f)"
    by blast
  have "put_feature (ff_Key f) f c = Some ?c1" using m by (simp add: put_feature_def)
  moreover have "gm_get (features_of ?c1) k = (if k = ff_Key f then Some f else gm_get (features_of c) k)" for k
    using m by (simp add: features_of_def)
  ultimately show ?case using c' by (auto simp: find_append split: option.split)
qed simp

section \<open>The life of a stream\<close>

text \<open>
  Times are nanoseconds. A stream is the list of its lines with the time each is read; \<open>t0\<close> is
  when the watchdog starts, which also counts as activity, and \<open>ticks\<close> are the times its
  ticker fires. \<open>watchdog\<close> is the time at which it cancels the request, if it does.
\<close>

definition Unix :: "int \<Rightarrow> int" where "Unix t = t div Second"

definition last_activity :: "int \<Rightarrow> int list \<Rightarrow> int \<Rightarrow> int" where
  "last_activity t0 acts now = fold max (filter (\<lambda>a. a \<le> now) acts) t0"

definition heartbeat_timeout :: "int \<Rightarrow> int \<Rightarrow> bool" where
  "heartbeat_timeout now prev \<longleftrightarrow> Unix now - Unix prev > 25"

definition watchdog :: "int \<Rightarrow> int list \<Rightarrow> int list \<Rightarrow> int option" where
  "watchdog t0 acts ticks = find (\<lambda>now. heartbeat_timeout now (last_activity t0 acts now)) ticks"

definition watchdog_ticks :: "int \<Rightarrow> nat \<Rightarrow> int list" where
  "watchdog_ticks t0 n = map (\<lambda>k. t0 + (int k + 1) * (5 * Second)) [0..<n]"

text \<open>
  \<open>Client.Timeout\<close> runs from the sending of the request to the end of the body; zero is none.
\<close>

definition client_deadline :: "MizuClient \<Rightarrow> int \<Rightarrow> int option" where
  "client_deadline c sent = (if mc_Timeout c > 0 then Some (sent + mc_Timeout c) else None)"

definition stream_end :: "MizuClient \<Rightarrow> int \<Rightarrow> int \<Rightarrow> int list \<Rightarrow> int list \<Rightarrow> int option" where
  "stream_end c sent t0 acts ticks =
     (case client_deadline c sent of
        None \<Rightarrow> watchdog t0 acts ticks
      | Some d \<Rightarrow> (case watchdog t0 acts ticks of None \<Rightarrow> Some d | Some w \<Rightarrow> Some (min d w)))"

text \<open>The lines the scanner gets before the stream ends.\<close>

definition stream_read :: "MizuClient \<Rightarrow> int \<Rightarrow> int \<Rightarrow> (int \<times> string) list \<Rightarrow> int list \<Rightarrow> string list" where
  "stream_read c sent t0 lines ticks =
     (case stream_end c sent t0 (map fst lines) ticks of
        None \<Rightarrow> map snd lines
      | Some e \<Rightarrow> map snd (takeWhile (\<lambda>(t, line). t < e) lines))"

lemma fold_max_bounds: "(\<forall>x \<in> set xs. x \<le> b) \<Longrightarrow> a \<le> b \<Longrightarrow> fold max xs a \<le> (b :: int)" "a \<le> fold max xs (a :: int)"
  by (induction xs arbitrary: a) (auto intro: order_trans [OF max.cobounded2])

lemma Unix_diff: "25 < Unix now - Unix prev \<Longrightarrow> 25 * Second < now - prev" "26 * Second \<le> now - prev \<Longrightarrow> 25 < Unix now - Unix prev"
  by (simp_all add: Unix_def Second_def)

lemma watchdog_SomeD: "watchdog t0 acts ticks = Some t \<Longrightarrow> t \<in> set ticks \<and> 25 * Second < t - last_activity t0 acts t"
  by (auto simp: watchdog_def find_Some_iff heartbeat_timeout_def dest!: Unix_diff(1))

lemma find_sorted:
  "sorted xs \<Longrightarrow> x \<in> set xs \<Longrightarrow> P x \<Longrightarrow> \<exists>y. find P xs = Some y \<and> y \<le> x"
  by (induction xs) auto

lemma sorted_ticks: "sorted (watchdog_ticks t0 n)"
  by (auto simp: watchdog_ticks_def sorted_iff_nth_mono Second_def)

text \<open>A tick falls into every five seconds.\<close>

lemma tick_exists:
  assumes "t0 < b" "b + 5 * Second \<le> t0 + int n * (5 * Second)"
  shows "\<exists>t \<in> set (watchdog_ticks t0 n). b \<le> t \<and> t < b + 5 * Second"
proof -
  define k where "k = (b - t0 - 1) div (5 * Second)"
  have k: "0 \<le> k" "k * (5 * Second) \<le> b - t0 - 1" "b - t0 - 1 < (k + 1) * (5 * Second)"
    using assms(1) by (simp_all add: k_def Second_def)
  then have "k < int n" using assms by (simp add: Second_def)
  then have "t0 + (k + 1) * (5 * Second) \<in> set (watchdog_ticks t0 n)"
    using k(1) by (auto simp: watchdog_ticks_def image_iff intro!: bexI [of _ "nat k"])
  with k show ?thesis by (intro bexI) (auto simp: Second_def)
qed

lemma watchdog_cancels:
  assumes "t0 \<le> a" "\<forall>x \<in> set acts. x \<le> a \<or> a + 31 * Second < x" "a + 31 * Second \<le> t0 + int n * (5 * Second)"
  shows "\<exists>t. watchdog t0 acts (watchdog_ticks t0 n) = Some t \<and> t \<le> a + 31 * Second"
proof -
  obtain t where t: "t \<in> set (watchdog_ticks t0 n)" "a + 26 * Second \<le> t" "t < a + 31 * Second"
    using tick_exists [of t0 "a + 26 * Second" n] assms(1,3) by (auto simp: Second_def)
  have "last_activity t0 acts t \<le> a"
    unfolding last_activity_def using assms(1,2) t(3) by (intro fold_max_bounds(1)) auto
  then have "heartbeat_timeout t (last_activity t0 acts t)"
    using t(2) unfolding heartbeat_timeout_def by (intro Unix_diff(2)) linarith
  with find_sorted [OF sorted_ticks t(1)] t(3) show ?thesis unfolding watchdog_def by fastforce
qed

lemma watchdog_quiet: "\<forall>t \<in> set ticks. t - last_activity t0 acts t \<le> 25 * Second \<Longrightarrow> watchdog t0 acts ticks = None"
  using watchdog_SomeD [of t0 acts ticks] by (cases "watchdog t0 acts ticks") force+

section \<open>Properties\<close>

text \<open>
  C10. The cache file is never behind for good. Let the snapshot loop start asleep with a dirty
  state or a file that holds the state. Then whenever it sleeps again and neither the state
  is dirty nor the last attempt failed, the file holds the state of that moment, whatever
  updates and fetches came between the claim of the flag, the encoding and the writing.
\<close>

theorem cache_file_current:
  assumes "sdk_step\<^sup>*\<^sup>* s0 s" "sk_pc s0 = Sleeping"
    and "mc_isDirty (sk_client s0) \<or> sk_files s0 (mc_cacheFile (sk_client s0)) = Some (snapshot_bytes (sk_client s0))"
    and "sk_pc s = Sleeping" "\<not> mc_isDirty (sk_client s)" "\<not> sk_failed s"
  shows "sk_files s (mc_cacheFile (sk_client s)) = Some (snapshot_bytes (sk_client s))"
proof -
  have "sdk_inv s0" using assms(2,3) by (auto simp: sdk_inv_def holds_state_def)
  then have "sdk_inv s" using assms(1) by (rule sdk_steps_inv [rotated])
  with assms(4-6) show ?thesis by (simp add: sdk_inv_def holds_state_def)
qed

text \<open>
  C9. A crash loses no more than the last changes. Whenever the process dies, in the middle of
  writing the file or not, a client started on the files as they are finds the cache file
  as it was at the start, or loads the features and the revision of a state that the
  dead one really had.
\<close>

theorem cache_file_recovers:
  assumes "sdk_step\<^sup>*\<^sup>* s0 s" "sk_pc s0 = Sleeping" "client_typed (sk_client s0)"
    and "mc_cacheFile c0 = mc_cacheFile (sk_client s0)"
  shows "sk_files s (mc_cacheFile c0) = sk_files s0 (mc_cacheFile c0) \<or>
    (\<exists>x m. sdk_step\<^sup>*\<^sup>* s0 x \<and> sdk_step\<^sup>*\<^sup>* x s \<and>
       loadSnapshot (sk_files s) c0 = (False, c0\<lparr>mc_features := m, mc_lastRev := mc_lastRev (sk_client x)\<rparr>) \<and>
       same_features m (mc_features (sk_client x)))"
proof (cases "sk_files s (mc_cacheFile c0) = sk_files s0 (mc_cacheFile c0)")
  case False
  with sdk_steps_file [OF assms(1,2)] assms(4) obtain x where x: "sdk_step\<^sup>*\<^sup>* s0 x" "sdk_step\<^sup>*\<^sup>* x s"
    "sk_files s (mc_cacheFile c0) = Some (snapshot_bytes (sk_client x))"
    by (auto simp: file_inv_def was_state_def Let_def)
  have "persistable (mc_features (sk_client x)) (mc_lastRev (sk_client x))"
    using sdk_steps_typed [OF x(1) assms(3)] by (simp add: client_typed_def)
  from snapshot_decode [OF this] x show ?thesis by (fastforce simp: loadSnapshot_def snapshot_bytes_def)
qed simp

definition dirty_start :: sdk where
  "dirty_start = \<lparr>sk_client = sample_client\<lparr>mc_isDirty := True\<rparr>, sk_files = (\<lambda>_. None), sk_pc = Sleeping, sk_failed = False\<rparr>"

text \<open>A pass of the loop with an update between the claim and the encoding.\<close>

abbreviation k_update :: string where
  "k_update \<equiv> ''{\"key\":\"k\",\"value\":\"x\",\"type\":\"string\",\"version\":1,\"revision\":7,\"action\":1}''"

lemma k_update_message: "unmarshal_message k_update = Some \<lparr>msg_Namespace = [], msg_Env = [], msg_Key = ''k'', msg_Value = ''x'',
    msg_Type = ''string'', msg_Version = 1, msg_Revision = 7, msg_Action = 1, msg_UpdatedAt = 0\<rparr>"
  by code_simp

definition k_message :: Message where "k_message = the (unmarshal_message k_update)"

abbreviation pass :: "sdk \<Rightarrow> sdk" where "pass \<equiv> snap_next Written True"

definition race_run :: "sdk" where
  "race_run = (pass ^^ 7) ((\<lambda>s. s\<lparr>sk_client := the (handleUpdate k_message (sk_client s))\<rparr>) (pass dirty_start))"

lemma pass_steps: "sdk_step\<^sup>*\<^sup>* s ((pass ^^ n) s)"
proof (induction n)
  case (Suc n)
  moreover have "sdk_step ((pass ^^ n) s) (pass ((pass ^^ n) s))" by (rule sdk_step.snapshot_loop)
  ultimately show ?case by simp
qed simp

lemma race_run_steps: "sdk_step\<^sup>*\<^sup>* dirty_start race_run"
proof -
  let ?s = "pass dirty_start"
  have "sdk_step dirty_start ?s" by (rule sdk_step.snapshot_loop)
  moreover have "handleUpdate k_message (sk_client ?s) = Some (the (handleUpdate k_message (sk_client ?s)))"
    by (simp add: k_message_def k_update_message handleUpdate_def put_feature_def snap_defs dirty_start_def sample_client_def
        NewMizuClient_def DELETE_def PUT_def)
  then have "sdk_step ?s (?s\<lparr>sk_client := the (handleUpdate k_message (sk_client ?s))\<rparr>)"
    using k_update_message by (intro sdk_step.updated [of k_update]) (simp_all add: k_message_def)
  ultimately show ?thesis
    unfolding race_run_def using pass_steps by (meson converse_rtranclp_into_rtranclp)
qed

lemma race_run_end:
  "sk_pc race_run = Sleeping" "\<not> mc_isDirty (sk_client race_run)" "\<not> sk_failed race_run"
  "mc_lastRev (sk_client race_run) = 7" "mc_cacheFile (sk_client race_run) = ''.mizu_cache.json''"
  "sk_files race_run ''.mizu_cache.json'' \<noteq> None"
  by (simp_all add: race_run_def numeral_eq_Suc snap_defs dirty_start_def sample_client_def NewMizuClient_def
      k_message_def k_update_message handleUpdate_def put_feature_def DELETE_def PUT_def)

theorem cache_file_current_witness:
  "sdk_step\<^sup>*\<^sup>* dirty_start race_run \<and> mc_lastRev (sk_client race_run) = 7 \<and>
   sk_files race_run ''.mizu_cache.json'' = Some (snapshot_bytes (sk_client race_run))"
  using cache_file_current [OF race_run_steps _ _ race_run_end(1-3)] race_run_steps race_run_end(4,5)
  by (simp add: dirty_start_def)

theorem cache_file_recovers_witness:
  "\<exists>x m. sdk_step\<^sup>*\<^sup>* dirty_start x \<and> sdk_step\<^sup>*\<^sup>* x race_run \<and>
     loadSnapshot (sk_files race_run) sample_client = (False, sample_client\<lparr>mc_features := m, mc_lastRev := mc_lastRev (sk_client x)\<rparr>) \<and>
     same_features m (mc_features (sk_client x))"
  using cache_file_recovers [OF race_run_steps, of sample_client] race_run_end(6)
  by (simp add: dirty_start_def client_typed_def persistable_def sample_client_def NewMizuClient_def is_int64_small)

text \<open>
  A failed save is forgotten: when the snapshot loop finds a dirty state and the write or
  the rename fails, the cache file keeps its old contents, the flag is already cleared, and
  no later pass of the loop does anything until the next update.
\<close>

theorem failed_save_forgotten:
  assumes "sk_pc s = Sleeping" "mc_isDirty (sk_client s)" "wr \<noteq> Written \<or> \<not> ok"
  shows "let s' = (snap_next wr ok ^^ 4) s in
    sk_files s' (mc_cacheFile (sk_client s)) = sk_files s (mc_cacheFile (sk_client s)) \<and>
    mc_features (sk_client s') = mc_features (sk_client s) \<and> mc_lastRev (sk_client s') = mc_lastRev (sk_client s) \<and>
    fold (\<lambda>(w, k). snap_next w k) passes s' = s'"
proof -
  define s' where "s' = (snap_next wr ok ^^ 4) s"
  have s': "sk_pc s' = Sleeping" "\<not> mc_isDirty (sk_client s')"
    "sk_files s' (mc_cacheFile (sk_client s)) = sk_files s (mc_cacheFile (sk_client s))"
    "mc_features (sk_client s') = mc_features (sk_client s)" "mc_lastRev (sk_client s') = mc_lastRev (sk_client s)"
    using assms unfolding s'_def by (cases wr; simp add: numeral_eq_Suc snap_defs)+
  then have "snap_next w k s' = s'" for w k by (simp add: snap_defs)
  then have "fold (\<lambda>(w, k). snap_next w k) passes s' = s'" by (induction passes) auto
  with s' show ?thesis unfolding Let_def s'_def by blast
qed

theorem failed_save_forgotten_witness:
  "let s' = (snap_next NotOpened True ^^ 4) dirty_start in
    sk_files s' ''.mizu_cache.json'' = None \<and> fold (\<lambda>(w, k). snap_next w k) [(Written, True), (Written, True)] s' = s'"
  using failed_save_forgotten [of dirty_start NotOpened True "[(Written, True), (Written, True)]"]
  by (simp add: dirty_start_def sample_client_def NewMizuClient_def Let_def)

text \<open>
  C27. How long a silent stream lives, for a client without a timeout. The watchdog cancels only
  after more than 25 seconds without a line; a stream that falls silent is cancelled within
  31 seconds, as long as the ticker runs; and a stream that is never silent for more than
  25 seconds is read to its end.
\<close>

theorem stream_lifetime:
  assumes "mc_Timeout c = 0"
  shows "(stream_end c sent t0 acts ticks = Some t \<longrightarrow> t \<in> set ticks \<and> 25 * Second < t - last_activity t0 acts t) \<and>
    (t0 \<le> a \<and> (\<forall>x \<in> set acts. x \<le> a \<or> a + 31 * Second < x) \<and> a + 31 * Second \<le> t0 + int n * (5 * Second) \<longrightarrow>
      (\<exists>t. stream_end c sent t0 acts (watchdog_ticks t0 n) = Some t \<and> t \<le> a + 31 * Second)) \<and>
    ((\<forall>t \<in> set ticks. t - last_activity t0 (map fst ls) t \<le> 25 * Second) \<longrightarrow> stream_read c sent t0 ls ticks = map snd ls)"
  using assms watchdog_SomeD [of t0 acts ticks t] watchdog_cancels [of t0 a acts n] watchdog_quiet [of ticks t0 "map fst ls"]
  by (simp_all add: stream_end_def stream_read_def client_deadline_def)

theorem stream_lifetime_witness:
  "\<exists>t. stream_end (WithHTTPClient 0 sample_client) 0 0 [3 * Second] (watchdog_ticks 0 7) = Some t \<and> t \<le> 34 * Second"
proof -
  have "mc_Timeout (WithHTTPClient 0 sample_client) = 0" by (simp add: WithHTTPClient_def)
  from stream_lifetime [OF this, of 0 0 "[3 * Second]" "[]" 0 "3 * Second" 7 "[]"] show ?thesis by (simp add: Second_def)
qed

text \<open>
  The default client cannot keep a stream. With the HTTP client that \<open>NewMizuClient\<close> makes,
  every stream ends ten seconds after its request was sent, whatever the server sends and
  whatever the watchdog does: a line that arrives later is never read, and neither is the
  first heartbeat of a server that pings every fifteen seconds.
\<close>

theorem default_timeout_cuts:
  fixes addr env apiKey :: string and nss :: "string list"
  assumes "sent \<le> t0"
  defines "c \<equiv> NewMizuClient addr env apiKey nss []"
  shows "stream_end c sent t0 acts ticks = Some (sent + 10 * Second) \<and>
    stream_read c sent t0 ls ticks = map snd (takeWhile (\<lambda>(t, line). t < sent + 10 * Second) ls)"
proof -
  have d: "client_deadline c sent = Some (sent + 10 * Second)"
    by (simp add: c_def NewMizuClient_def client_deadline_def Second_def)
  have "sent + 10 * Second \<le> w" if "watchdog t0 xs ticks = Some w" for w xs
  proof -
    have "t0 \<le> last_activity t0 xs w" by (simp add: last_activity_def fold_max_bounds)
    with watchdog_SomeD [OF that] assms(1) show ?thesis by (simp add: Second_def)
  qed
  then have "stream_end c sent t0 xs ticks = Some (sent + 10 * Second)" for xs
    unfolding stream_end_def d by (auto simp: min_def split: option.splits)
  then show ?thesis by (simp add: stream_read_def)
qed

theorem default_timeout_cuts_witness:
  "stream_read sample_client 0 0 [(2 * Second, ''a''), (15 * Second, ''event:ping'')] (watchdog_ticks 0 7) = [''a'']"
  using default_timeout_cuts [of 0 0 "''http://h''" "''prod''" "''k''" "[''a'']" "[]" "watchdog_ticks 0 7"
      "[(2 * Second, ''a''), (15 * Second, ''event:ping'')]"]
  by (simp add: sample_client_def Second_def)

text \<open>
  What a fetch does to the flags: it succeeds on every body that decodes, whatever the
  status of the answer, takes over the revision of the body, and overlays the flags of the
  body on those the client has: a flag the body does not mention stays as it was. So a
  flag that was deleted while the client was away is served for ever, the reset that
  should repair the client included.
\<close>

theorem fetch_overlays:
  assumes "client_ok c" "net (snapshot_url c) (mc_apiKey c) n = (Body b, n1)" "decode_response b = Some res"
  shows "\<exists>c'. fetchAll net c n = Some (False, c', n1) \<and> client_ok c' \<and>
    mc_lastRev c' = sr_Revision res \<and> mc_isDirty c' \<and>
    (\<forall>k. gm_get (features_of c') k =
      (case find (\<lambda>f. ff_Key f = k) (rev (sr_Data res)) of None \<Rightarrow> gm_get (features_of c) k | Some f \<Rightarrow> Some f))"
proof -
  obtain c1 where c1: "fold_opt (\<lambda>f. put_feature (ff_Key f) f) (sr_Data res) c = Some c1" "client_ok c1"
    "\<forall>k. gm_get (features_of c1) k =
      (case find (\<lambda>f. ff_Key f = k) (rev (sr_Data res)) of None \<Rightarrow> gm_get (features_of c) k | Some f \<Rightarrow> Some f)"
    using put_features_get [OF assms(1)] by blast
  then show ?thesis using assms(2,3)
    by (simp add: fetchAll_def store_response_def client_ok_def features_of_def)
qed

definition two_flags :: MizuClient where
  "two_flags = sample_client\<lparr>mc_features := Some [(''k'', zero_flag\<lparr>ff_Key := ''k''\<rparr>), (''gone'', zero_flag\<lparr>ff_Key := ''gone''\<rparr>)], mc_lastRev := 3\<rparr>"

theorem fetch_overlays_witness:
  "\<exists>c'. fetchAll (\<lambda>url key n. (Body ''{\"data\":[{\"key\":\"k\",\"value\":\"on\"}],\"revision\":9}'', n)) two_flags () = Some (False, c', ()) \<and>
     mc_lastRev c' = 9 \<and> map_option ff_Value (gm_get (features_of c') ''k'') = Some ''on'' \<and>
     gm_get (features_of c') ''gone'' = Some (zero_flag\<lparr>ff_Key := ''gone''\<rparr>)"
proof -
  let ?b = "''{\"data\":[{\"key\":\"k\",\"value\":\"on\"}],\"revision\":9}''"
  have d: "decode_response ?b = Some \<lparr>sr_Data = [zero_flag\<lparr>ff_Key := ''k'', ff_Value := ''on''\<rparr>], sr_Revision = 9\<rparr>" by code_simp
  have ok: "client_ok two_flags" by (simp add: client_ok_def two_flags_def gm_wf_def)
  show ?thesis
    using fetch_overlays [OF ok _ d, of "\<lambda>url key n. (Body ?b, n)" "()"]
    by (auto simp: two_flags_def features_of_def)
qed

end
