(* ===== verification/Flag_Typing.thy ===== *)
theory Flag_Typing
  imports Delivery Sdk_Facts
begin

text \<open>
  The types of flags. \<open>validatePayload\<close> is a type checker: it accepts a value for a type. The
  first half shows that nothing else gets into the master table, the outbox or the jobs of
  \<open>syncToEtcd\<close>; the second that a client whose flags were accepted reads each through the
  getter of its type without falling back to a default. At the end, what is not kept: a
  rollback across a change of type.
\<close>

section \<open>The server\<close>

definition value_ok :: "string \<Rightarrow> string \<Rightarrow> bool" where
  "value_ok t v \<longleftrightarrow> validatePayload t v = None"

definition flag_accepted :: "FeatureFlag \<Rightarrow> bool" where
  "flag_accepted f \<longleftrightarrow> value_ok (ff_Type f) (ff_Value f)"

definition typed_db :: "tables \<Rightarrow> bool" where
  "typed_db t \<longleftrightarrow>
     (\<forall>m \<in> set (tb_masters t). value_ok (fm_Type m) (fm_CurrentVal m)) \<and>
     (\<forall>p \<in> ot_Payload ` set (tb_tasks t). \<exists>f. p = ToJSON f \<and> flag_accepted f)"

lemma put_master_subset: "set (put_master m ms) \<subseteq> insert m (set ms)"
  by (auto simp: put_master_def)

lemma typed_db_put:
  assumes "typed_db t" "value_ok (fm_Type m) (fm_CurrentVal m)"
  shows "typed_db (t\<lparr>tb_masters := put_master m (tb_masters t)\<rparr>)"
  using assms put_master_subset [of m "tb_masters t"] by (auto simp: typed_db_def)

lemma typed_db_task:
  "typed_db t \<Longrightarrow> flag_accepted f \<Longrightarrow> ot_Payload k = ToJSON f \<Longrightarrow> typed_db (t\<lparr>tb_tasks := tb_tasks t @ [k]\<rparr>)"
  by (auto simp: typed_db_def)

lemma typed_db_audits [simp]: "typed_db (t\<lparr>tb_audits := x\<rparr>) = typed_db t"
  by (simp add: typed_db_def)

lemma same_tasks_typed: "same_tasks a b \<Longrightarrow> typed_db b = typed_db a"
proof -
  assume s: "same_tasks a b"
  then have "map snd (map (\<lambda>k. (ot_ID k, ot_Payload k)) (tb_tasks b)) = map snd (map (\<lambda>k. (ot_ID k, ot_Payload k)) (tb_tasks a))"
    by (simp only: same_tasks_def)
  then have "ot_Payload ` set (tb_tasks b) = ot_Payload ` set (tb_tasks a)"
    by (metis (no_types, lifting) comp_apply list.map_comp list.set_map map_eq_conv snd_conv)
  with s show ?thesis by (simp add: typed_db_def same_tasks_def)
qed

lemma next_master_typed: "next_master flag m = (master, old) \<Longrightarrow> fm_Type master = ff_Type flag \<and> fm_CurrentVal master = ff_Value flag"
  by (auto simp: next_master_def split: option.splits)

lemma save_rows_typed:
  assumes ok: "db_ok coll g view base" and run: "save_rows g flag operator traceID m d1 = (r, d')"
    and typed: "typed_db (view d1)" "flag_accepted flag"
  shows "base d' = base d1 \<and> typed_db (view d') \<and> (\<forall>v oid f. r = Inr (v, oid, f) \<longrightarrow> flag_accepted f)"
proof -
  obtain master old where nm: "next_master flag m = (master, old)" by (rule prod.exhaust)
  obtain rs d2 where s: "go_SaveMaster g master d1 = (rs, d2)" by (rule prod.exhaust)
  have S: "base d2 = base d1 \<and> typed_db (view d2)"
    using db_save_master [OF ok s] typed next_master_typed [OF nm]
    by (auto simp: stored_master_def flag_accepted_def intro!: typed_db_put split: sum.splits)
  obtain ra d3 where a: "go_CreateAudit g (new_audit flag old operator traceID) d2 = (ra, d3)" by (rule prod.exhaust)
  have A: "base d3 = base d1 \<and> typed_db (view d3)"
    using db_create_audit [OF ok a] S by (auto split: sum.splits)
  let ?f = "flag\<lparr>ff_Version := fm_Version master\<rparr>"
  have f: "flag_accepted ?f" using typed(2) by (simp add: flag_accepted_def)
  obtain rt d4 where t: "go_CreateTask g (new_task ?f traceID) d3 = (rt, d4)" by (rule prod.exhaust)
  have T: "base d4 = base d1 \<and> typed_db (view d4)"
    using db_create_task [OF ok t] A f
    by (auto simp: stored_task_def new_task_def intro!: typed_db_task split: sum.splits)
  show ?thesis
    using run nm s a t A T f
    by (auto simp: save_rows_def SaveMaster_def CreateAudit_def CreateTask_def Let_def split: sum.splits)
qed

lemma save_body_typed:
  assumes ok: "db_ok coll g view base" and run: "save_body g flag operator traceID d1 = (r, d')"
    and typed: "typed_db (view d1)" "flag_accepted flag"
  shows "base d' = base d1 \<and> typed_db (view d') \<and> (\<forall>v oid f. r = Inr (v, oid, f) \<longrightarrow> flag_accepted f)"
proof -
  obtain rm d2 where m: "GetByKey g (ff_Namespace flag) (ff_Env flag) (ff_Key flag) d1 = (rm, d2)" by (rule prod.exhaust)
  have M: "view d2 = view d1" "base d2 = base d1" using GetByKey_ok [OF ok m] by simp_all
  show ?thesis
    using run m M typed save_rows_typed [OF ok, of flag operator traceID _ d2]
    by (auto simp: save_body_def split: sum.splits)
qed

definition jobs_accepted :: "(int \<times> FeatureFlag) list \<Rightarrow> bool" where
  "jobs_accepted js \<longleftrightarrow> (\<forall>(i, f) \<in> set js. flag_accepted f)"

lemma SaveFeature_typed:
  assumes ok: "db_ok coll g view base" and run: "SaveFeature g flag operator traceID d = (r, job, d')"
    and typed: "typed_db (view d)"
  shows "typed_db (view d') \<and> jobs_accepted (started job)"
proof (cases "validatePayload (ff_Type flag) (ff_Value flag)")
  case (Some e)
  with run typed show ?thesis by (auto simp: SaveFeature_def started_def jobs_accepted_def)
next
  case None
  then have f: "flag_accepted flag" by (simp add: flag_accepted_def value_ok_def)
  obtain rx dx where x: "Transaction g (save_body g flag operator traceID) id d = (rx, dx)" by (rule prod.exhaust)
  have res: "job = (case rx of Inl e \<Rightarrow> None | Inr (v, oid, f) \<Rightarrow> Some (oid, f))" "d' = dx"
    using run None x by (auto simp: SaveFeature_def split: sum.splits)
  from ok x show ?thesis
  proof (cases rule: Transaction_cases)
    case (no_begin e)
    with res typed show ?thesis by (simp add: started_def jobs_accepted_def)
  next
    case (rolled_back d1 e d2)
    with save_body_typed [OF ok rolled_back(3) _ f] res typed show ?thesis by (simp add: started_def jobs_accepted_def)
  next
    case (committed d1 a d2)
    with save_body_typed [OF ok committed(3) _ f] res typed show ?thesis
      by (cases a) (auto simp: started_def jobs_accepted_def)
  next
    case (unknown d1 a d2 e)
    with save_body_typed [OF ok unknown(3) _ f] res typed show ?thesis by (auto simp: started_def jobs_accepted_def)
  qed
qed

lemma RollbackFeature_typed:
  assumes ok: "db_ok coll g view base"
    and run: "RollbackFeature g namespace env key auditID operator traceID d = (r, job, d')" and typed: "typed_db (view d)"
  shows "typed_db (view d') \<and> jobs_accepted (started job)"
proof -
  obtain ra d1 where a: "go_FirstAudit g (where_q [IdIs auditID]) d = (ra, d1)" by (rule prod.exhaust)
  note A = db_first_audit [OF ok a]
  obtain rm d2 where m: "GetByKey g namespace env key d1 = (rm, d2)" by (rule prod.exhaust)
  note M = GetByKey_ok [OF ok m]
  have "job = None \<and> view d' = view d \<or> (\<exists>fl. SaveFeature g fl operator traceID d2 = (r, job, d'))"
    using run a m A M by (auto simp: RollbackFeature_def FindByID_def Let_def split: sum.splits if_splits)
  then show ?thesis
  proof (elim disjE exE)
    fix fl assume "SaveFeature g fl operator traceID d2 = (r, job, d')"
    from SaveFeature_typed [OF ok this] A M typed show ?thesis by simp
  qed (use typed in \<open>simp add: started_def jobs_accepted_def\<close>)
qed

definition typed_system :: "('d \<Rightarrow> tables) \<Rightarrow> ('e, 'd) system \<Rightarrow> bool" where
  "typed_system view s \<longleftrightarrow> typed_db (view (sy_db s)) \<and> jobs_accepted (sy_jobs s)"

lemma jobs_accepted_simps [simp]:
  "jobs_accepted []" "jobs_accepted (xs @ ys) \<longleftrightarrow> jobs_accepted xs \<and> jobs_accepted ys"
  by (auto simp: jobs_accepted_def)

lemma jobs_accepted_remove: "jobs_accepted js \<Longrightarrow> jobs_accepted (remove1 j js)"
  unfolding jobs_accepted_def using set_remove1_subset [of j js] by blast

lemma system_step_typed [inv_intros]:
  assumes ok: "db_ok coll g view base"
  shows "system_step h g view s s' \<Longrightarrow> system_inv h view s \<Longrightarrow> typed_system view s \<Longrightarrow> typed_system view s'"
proof (induction rule: system_step.induct)
  case (save flag operator traceID s r job d')
  with SaveFeature_typed [OF ok save.hyps(1)] show ?case by (simp add: typed_system_def)
next
  case (rollback namespace env key auditID operator traceID s r job d')
  with RollbackFeature_typed [OF ok rollback.hyps(1)] show ?case by (simp add: typed_system_def)
next
  case (sync i f s e' d')
  have "d' = sy_db s \<or> d' = snd (UpdateStatus g i StatusCompleted 0 (sy_db s))"
    using sync.hyps(2) by (auto simp: syncToEtcd_def split: prod.splits sum.splits)
  then have "same_tasks (view (sy_db s)) (view d')" using UpdateStatus_same [OF ok] by auto
  with same_tasks_typed sync.prems show ?case by (auto simp: typed_system_def intro: jobs_accepted_remove)
next
  case (worker s e' d')
  then have "system_ok h view (sy_etcd s, sy_db s)" by (simp add: system_inv_def)
  from processPending_ok [OF ok this worker.hyps] same_tasks_typed worker.prems show ?case by (auto simp: typed_system_def)
qed (simp_all add: typed_system_def)

lemma system_steps_typed:
  assumes ok: "db_ok coll g view base" and run: "(system_step h g view)\<^sup>*\<^sup>* s s'"
    and inv: "system_inv h view s" "typed_system view s"
  shows "typed_system view s'"
  using run
proof (induction rule: rtranclp_induct)
  case (step y z)
  with system_step_typed [OF ok] system_steps_inv [OF ok step.hyps(1) inv(1)] show ?case by blast
qed (use inv in simp)

section \<open>The client\<close>

definition message_accepted :: "Message \<Rightarrow> bool" where
  "message_accepted m \<longleftrightarrow> (msg_Action m = PUT \<longrightarrow> value_ok (msg_Type m) (msg_Value m))"

definition client_accepts :: "MizuClient \<Rightarrow> bool" where
  "client_accepts c \<longleftrightarrow> (\<forall>f \<in> snd ` set (features_of c). flag_accepted f)"

lemma put_feature_accepts:
  "put_feature k f c = Some c' \<Longrightarrow> flag_accepted f \<Longrightarrow> client_accepts c \<Longrightarrow> client_accepts c'"
  using gm_put_subset [of k f "features_of c"]
  by (fastforce simp: put_feature_def client_accepts_def features_of_def split: option.splits)

lemma client_accepts_cong [simp]:
  "client_accepts (c\<lparr>mc_lastRev := r\<rparr>) = client_accepts c" "client_accepts (c\<lparr>mc_isDirty := d\<rparr>) = client_accepts c"
  by (simp_all add: client_accepts_def features_of_def)

lemma handleUpdate_accepts:
  assumes "handleUpdate m c = Some c'" "message_accepted m" "client_accepts c"
  shows "client_accepts c'"
proof -
  have "client_accepts (c\<lparr>mc_features := map_option (gm_del (msg_Key m)) (mc_features c)\<rparr>)"
    using assms(3) gm_del_subset [of "msg_Key m" "features_of c"]
    by (cases "mc_features c") (fastforce simp: client_accepts_def features_of_def)+
  moreover have "flag_accepted (message_flag m)" if "msg_Action m = PUT"
    using assms(2) that by (simp add: message_accepted_def flag_accepted_def message_flag_def)
  ultimately show ?thesis
    using assms put_feature_accepts [of "msg_Key m" "message_flag m" c]
    by (auto simp: handleUpdate_def split: if_splits)
qed

lemma store_response_accepts:
  assumes "store_response res c = Some c'" "list_all flag_accepted (sr_Data res)" "client_accepts c"
  shows "client_accepts c'"
proof -
  obtain c1 where c1: "fold_opt (\<lambda>f. put_feature (ff_Key f) f) (sr_Data res) c = Some c1"
    "c' = c1\<lparr>mc_lastRev := sr_Revision res, mc_isDirty := True\<rparr>" using assms(1) by (auto simp: store_response_def)
  have "client_accepts c1"
    by (rule fold_opt_invariant [where I = client_accepts, OF _ assms(3) c1(1)])
       (use assms(2) put_feature_accepts in \<open>auto simp: list_all_iff\<close>)
  then show ?thesis by (simp add: c1(2))
qed

lemma updates_accept:
  assumes "\<forall>m \<in> set ms. message_accepted m" "client_accepts c" "fold_opt handleUpdate ms c = Some c'"
  shows "client_accepts c'"
  by (rule fold_opt_invariant [where I = client_accepts, OF _ assms(2,3)]) (use assms(1) handleUpdate_accepts in blast)

lemma event_message_accepted:
  assumes "event_message now ev = Some m" "\<forall>f. unmarshal_flag (kv_Value (we_Kv ev)) = Some f \<longrightarrow> flag_accepted f"
  shows "message_accepted m"
  using assms by (auto simp: event_message_def message_accepted_def flag_accepted_def put_message_def delete_message_def
      PUT_def DELETE_def split: if_splits prod.splits)

text \<open>The value a getter gives for an accepted flag of its type.\<close>

lemma accepted_cases:
  assumes "value_ok t v"
  obtains (bool) "t = TypeBool" "v = ''true'' \<or> v = ''false''"
  | (number) x where "t = TypeNumber" "ParseFloat v = Inr x"
  | (strategy) st where "t = TypeStrategy" "unmarshal_strategy v = Some st" "fs_DefaultValue st \<noteq> []"
      "\<forall>r \<in> set (fs_Rules st). ru_Attribute r \<noteq> [] \<and> ru_Operator r \<noteq> []"
  | (json) j where "t = TypeJSON" "json_parse v = Some j"
  | (str) "t = TypeString"
  using assms
  by (auto simp: value_ok_def validatePayload_def json_valid_def list_ex_iff split: if_splits sum.splits option.splits)

section \<open>Properties\<close>

text \<open>
  C7. Only accepted values get in. From an empty outbox and a master table of accepted values,
  in every state that the write path reaches, with any interleaving and any failure: every
  row of the master table has a value of its type, every outbox payload is the JSON of an
  accepted flag, and so is every flag that a \<open>syncToEtcd\<close> still has to push.
\<close>

theorem write_path_typed:
  assumes "db_ok coll g view base" "handle_good h (sy_etcd s)" "tb_tasks (view (sy_db s)) = []" "sy_jobs s = []"
    and "\<forall>m \<in> set (tb_masters (view (sy_db s))). validatePayload (fm_Type m) (fm_CurrentVal m) = None"
    and "(system_step h g view)\<^sup>*\<^sup>* s s'"
  shows "(\<forall>m \<in> set (tb_masters (view (sy_db s'))). validatePayload (ff_Type (recon_flag m)) (ff_Value (recon_flag m)) = None) \<and>
    (\<forall>t \<in> set (tb_tasks (view (sy_db s'))). \<exists>f. ot_Payload t = ToJSON f \<and> validatePayload (ff_Type f) (ff_Value f) = None) \<and>
    (\<forall>(i, f) \<in> set (sy_jobs s'). validatePayload (ff_Type f) (ff_Value f) = None)"
proof -
  have "system_inv h view s"
    using assms(2-4) by (simp add: system_inv_def system_ok_def outbox_inv_def ids_ok_def jobs_ok_def)
  moreover have "typed_system view s"
    using assms(3-5) by (simp add: typed_system_def typed_db_def value_ok_def)
  ultimately have "typed_system view s'" using system_steps_typed [OF assms(1,6)] by blast
  then show ?thesis
    by (auto simp: typed_system_def typed_db_def jobs_accepted_def flag_accepted_def value_ok_def recon_flag_def)
qed

text \<open>
  C8. Well-typed flags do not go wrong. A client whose flags were accepted, after any updates
  that put accepted values, reads each flag through the getter of its type: a boolean is
  what it says, a number is the number and a JSON value decodes (the default is never used,
  an error of \<open>GetJSON\<close> is a mismatch with the target), a string is itself, and a strategy is
  evaluated, never handed out as text.
\<close>

theorem typed_reads:
  assumes "client_accepts c" "\<forall>m \<in> set ms. msg_Action m = PUT \<longrightarrow> validatePayload (msg_Type m) (msg_Value m) = None"
    and "fold_opt handleUpdate ms c = Some c'" "gm_get (features_of c') key = Some f"
  shows "(ff_Type f = TypeBool \<longrightarrow> IsEnabled key ctx c' = Some (ff_Value f = ''true'')) \<and>
    (ff_Type f = TypeNumber \<longrightarrow> (\<exists>x. ParseFloat (ff_Value f) = Inr x \<and> GetNumber key dx ctx c' = Some x)) \<and>
    (ff_Type f = TypeJSON \<longrightarrow> (\<exists>j. json_parse (ff_Value f) = Some j \<and> GetJSON key fds target ctx c' =
       Some (case decode_struct fds j target of None \<Rightarrow> Inl DecodeError | Some r \<Rightarrow> Inr r))) \<and>
    (ff_Type f = TypeString \<longrightarrow> GetString key ds ctx c' = Some (ff_Value f)) \<and>
    (ff_Type f = TypeStrategy \<longrightarrow> (\<exists>st. unmarshal_strategy (ff_Value f) = Some st \<and>
       GetString key ds ctx c' = eval_rules (fs_Rules st) ctx (fs_DefaultValue st))) \<and>
    ff_Type f \<in> {TypeBool, TypeNumber, TypeJSON, TypeString, TypeStrategy}"
proof -
  have "client_accepts c'"
    using updates_accept [OF _ assms(1,3)] assms(2) by (auto simp: message_accepted_def value_ok_def)
  moreover have "f \<in> snd ` set (features_of c')" using assms(4) by (force dest: map_of_SomeD)
  ultimately have "value_ok (ff_Type f) (ff_Value f)" by (auto simp: client_accepts_def flag_accepted_def)
  then show ?thesis
  proof (cases rule: accepted_cases)
    case (strategy st)
    then show ?thesis using assms(4)
      by (auto simp: GetString_def evaluate_def type_defs option.map_comp comp_def option.map_ident)
  qed (use assms(4) in \<open>auto simp: IsEnabled_def GetNumber_def GetJSON_def GetString_def evaluate_def unmarshal_def type_defs
      split: option.splits\<close>)
qed

text \<open>
  C39. A rollback across a change of type takes the old value with the new type: the audit
  record of a save has the type that was saved, not the one that was replaced. Rolling that
  save back fails when the old value is not of the new type; when it succeeds, and the
  database does not refuse the write of the master record, it leaves the old value under
  the new type.
\<close>

theorem rollback_keeps_new_type:
  assumes "db_ok coll g view base" "rows_wf coll (view d)" "ff_Namespace flag \<noteq> []" "ff_Env flag \<noteq> []"
    and "features coll (view d) (flag_id coll flag) = Some (v0, oldType, old)"
    and "SaveFeature g flag operator traceID d = (Inr v, job, d1)"
    and "RollbackFeature g (ff_Namespace flag) (ff_Env flag) (ff_Key flag) (fa_ID (last (tb_audits (view d1)))) op2 tr2 d1 = (r, job2, d2)"
  shows "(validatePayload (ff_Type flag) old \<noteq> None \<longrightarrow> \<not> is_ok r \<and> view d2 = view d1) \<and>
    (\<forall>v2. master_writes g \<and> r = Inr v2 \<longrightarrow> features coll (view d2) (flag_id coll flag) = Some (v2, ff_Type flag, old))"
proof -
  have eff: "save_effect coll flag operator traceID (view d) (view d1) v \<or>
      save_dropped coll g view flag operator traceID (view d) (view d1) v"
    using SaveFeature_outcome [OF assms(1,6)] by auto
  from save_refines [OF assms(2-4) eff] have wf1: "rows_wf coll (view d1)" by blast
  from save_audits [OF assms(2-4) eff] obtain a where a: "tb_audits (view d1) = tb_audits (view d) @ [a]"
    "\<forall>x \<in> set (tb_audits (view d)). fa_ID x < fa_ID a" "fa_Type a = ff_Type flag" "fa_OldValue a = old"
    using assms(5) by auto
  then have au: "last (tb_audits (view d1)) = a" "fa_OldValue a = old" "fa_Type a = ff_Type flag" by simp_all
  have uniq: "b = a" if "b \<in> set (tb_audits (view d1))" "fa_ID b = fa_ID a" for b
    using a that by auto
  from RollbackFeature_outcome [OF assms(1,7)]
  consider (same) "\<not> is_ok r" "view d2 = view d1"
    | (saved) fl v' where "ff_Namespace fl = ff_Namespace flag" "ff_Env fl = ff_Env flag" "ff_Key fl = ff_Key flag"
        "ff_Value fl = old" "ff_Type fl = ff_Type flag" "validatePayload (ff_Type flag) old = None"
        "save_effect coll fl op2 tr2 (view d1) (view d2) v' \<or> save_dropped coll g view fl op2 tr2 (view d1) (view d2) v'"
        "r = Inr v' \<or> \<not> is_ok r"
    unfolding au(1) using uniq au(2,3) by (fastforce simp del: is_ok.simps simp: is_ok.simps(1))
  then show ?thesis
  proof cases
    case (saved fl v')
    have "flag_id coll fl = flag_id coll flag" using saved by (simp add: flag_id_def)
    with save_effect_refines [OF wf1, of fl op2 tr2 _ v'] saved assms(3,4)
      not_dropped [of g coll view fl op2 tr2 "view d1" "view d2" v'] show ?thesis by auto
  qed auto
qed

theorem write_path_typed_witness:
  "\<exists>s' t f. (system_step mem_handle (mem_gorm id) md_tables)\<^sup>*\<^sup>* empty_system s' \<and>
     tb_tasks (md_tables (sy_db s')) = [t] \<and> ot_Payload t = ToJSON f \<and> validatePayload (ff_Type f) (ff_Value f) = None"
proof -
  obtain s' t where s: "(system_step mem_handle (mem_gorm id) md_tables)\<^sup>*\<^sup>* empty_system s'" "tb_tasks (md_tables (sy_db s')) = [t]"
    using first_sync by blast
  have g: "handle_good mem_handle (sy_etcd empty_system)" "tb_tasks (md_tables (sy_db empty_system)) = []"
    "sy_jobs empty_system = []" "tb_masters (md_tables (sy_db empty_system)) = []"
    by (simp_all add: empty_system_def mem_handle_good Let_def)
  have "\<forall>m \<in> set (tb_masters (md_tables (sy_db empty_system))). validatePayload (fm_Type m) (fm_CurrentVal m) = None"
    by (simp add: g(4))
  from write_path_typed [OF mem_db_ok g(1-3) this s(1)] s show ?thesis by auto
qed

definition bool_put :: Message where
  "bool_put = (put_msg ''k'' ''true'' 1)\<lparr>msg_Type := TypeBool\<rparr>"

theorem typed_reads_witness:
  "\<exists>c'. fold_opt handleUpdate [bool_put] sample_client = Some c' \<and> IsEnabled ''k'' [] c' = Some True"
proof -
  define c' where "c' = sample_client\<lparr>mc_features := Some [(''k'', message_flag bool_put)], mc_lastRev := 1, mc_isDirty := True\<rparr>"
  have run: "fold_opt handleUpdate [bool_put] sample_client = Some c'"
    by (simp add: c'_def bool_put_def put_msg_def handleUpdate_def put_feature_def sample_client_def NewMizuClient_def DELETE_def PUT_def)
  have acc: "client_accepts sample_client" by (simp add: client_accepts_def sample_client_def NewMizuClient_def features_of_def)
  have msgs: "\<forall>m \<in> set [bool_put]. msg_Action m = PUT \<longrightarrow> validatePayload (msg_Type m) (msg_Value m) = None"
    by (simp add: bool_put_def put_msg_def validatePayload_def)
  have f: "gm_get (features_of c') ''k'' = Some (message_flag bool_put)" by (simp add: c'_def features_of_def)
  have t: "ff_Type (message_flag bool_put) = TypeBool" "ff_Value (message_flag bool_put) = ''true''"
    by (simp_all add: message_flag_def bool_put_def put_msg_def)
  have "IsEnabled ''k'' [] c' = Some True" using typed_reads [OF acc msgs run f, THEN conjunct1, of "[]"] unfolding t by simp
  with run show ?thesis by blast
qed

text \<open>A string turned into a boolean, and the save of that rolled back.\<close>

theorem rollback_keeps_new_type_witness:
  "\<exists>job d1 r job2 d2. SaveFeature (mem_gorm id) ((flag_of ''true'')\<lparr>ff_Type := TypeBool\<rparr>) ''op'' [] sample_db = (Inr 4, job, d1) \<and>
     RollbackFeature (mem_gorm id) ''a'' ''prod'' ''k'' (fa_ID (last (tb_audits (md_tables d1)))) ''op'' [] d1 = (r, job2, d2) \<and>
     \<not> is_ok r \<and> md_tables d2 = md_tables d1"
proof -
  let ?f = "(flag_of ''true'')\<lparr>ff_Type := TypeBool\<rparr>"
  have ids: "ff_Namespace ?f = ''a''" "ff_Env ?f = ''prod''" "ff_Key ?f = ''k''" "ff_Type ?f = TypeBool" by (simp_all add: flag_of_def)
  have "\<exists>job d1. SaveFeature (mem_gorm id) ?f ''op'' [] sample_db = (Inr 4, job, d1)"
    by (simp add: mem_run_defs sample_defs flag_of_def zero_flag_def is_int64_small validatePayload_def)
  then obtain job d1 where sv: "SaveFeature (mem_gorm id) ?f ''op'' [] sample_db = (Inr 4, job, d1)" by blast
  obtain r job2 d2 where rb: "RollbackFeature (mem_gorm id) (ff_Namespace ?f) (ff_Env ?f) (ff_Key ?f)
      (fa_ID (last (tb_audits (md_tables d1)))) ''op'' [] d1 = (r, job2, d2)" by (meson prod_cases3)
  have old: "features id (md_tables sample_db) (flag_id id ?f) = Some (3, ''string'', ''v3'')"
    by (simp add: features_def row_id_def row_value_def flag_id_def sample_defs Let_def flag_of_def)
  have ne: "ff_Namespace ?f \<noteq> []" "ff_Env ?f \<noteq> []" by (simp_all add: ids)
  from rollback_keeps_new_type [OF mem_db_ok sample_rows_wf ne old sv rb] sv rb show ?thesis
    unfolding ids by (auto simp: validatePayload_def)
qed

end
