(* ===== verification/Metrics.thy ===== *)
theory Metrics
  imports Feature_Hub
begin

text \<open>
  \<open>internal/metrics\<close>: the interface through which the hub reports, and the observer that
  keeps it in Prometheus metrics. The Prometheus client is not part of the program: it is
  a record of the calls the observer makes on named metrics, over a state of any type, and
  \<open>prom_ok\<close> states what they do. Gauges and counters are integers here (the library's doubles
  are exact up to \<open>2 ^ 53\<close>); a histogram is its number of observations.
\<close>

section \<open>internal/metrics/prometheus.go\<close>

record 'm prometheus =
  pr_Inc :: "string \<Rightarrow> 'm \<Rightarrow> 'm"
  pr_Dec :: "string \<Rightarrow> 'm \<Rightarrow> 'm"
  pr_Set :: "string \<Rightarrow> int \<Rightarrow> 'm \<Rightarrow> 'm"
  pr_Observe :: "string \<Rightarrow> 'm \<Rightarrow> 'm"

definition onlineGauge :: string where "onlineGauge = ''mizuflow_online_clients''"
definition pushCounter :: string where "pushCounter = ''mizuflow_push_total''"
definition pushLatency :: string where "pushLatency = ''mizuflow_push_latency_seconds''"
definition eventLag :: string where "eventLag = ''mizuflow_event_lag''"

lemmas metric_names = onlineGauge_def pushCounter_def pushLatency_def eventLag_def

text \<open>The interface \<open>HubObserver\<close> as a record of its methods.\<close>

record 'm HubObserver =
  ho_IncOnline :: "'m \<Rightarrow> 'm"
  ho_DecOnline :: "'m \<Rightarrow> 'm"
  ho_RecordPush :: "'m \<Rightarrow> 'm"
  ho_ObservePushLatency :: "'m \<Rightarrow> 'm"
  ho_UpdateEventLag :: "int \<Rightarrow> 'm \<Rightarrow> 'm"

text \<open>The struct \<open>prometheusObserver\<close>: the metrics it moves, and its methods.\<close>

record prometheusObserver =
  po_onlineGauge :: string
  po_pushCounter :: string
  po_pushLatency :: string
  po_eventLag :: string

definition observer_methods :: "'m prometheus \<Rightarrow> prometheusObserver \<Rightarrow> 'm HubObserver" where
  "observer_methods p po =
     \<lparr>ho_IncOnline = pr_Inc p (po_onlineGauge po),
      ho_DecOnline = pr_Dec p (po_onlineGauge po),
      ho_RecordPush = pr_Inc p (po_pushCounter po),
      ho_ObservePushLatency = pr_Observe p (po_pushLatency po),
      ho_UpdateEventLag = pr_Set p (po_eventLag po)\<rparr>"

definition NewPrometheusObserver :: prometheusObserver where
  "NewPrometheusObserver =
     \<lparr>po_onlineGauge = onlineGauge, po_pushCounter = pushCounter, po_pushLatency = pushLatency, po_eventLag = eventLag\<rparr>"

abbreviation prom_observer :: "'m prometheus \<Rightarrow> 'm HubObserver" where
  "prom_observer p \<equiv> observer_methods p NewPrometheusObserver"

text \<open>A call of the hub, made on an observer.\<close>

fun notify :: "'m HubObserver \<Rightarrow> observer_call \<Rightarrow> 'm \<Rightarrow> 'm" where
  "notify obs IncOnline = ho_IncOnline obs"
| "notify obs DecOnline = ho_DecOnline obs"
| "notify obs RecordPush = ho_RecordPush obs"
| "notify obs ObservePushLatency = ho_ObservePushLatency obs"
| "notify obs (UpdateEventLag n) = ho_UpdateEventLag obs n"

definition prom_ok :: "'m prometheus \<Rightarrow> (string \<Rightarrow> 'm \<Rightarrow> int) \<Rightarrow> bool" where
  "prom_ok p val \<longleftrightarrow>
     (\<forall>x y n m. val x (pr_Inc p y m) = val x m + (if x = y then 1 else 0) \<and>
        val x (pr_Dec p y m) = val x m - (if x = y then 1 else 0) \<and>
        val x (pr_Set p y n m) = (if x = y then n else val x m) \<and>
        val x (pr_Observe p y m) = val x m + (if x = y then 1 else 0))"

section \<open>The contract of an observer\<close>

text \<open>What the hub expects of its observer: four quantities, each moved by its own calls only.\<close>

locale hub_observer =
  fixes obs :: "'m HubObserver"
    and online pushes timed lag :: "'m \<Rightarrow> int"
  assumes inc: "online (ho_IncOnline obs m) = online m + 1" "pushes (ho_IncOnline obs m) = pushes m"
      "timed (ho_IncOnline obs m) = timed m" "lag (ho_IncOnline obs m) = lag m"
    and dec: "online (ho_DecOnline obs m) = online m - 1" "pushes (ho_DecOnline obs m) = pushes m"
      "timed (ho_DecOnline obs m) = timed m" "lag (ho_DecOnline obs m) = lag m"
    and push: "online (ho_RecordPush obs m) = online m" "pushes (ho_RecordPush obs m) = pushes m + 1"
      "timed (ho_RecordPush obs m) = timed m" "lag (ho_RecordPush obs m) = lag m"
    and latency: "online (ho_ObservePushLatency obs m) = online m" "pushes (ho_ObservePushLatency obs m) = pushes m"
      "timed (ho_ObservePushLatency obs m) = timed m + 1" "lag (ho_ObservePushLatency obs m) = lag m"
    and update: "online (ho_UpdateEventLag obs n m) = online m" "pushes (ho_UpdateEventLag obs n m) = pushes m"
      "timed (ho_UpdateEventLag obs n m) = timed m" "lag (ho_UpdateEventLag obs n m) = n"
begin

lemmas laws = inc dec push latency update

lemma calls_online:
  "online (fold (notify obs) calls m) = online m + int (count_list calls IncOnline) - int (count_list calls DecOnline)"
proof (induction calls arbitrary: m)
  case (Cons call calls)
  then show ?case by (cases call) (simp_all add: laws)
qed simp

lemma calls_counts:
  "pushes (fold (notify obs) calls m) = pushes m + int (count_list calls RecordPush)"
  "timed (fold (notify obs) calls m) = timed m + int (count_list calls ObservePushLatency)"
proof (induction calls arbitrary: m)
  case (Cons call calls)
  { case 1 show ?case using Cons(1) by (cases call) (simp_all add: laws) }
  { case 2 show ?case using Cons(2) by (cases call) (simp_all add: laws) }
qed simp_all

lemma calls_lag:
  "\<forall>n. UpdateEventLag n \<in> set calls \<longrightarrow> n = k \<Longrightarrow> lag m = k \<Longrightarrow> lag (fold (notify obs) calls m) = k"
proof (induction calls arbitrary: m)
  case (Cons call calls)
  then show ?case by (cases call) (simp_all add: laws)
qed simp

end

text \<open>A Prometheus client makes such an observer.\<close>

locale prometheus_client =
  fixes p :: "'m prometheus" and val :: "string \<Rightarrow> 'm \<Rightarrow> int"
  assumes ok: "prom_ok p val"

sublocale prometheus_client \<subseteq> hub_observer "prom_observer p" "val onlineGauge" "val pushCounter"
  "val pushLatency" "val eventLag"
  by unfold_locales (use ok in \<open>simp_all add: prom_ok_def observer_methods_def NewPrometheusObserver_def metric_names\<close>)

context prometheus_client begin

lemma metrics_after:
  fixes calls :: "observer_call list"
  defines "after \<equiv> fold (notify (prom_observer p)) calls"
  shows "val onlineGauge (after m) = val onlineGauge m + int (count_list calls IncOnline) - int (count_list calls DecOnline)"
    and "val pushCounter (after m) = val pushCounter m + int (count_list calls RecordPush)"
    and "val pushLatency (after m) = val pushLatency m + int (count_list calls ObservePushLatency)"
    and "\<forall>n. UpdateEventLag n \<in> set calls \<longrightarrow> n = k \<Longrightarrow> val eventLag m = k \<Longrightarrow> val eventLag (after m) = k"
  unfolding after_def by (rule calls_online calls_counts calls_lag | assumption)+

end

text \<open>An instance: the metrics as a function.\<close>

definition mem_prom :: "(string \<Rightarrow> int) prometheus" where
  "mem_prom = \<lparr>pr_Inc = (\<lambda>x m. m(x := m x + 1)), pr_Dec = (\<lambda>x m. m(x := m x - 1)),
     pr_Set = (\<lambda>x n m. m(x := n)), pr_Observe = (\<lambda>x m. m(x := m x + 1))\<rparr>"

lemma mem_prom_ok: "prom_ok mem_prom (\<lambda>x m. m x)"
  by (simp add: prom_ok_def mem_prom_def)

interpretation mem_metrics: prometheus_client mem_prom "\<lambda>x m. m x"
  by unfold_locales (rule mem_prom_ok)

section \<open>The calls of the hub\<close>

definition is_broadcast :: "hub_event \<Rightarrow> bool" where
  "is_broadcast ev \<longleftrightarrow> (case ev of Broadcast ord m \<Rightarrow> True | _ \<Rightarrow> False)"

text \<open>Calls that move neither the counter nor the histogram, and set the lag to 0 only.\<close>

definition quiet :: "observer_call list \<Rightarrow> bool" where
  "quiet calls \<longleftrightarrow> set calls \<subseteq> {IncOnline, DecOnline, UpdateEventLag 0}"

definition adds :: "observer_call list \<Rightarrow> Hub \<Rightarrow> Hub \<Rightarrow> bool" where
  "adds calls h h' \<longleftrightarrow> (\<exists>ds. quiet ds \<and> hb_calls h' = hb_calls h @ ds @ calls)"

lemma quiet_append: "quiet (a @ b) \<longleftrightarrow> quiet a \<and> quiet b"
  by (auto simp: quiet_def)

lemma adds_refl [simp]: "adds [] h h"
  by (simp add: adds_def quiet_def exI [of _ "[]"])

lemma adds_trans: "adds [] a b \<Longrightarrow> adds calls b c \<Longrightarrow> adds calls a c"
  by (auto simp: adds_def quiet_append intro: exI)

lemma adds_same: "hb_calls h' = hb_calls h \<Longrightarrow> adds [] h h'"
  by (simp add: adds_def quiet_def)

lemma removeClient_adds: "removeClient c h = Some h' \<Longrightarrow> adds [] h h'"
  by (auto simp: removeClient_def Let_def adds_def quiet_def removeFromShards_clients_update split: if_splits)

lemma sendMessage_adds: "sendMessage m c h = Some h' \<Longrightarrow> adds [] h h'"
  by (auto simp: sendMessage_def Let_def dest: removeClient_adds intro: adds_same split: if_splits)

lemma send_all_adds: "fold_opt (sendMessage m) cs h = Some h' \<Longrightarrow> adds [] h h'"
  by (rule fold_opt_invariant [where I = "adds [] h"]) (auto intro: adds_trans sendMessage_adds)

lemma hub_step_adds:
  assumes "hub_step ev h = Some h'"
  shows "adds (if is_broadcast ev then [ObservePushLatency, RecordPush] else []) h h'"
proof (cases ev)
  case (Register c)
  then show ?thesis using assms
    by (auto simp: is_broadcast_def hub_register_def adds_def quiet_def addToShards_clients_update)
next
  case (Unregister c)
  then show ?thesis using assms
    by (auto simp: is_broadcast_def hub_unregister_def dest: removeClient_adds split: if_splits)
next
  case (Broadcast ord m)
  then obtain h1 where h1: "send_to_audience ord m h = Some h1" "h' = observe RecordPush (observe ObservePushLatency h1)"
    using assms by (auto simp: hub_broadcast_def)
  have "adds [] h h1"
    using h1(1) by (auto simp: send_to_audience_def split: option.splits dest!: send_all_adds intro: adds_trans)
  moreover have "adds [ObservePushLatency, RecordPush] h1 h'" by (simp add: h1(2) adds_def quiet_def exI [of _ "[]"])
  ultimately show ?thesis using Broadcast adds_trans by (auto simp: is_broadcast_def)
next
  case (Heartbeat ord)
  then have "adds [] (observe (UpdateEventLag broadcast_len) h) h'"
    using assms by (auto simp: hub_heartbeat_def dest: send_all_adds)
  moreover have "adds [] h (observe (UpdateEventLag broadcast_len) h)" by (auto simp: adds_def quiet_def broadcast_len_def)
  ultimately show ?thesis using Heartbeat adds_trans by (auto simp: is_broadcast_def)
next
  case (Receive c)
  then show ?thesis using assms by (auto simp: is_broadcast_def hub_receive_def adds_def quiet_def)
qed

definition pushes_counted :: "observer_call list \<Rightarrow> nat \<Rightarrow> bool" where
  "pushes_counted calls n \<longleftrightarrow> count_list calls RecordPush = n \<and> count_list calls ObservePushLatency = n \<and>
     (\<forall>k. UpdateEventLag k \<in> set calls \<longrightarrow> k = 0)"

lemma quiet_counts: "quiet ds \<Longrightarrow> count_list ds RecordPush = 0 \<and> count_list ds ObservePushLatency = 0 \<and>
    (\<forall>k. UpdateEventLag k \<in> set ds \<longrightarrow> k = 0)"
  by (auto simp: quiet_def count_list_0_iff)

lemma adds_counted:
  "adds (if b then [ObservePushLatency, RecordPush] else []) h h' \<Longrightarrow> pushes_counted (hb_calls h) n \<Longrightarrow>
   pushes_counted (hb_calls h') (n + (if b then 1 else 0))"
  by (auto simp: adds_def pushes_counted_def dest!: quiet_counts)

lemma run_counted:
  "hub_inv h \<Longrightarrow> run_ok hub_step event_ok evs h \<Longrightarrow> pushes_counted (hb_calls h) n \<Longrightarrow>
   \<exists>h'. fold_opt hub_step evs h = Some h' \<and> hub_inv h' \<and> pushes_counted (hb_calls h') (n + length (filter is_broadcast evs))"
proof (induction evs arbitrary: h n)
  case (Cons ev evs)
  then obtain h1 where h1: "hub_step ev h = Some h1" "hub_inv h1" using hub_step_safe [of h ev] by auto
  have "run_ok hub_step event_ok evs h1" using Cons.prems(2) h1(1) by simp
  from Cons.IH [OF h1(2) this adds_counted [OF hub_step_adds [OF h1(1)] Cons.prems(3)]] h1(1)
  show ?case by (auto split: if_splits)
qed simp

section \<open>Properties\<close>

text \<open>
  C28. The metrics tell the truth, but for the lag. From fresh metrics, after any run of the
  hub: the online gauge is the number of registered clients, the push counter and the
  latency histogram have counted the broadcasts, and the event lag is 0, whatever was
  waiting: the hub reports the length of a channel that has no buffer.
\<close>

theorem hub_metrics:
  assumes "prom_ok p val" "\<forall>x. val x m = 0" "run_ok hub_step event_ok evs (NewHub heap)"
  shows "\<exists>h. fold_opt hub_step evs (NewHub heap) = Some h \<and>
    (let m' = fold (notify (prom_observer p)) (hb_calls h) m in
       val ''mizuflow_online_clients'' m' = int (length (hb_clients h)) \<and>
       val ''mizuflow_push_total'' m' = int (length (filter is_broadcast evs)) \<and>
       val ''mizuflow_push_latency_seconds'' m' = int (length (filter is_broadcast evs)) \<and>
       val ''mizuflow_event_lag'' m' = 0)"
proof -
  have pc: "prometheus_client p val" using assms(1) by unfold_locales
  have "pushes_counted (hb_calls (NewHub heap)) 0" by (simp add: pushes_counted_def NewHub_def)
  from run_counted [OF hub_inv_new assms(3) this] obtain h where h: "fold_opt hub_step evs (NewHub heap) = Some h"
    "hub_inv h" "pushes_counted (hb_calls h) (length (filter is_broadcast evs))" by auto
  have "hb_online h = int (length (hb_clients h))" using h(2) by (simp add: hub_inv_def)
  with h(1,3) show ?thesis
    using prometheus_client.metrics_after(1-3) [OF pc, of "hb_calls h" m]
      prometheus_client.metrics_after(4) [OF pc, of "hb_calls h" 0 m] assms(2)
    by (simp add: Let_def metric_names pushes_counted_def hb_online_def)
qed

theorem hub_metrics_witness:
  "\<exists>h. fold_opt hub_step [Register 0, Register 1, Broadcast rev sample_message, Heartbeat id, Unregister 1] (NewHub sample_heap) = Some h \<and>
    (let m' = fold (notify (prom_observer mem_prom)) (hb_calls h) (\<lambda>_. 0) in
       m' ''mizuflow_online_clients'' = int (length (hb_clients h)) \<and> m' ''mizuflow_push_total'' = 1 \<and> m' ''mizuflow_event_lag'' = 0)"
proof -
  let ?evs = "[Register 0, Register 1, Broadcast rev sample_message, Heartbeat id, Unregister 1]"
  have "run_ok hub_step event_ok ?evs (NewHub sample_heap)"
    by (auto simp: NewHub_def sample_heap_def client_in_def hub_register_def split: option.split)
  from hub_metrics [OF mem_prom_ok _ this, of "\<lambda>_. 0"] show ?thesis by (auto simp: is_broadcast_def Let_def)
qed

end
