(* ===== verification/Logger.thy ===== *)
theory Logger
  imports Sdk_Facts
begin

text \<open>
  \<open>pkg/logger\<close>: one global zap logger, made once. zap is not part of the program: \<open>build\<close> is
  what \<open>Config.Build\<close> makes of a configuration, or nothing when it fails. A logging call on
  the nil logger, the state of a process that has not called \<open>InitLogger\<close>, is a nil
  dereference. The SDK logs through this package and never initialises it; the second half
  puts its log calls back where the code has them.
\<close>

section \<open>pkg/logger/logger.go\<close>

datatype level_encoder = LowercaseLevelEncoder | CapitalColorLevelEncoder
datatype time_encoder = EpochTimeEncoder | ISO8601TimeEncoder

text \<open>The fields of \<open>zap.Config\<close> that the code sets, on top of one of the two presets.\<close>

record zap_config =
  zc_production :: bool
  zc_TimeKey :: string
  zc_EncodeTime :: time_encoder
  zc_EncodeLevel :: level_encoder

definition NewProductionConfig :: zap_config where
  "NewProductionConfig = \<lparr>zc_production = True, zc_TimeKey = ''ts'', zc_EncodeTime = EpochTimeEncoder,
     zc_EncodeLevel = LowercaseLevelEncoder\<rparr>"

definition NewDevelopmentConfig :: zap_config where
  "NewDevelopmentConfig = \<lparr>zc_production = False, zc_TimeKey = ''T'', zc_EncodeTime = ISO8601TimeEncoder,
     zc_EncodeLevel = LowercaseLevelEncoder\<rparr>"

definition logger_config :: "string \<Rightarrow> zap_config" where
  "logger_config env =
     (if env = ''prod'' then NewProductionConfig\<lparr>zc_TimeKey := ''time'', zc_EncodeTime := ISO8601TimeEncoder\<rparr>
      else NewDevelopmentConfig\<lparr>zc_EncodeLevel := CapitalColorLevelEncoder\<rparr>)"

text \<open>The two globals: the logger, nil at first, and whether the \<open>sync.Once\<close> was used.\<close>

record 'z logger =
  lg_l :: "'z option"
  lg_once :: bool

definition no_logger :: "'z logger" where "no_logger = \<lparr>lg_l = None, lg_once = False\<rparr>"

text \<open>
  Whether the call panicked, and the globals after it: a \<open>Once\<close> counts as used when its
  function panics.
\<close>

definition InitLogger :: "(zap_config \<Rightarrow> 'z option) \<Rightarrow> string \<Rightarrow> 'z logger \<Rightarrow> bool \<times> 'z logger" where
  "InitLogger build env s =
     (if lg_once s then (False, s)
      else case build (logger_config env) of
             None \<Rightarrow> (True, s\<lparr>lg_once := True\<rparr>)
           | Some z \<Rightarrow> (False, s\<lparr>lg_l := Some z, lg_once := True\<rparr>))"

definition SetLogger :: "'z \<Rightarrow> 'z logger \<Rightarrow> 'z logger" where
  "SetLogger z s = s\<lparr>lg_l := Some z\<rparr>"

text \<open>\<open>Info\<close>, \<open>Error\<close>, \<open>Debug\<close>, \<open>Warn\<close>: the rest of the computation, or a panic.\<close>

definition logging :: "'z logger \<Rightarrow> 'a option \<Rightarrow> 'a option" where
  "logging s rest = (case lg_l s of None \<Rightarrow> None | Some z \<Rightarrow> rest)"

lemma InitLogger_set:
  "InitLogger build env s = (False, s') \<Longrightarrow> \<not> lg_once s \<Longrightarrow> lg_l s' \<noteq> None \<and> lg_once s'"
  by (auto simp: InitLogger_def split: option.splits)

lemma InitLogger_once: "lg_once s \<Longrightarrow> InitLogger build env s = (False, s)"
  by (simp add: InitLogger_def)

section \<open>The log calls of the SDK\<close>

text \<open>
  \<open>handleUpdate\<close> logs on every path before it changes anything; \<open>evaluate\<close> when the key is
  missing; \<open>fetchAll\<close> and \<open>Start\<close> when the fetch failed, before the cache file is read.
\<close>

definition logged_handleUpdate :: "'z logger \<Rightarrow> Message \<Rightarrow> MizuClient \<Rightarrow> MizuClient option" where
  "logged_handleUpdate s msg c =
     (if msg_Revision msg \<le> mc_lastRev c then logging s (Some c) else logging s (handleUpdate msg c))"

definition logged_evaluate :: "'z logger \<Rightarrow> string \<Rightarrow> eval_context \<Rightarrow> MizuClient \<Rightarrow> (string \<times> bool) option" where
  "logged_evaluate s key ctx c =
     (if gm_get (features_of c) key = None then logging s (Some ([], False)) else evaluate key ctx c)"

definition logged_fetchAll :: "'z logger \<Rightarrow> 'n network \<Rightarrow> MizuClient \<Rightarrow> 'n \<Rightarrow> (bool \<times> MizuClient \<times> 'n) option" where
  "logged_fetchAll s net c n =
     (case fetchAll net c n of
        None \<Rightarrow> None
      | Some (err, r) \<Rightarrow> if err then logging s (Some (err, r)) else Some (err, r))"

definition logged_Start :: "'z logger \<Rightarrow> 'n network \<Rightarrow> files \<Rightarrow> MizuClient \<Rightarrow> 'n \<Rightarrow> (bool \<times> MizuClient \<times> 'n) option" where
  "logged_Start s net fs c n =
     (case logged_fetchAll s net c n of
        None \<Rightarrow> None
      | Some (False, r) \<Rightarrow> Some (False, r)
      | Some (True, c1, n1) \<Rightarrow>
          logging s (case loadSnapshot fs c1 of (err, c2) \<Rightarrow>
            if err then Some (True, c2, n1) else logging s (Some (False, c2, n1))))"

section \<open>Properties\<close>

text \<open>
  C40. The SDK works in processes that have initialised the logger, and only there. After a
  first \<open>InitLogger\<close> that did not fail (whatever is called later) its operations are those
  without logging; in a process that never called it, every update panics, so does the
  evaluation of an unknown key, and so does a start without the server, which should have
  fallen back to the cache file.
\<close>

theorem sdk_needs_logger:
  fixes build :: "zap_config \<Rightarrow> 'z option"
  shows "(InitLogger build env s0 = (False, s) \<and> \<not> lg_once s0 \<longrightarrow>
      logged_handleUpdate s msg c = handleUpdate msg c \<and> logged_evaluate s key ctx c = evaluate key ctx c \<and>
      logged_Start s net fs c n = Start net fs c n \<and> InitLogger build env' s = (False, s)) \<and>
   logged_handleUpdate (no_logger :: 'z logger) msg c = None \<and>
   (gm_get (features_of c) key = None \<longrightarrow> logged_evaluate (no_logger :: 'z logger) key ctx c = None) \<and>
   (fst (net (snapshot_url c) (mc_apiKey c) n) = TransportError \<longrightarrow> logged_Start (no_logger :: 'z logger) net fs c n = None)"
proof (intro conjI impI)
  assume a: "InitLogger build env s0 = (False, s) \<and> \<not> lg_once s0"
  then obtain z where z: "lg_l s = Some z" "lg_once s" using InitLogger_set by blast
  show "logged_handleUpdate s msg c = handleUpdate msg c" "logged_evaluate s key ctx c = evaluate key ctx c"
    "InitLogger build env' s = (False, s)"
    using z by (simp_all add: logged_handleUpdate_def logging_def handleUpdate_def logged_evaluate_def evaluate_def InitLogger_once)
  show "logged_Start s net fs c n = Start net fs c n"
    using z by (auto simp: logged_Start_def logged_fetchAll_def logging_def Start_def split: option.splits prod.splits bool.splits)
qed (auto simp: logged_handleUpdate_def logged_evaluate_def logged_Start_def logged_fetchAll_def logging_def no_logger_def
    fetchAll_def split: prod.splits option.splits)

theorem sdk_needs_logger_witness:
  "logged_handleUpdate (snd (InitLogger (\<lambda>cfg. Some ()) ''prod'' no_logger)) (put_msg ''k'' ''x'' 7) sample_client =
     handleUpdate (put_msg ''k'' ''x'' 7) sample_client \<and>
   logged_Start (no_logger :: unit logger) (\<lambda>url key n. (TransportError, n)) (\<lambda>_. Some ''{}'') sample_client () = None"
  using sdk_needs_logger [of "\<lambda>cfg. Some ()" "''prod''" no_logger "snd (InitLogger (\<lambda>cfg. Some ()) ''prod'' no_logger)"
      "put_msg ''k'' ''x'' 7" sample_client "''a''" "[]" "\<lambda>url key n. (TransportError, n)" "\<lambda>_. Some ''{}''" "()"]
  by (simp add: InitLogger_def no_logger_def)

end
