(* ===== verification/Api_Spec.thy ===== *)
theory Api_Spec
  imports Http_Api Service_Facts
begin

text \<open>
  The feature API as a client sees it. The abstract state is a map from the key of a feature
  (namespace, environment and key, up to the collation) to its version, type and value, and
  the log of the audit records. The requests \<open>POST /v1/feature\<close>, \<open>GET /v1/features\<close> and
  \<open>POST /v1/feature/:key/rollback\<close> are steps on the tables, one after the other; each answer
  is one that the abstract state allows, and the state moves along. Two saves that overlap
  are \<open>lost_update\<close> in \<open>Service_Facts\<close>.
\<close>

section \<open>The requests\<close>

datatype api_request =
    PostFeature string
  | GetFeatures values_of
  | PostRollback string string

definition api_step ::
  "'d gorm \<Rightarrow> request_context \<Rightarrow> string \<Rightarrow> api_request \<Rightarrow> 'd \<Rightarrow> http_response \<times> 'd" where
  "api_step g ctx traceID rq d =
     (case rq of
        PostFeature body \<Rightarrow> (case CreateFeature g ctx traceID body d of (r, job, d1) \<Rightarrow> (r, d1))
      | GetFeatures query \<Rightarrow> handler_ListFeatures g query d
      | PostRollback key body \<Rightarrow>
          (case handler_RollbackFeature g ctx traceID [(''key'', key)] body d of (r, job, d1) \<Rightarrow> (r, d1)))"

text \<open>Requests handled one after the other: each is answered before the next one begins.\<close>

fun api_run :: "'d gorm \<Rightarrow> request_context \<Rightarrow> string \<Rightarrow> api_request list \<Rightarrow> 'd \<Rightarrow> http_response list \<times> 'd" where
  "api_run g ctx traceID [] d = ([], d)"
| "api_run g ctx traceID (rq # rqs) d =
     (case api_step g ctx traceID rq d of (r, d1) \<Rightarrow>
        case api_run g ctx traceID rqs d1 of (rs, d2) \<Rightarrow> (r # rs, d2))"

section \<open>What the map allows\<close>

type_synonym feature_map = "feature_id \<Rightarrow> (int \<times> string \<times> string) option"

definition next_version :: "feature_map \<Rightarrow> feature_id \<Rightarrow> int" where
  "next_version m k = (case m k of None \<Rightarrow> 1 | Some (n, _, _) \<Rightarrow> wrap64 (n + 1))"

definition item_entry :: "(string \<Rightarrow> string) \<Rightarrow> FeatureItem \<Rightarrow> feature_id \<times> (int \<times> string \<times> string)" where
  "item_entry coll i =
     ((coll (fi_Namespace i), coll (fi_Env i), coll (fi_Key i)), (fi_Version i, fi_Type i, fi_Value i))"

definition selected :: "(string \<Rightarrow> string) \<Rightarrow> values_of \<Rightarrow> feature_id \<Rightarrow> bool" where
  "selected coll query k =
     (let namespace = value_or query ''namespace'' []; env = value_or query ''env'' []; search = value_or query ''search'' [] in
      (namespace = [] \<or> fst k = coll namespace) \<and> (env = [] \<or> fst (snd k) = coll env) \<and>
      (search = [] \<or> sql_like (coll (''%'' @ search @ ''%'')) (snd (snd k))))"

text \<open>
  An audit record as the log has it: its id, the exact key of the feature, the value it
  replaced and the type of the value that replaced it.
\<close>

type_synonym audit_entry = "int \<times> (string \<times> string \<times> string) \<times> string \<times> string"
type_synonym api_state = "feature_map \<times> audit_entry list"

definition audit_entry_of :: "FeatureAudit \<Rightarrow> audit_entry" where
  "audit_entry_of a = (fa_ID a, (fa_Namespace a, fa_Env a, fa_Key a), fa_OldValue a, fa_Type a)"

definition api_view :: "(string \<Rightarrow> string) \<Rightarrow> tables \<Rightarrow> api_state" where
  "api_view coll t = (features coll t, map audit_entry_of (tb_audits t))"

definition key_id :: "(string \<Rightarrow> string) \<Rightarrow> string \<times> string \<times> string \<Rightarrow> feature_id" where
  "key_id coll q = (case q of (namespace, env, key) \<Rightarrow> (coll namespace, coll env, coll key))"

definition old_value :: "feature_map \<Rightarrow> feature_id \<Rightarrow> string" where
  "old_value m k = (case m k of None \<Rightarrow> [] | Some (_, _, old) \<Rightarrow> old)"

text \<open>
  A save of a value under a key: it gets the next version, the map has it unless \<open>fails\<close> says
  that the database refuses this row, and the log has one more record, with a new id.
\<close>

definition saves ::
  "(string \<Rightarrow> string) \<Rightarrow> (feature_map \<Rightarrow> feature_id \<Rightarrow> int \<times> string \<times> string \<Rightarrow> bool) \<Rightarrow>
     string \<times> string \<times> string \<Rightarrow> string \<Rightarrow> string \<Rightarrow> int \<Rightarrow> api_state \<Rightarrow> api_state \<Rightarrow> bool" where
  "saves coll fails q ty val v s s' \<longleftrightarrow>
     (case s of (m, audits) \<Rightarrow> let k = key_id coll q in
        v = next_version m k \<and>
        (fst s' = m(k \<mapsto> (v, ty, val)) \<or> fails m k (v, ty, val) \<and> fst s' = m) \<and>
        (\<exists>i. (\<forall>e \<in> set audits. fst e < i) \<and> snd s' = audits @ [(i, q, old_value m k, ty)]))"

text \<open>
  A request that fails leaves everything, except that a save whose commit got no answer may
  have happened. A successful create saves the accepted value it was sent, a list has exactly
  the features selected, and a successful rollback saves the value that the record of the
  log with the id asked for replaced: a record of exactly the feature asked for, and a value
  accepted under the type of that record.
\<close>

inductive api_allows ::
  "(string \<Rightarrow> string) \<Rightarrow> (feature_map \<Rightarrow> feature_id \<Rightarrow> int \<times> string \<times> string \<Rightarrow> bool) \<Rightarrow>
     api_request \<Rightarrow> http_response \<Rightarrow> api_state \<Rightarrow> api_state \<Rightarrow> bool" for coll fails where
  failed: "status \<noteq> 200 \<Longrightarrow> api_allows coll fails rq (status, body) s s"
| created: "bind_create b = Some r \<Longrightarrow> validatePayload (cr_Type r) (cr_Value r) = None \<Longrightarrow>
    saves coll fails (cr_Namespace r, cr_Env r, cr_Key r) (cr_Type r) (cr_Value r) v s s' \<Longrightarrow>
    answer = (200, VersionBody v) \<or> answer = (500, ServiceError FeatureSaveFailed) \<Longrightarrow>
    api_allows coll fails (PostFeature b) answer s s'"
| listed: "distinct (map (fst \<circ> item_entry coll) items) \<Longrightarrow>
    item_entry coll ` set items = {(k, val). fst s k = Some val \<and> selected coll query k} \<Longrightarrow>
    api_allows coll fails (GetFeatures query) (200, ItemsBody items) s s"
| restored: "bind_rollback b = Some r \<Longrightarrow>
    (rf_AuditID r, (rf_Namespace r, rf_Env r, key), val, ty) \<in> set (snd s) \<Longrightarrow> validatePayload ty val = None \<Longrightarrow>
    saves coll fails (rf_Namespace r, rf_Env r, key) ty val v s s' \<Longrightarrow>
    answer = (200, VersionBody v) \<or> answer = (500, ServiceError FeatureSaveFailed) \<Longrightarrow>
    api_allows coll fails (PostRollback key b) answer s s'"

inductive_cases api_allows_createE: "api_allows coll fails (PostFeature b) (200, VersionBody v) s s'"
inductive_cases api_allows_listE: "api_allows coll fails (GetFeatures query) (200, ItemsBody items) s s'"

inductive api_history ::
  "(string \<Rightarrow> string) \<Rightarrow> (feature_map \<Rightarrow> feature_id \<Rightarrow> int \<times> string \<times> string \<Rightarrow> bool) \<Rightarrow>
     api_request list \<Rightarrow> http_response list \<Rightarrow> api_state \<Rightarrow> api_state \<Rightarrow> bool" for coll fails where
  Nil: "api_history coll fails [] [] s s"
| Cons: "api_allows coll fails rq r s s1 \<Longrightarrow> api_history coll fails rqs rs s1 s2 \<Longrightarrow>
    api_history coll fails (rq # rqs) (r # rs) s s2"

section \<open>The simulation\<close>

lemma bind_create_valid: "bind_create b = Some r \<Longrightarrow> cr_Namespace r \<noteq> [] \<and> cr_Env r \<noteq> []"
  by (auto simp: bind_create_def bind_json_def split: option.splits if_splits)

lemma bind_rollback_valid: "bind_rollback b = Some r \<Longrightarrow> rf_Namespace r \<noteq> [] \<and> rf_Env r \<noteq> []"
  by (auto simp: bind_rollback_def bind_json_def split: option.splits if_splits)

lemma saves_view:
  assumes wf: "rows_wf coll t" and ne: "ff_Namespace f \<noteq> []" "ff_Env f \<noteq> []"
    and eff: "save_effect coll f operator traceID t t' v \<or> save_dropped coll g view f operator traceID t t' v"
  shows "rows_wf coll t' \<and>
    saves coll (key_write_fails coll g view) (ff_Namespace f, ff_Env f, ff_Key f) (ff_Type f) (ff_Value f) v
      (api_view coll t) (api_view coll t')"
proof -
  have k: "key_id coll (ff_Namespace f, ff_Env f, ff_Key f) = flag_id coll f" by (simp add: key_id_def flag_id_def)
  from save_audits [OF wf ne eff] obtain a where a: "tb_audits t' = tb_audits t @ [a]"
    "\<forall>x \<in> set (tb_audits t). fa_ID x < fa_ID a"
    "audit_entry_of a = (fa_ID a, (ff_Namespace f, ff_Env f, ff_Key f), old_value (features coll t) (flag_id coll f), ff_Type f)"
    by (auto simp: audit_entry_of_def old_value_def)
  from save_refines [OF wf ne eff] a show ?thesis
    by (auto simp: saves_def api_view_def k next_version_def audit_entry_of_def)
qed

lemma create_allowed:
  assumes ok: "db_ok coll g view base" "rows_wf coll (view d)"
    and run: "CreateFeature g ctx traceID b d = (r, job, d')"
  shows "rows_wf coll (view d') \<and>
    api_allows coll (key_write_fails coll g view) (PostFeature b) r (api_view coll (view d)) (api_view coll (view d'))"
proof (cases "bind_create b")
  case None
  with run ok(2) show ?thesis by (auto simp: CreateFeature_def intro: api_allows.failed)
next
  case (Some rq)
  let ?f = "zero_flag\<lparr>ff_Namespace := cr_Namespace rq, ff_Env := cr_Env rq, ff_Key := cr_Key rq,
    ff_Value := cr_Value rq, ff_Version := 0, ff_Type := cr_Type rq\<rparr>"
  obtain rs where s: "SaveFeature g ?f (GetOperator ctx) traceID d = (rs, job, d')"
    and r: "r = (case rs of Inl e \<Rightarrow> (500, ServiceError e) | Inr v \<Rightarrow> (200, VersionBody v))"
    using run Some by (auto simp: CreateFeature_def split: prod.splits sum.splits)
  consider (same) e where "rs = Inl e" "view d' = view d"
    | (saved) v where "save_effect coll ?f (GetOperator ctx) traceID (view d) (view d') v \<or>
          save_dropped coll g view ?f (GetOperator ctx) traceID (view d) (view d') v"
        "validatePayload (cr_Type rq) (cr_Value rq) = None" "rs = Inr v \<or> rs = Inl FeatureSaveFailed"
    using SaveFeature_outcome [OF ok(1) s] by auto
  then show ?thesis
  proof cases
    case (same e)
    with ok(2) r show ?thesis by (auto intro: api_allows.failed)
  next
    case (saved v)
    from saves_view [OF ok(2) _ _ saved(1)] bind_create_valid [OF Some]
    have e: "rows_wf coll (view d')" "saves coll (key_write_fails coll g view) (cr_Namespace rq, cr_Env rq, cr_Key rq)
        (cr_Type rq) (cr_Value rq) v (api_view coll (view d)) (api_view coll (view d'))" by simp_all
    have "r = (200, VersionBody v) \<or> r = (500, ServiceError FeatureSaveFailed)" using saved(3) r by auto
    with e(1) api_allows.created [OF Some saved(2) e(2)] show ?thesis by blast
  qed
qed

lemma rollback_allowed:
  assumes ok: "db_ok coll g view base" "rows_wf coll (view d)"
    and run: "handler_RollbackFeature g ctx traceID [(''key'', key)] b d = (r, job, d')"
  shows "rows_wf coll (view d') \<and>
    api_allows coll (key_write_fails coll g view) (PostRollback key b) r (api_view coll (view d)) (api_view coll (view d'))"
proof (cases "bind_rollback b")
  case None
  with run ok(2) show ?thesis by (auto simp: handler_RollbackFeature_def intro: api_allows.failed)
next
  case (Some rq)
  obtain rs where s: "RollbackFeature g (rf_Namespace rq) (rf_Env rq) key (rf_AuditID rq) (GetOperator ctx) traceID d = (rs, job, d')"
    and r: "r = (case rs of Inl e \<Rightarrow> (500, ServiceError e) | Inr v \<Rightarrow> (200, VersionBody v))"
    using run Some by (auto simp: handler_RollbackFeature_def value_or_def split: prod.splits sum.splits)
  consider (same) e where "rs = Inl e" "view d' = view d"
    | (saved) a v fl where "a \<in> set (tb_audits (view d))"
        "fa_ID a = rf_AuditID rq" "fa_Key a = key" "fa_Env a = rf_Env rq" "fa_Namespace a = rf_Namespace rq"
        "ff_Value fl = fa_OldValue a" "ff_Type fl = fa_Type a" "ff_Namespace fl = rf_Namespace rq" "ff_Env fl = rf_Env rq" "ff_Key fl = key"
        "validatePayload (ff_Type fl) (ff_Value fl) = None"
        "save_effect coll fl (GetOperator ctx) traceID (view d) (view d') v \<or>
          save_dropped coll g view fl (GetOperator ctx) traceID (view d) (view d') v"
        "rs = Inr v \<or> rs = Inl FeatureSaveFailed"
    using RollbackFeature_outcome [OF ok(1) s] by blast
  then show ?thesis
  proof cases
    case (same e)
    with ok(2) r show ?thesis by (auto intro: api_allows.failed)
  next
    case (saved a v fl)
    have aud: "(rf_AuditID rq, (rf_Namespace rq, rf_Env rq, key), ff_Value fl, ff_Type fl) \<in> set (snd (api_view coll (view d)))"
      using saved(1-7) by (force simp: api_view_def audit_entry_of_def)
    from saves_view [OF ok(2) _ _ saved(12)] bind_rollback_valid [OF Some] saved(8-10)
    have e: "rows_wf coll (view d')" "saves coll (key_write_fails coll g view) (rf_Namespace rq, rf_Env rq, key)
        (ff_Type fl) (ff_Value fl) v (api_view coll (view d)) (api_view coll (view d'))" by simp_all
    have "r = (200, VersionBody v) \<or> r = (500, ServiceError FeatureSaveFailed)" using saved(13) r by auto
    with e(1) api_allows.restored [OF Some aud saved(11) e(2)] show ?thesis by blast
  qed
qed

lemma item_entry_row: "item_entry coll (feature_item m) = (row_id coll m, row_value m)"
  by (simp add: item_entry_def feature_item_def row_id_def row_value_def)

lemma list_allowed:
  assumes ok: "db_ok coll g view base" "rows_wf coll (view d)"
    and run: "handler_ListFeatures g query d = (r, d')"
  shows "view d' = view d \<and> 
    api_allows coll fails (GetFeatures query) r (api_view coll (view d)) (api_view coll (view d))"
proof -
  let ?ns = "value_or query ''namespace'' []" and ?env = "value_or query ''env'' []" and ?s = "value_or query ''search'' []"
  obtain rl where l: "ListMasters g ?ns ?env ?s d = (rl, d')"
    and r: "r = (case rl of Inl e \<Rightarrow> (500, ServiceError (RepoError e)) | Inr ms \<Rightarrow> (200, ItemsBody (map feature_item ms)))"
    using run by (auto simp: handler_ListFeatures_def ListFeatures_def split: prod.splits sum.splits)
  show ?thesis
  proof (cases rl)
    case (Inl e)
    have "go_FindMasters g ((where_q (list_query ?ns ?env ?s))\<lparr>q_order := UpdatedAtDesc\<rparr>) d = (rl, d')"
      using l by (simp add: ListMasters_def)
    with db_find_masters [OF ok(1)] Inl r show ?thesis by (auto intro: api_allows.failed)
  next
    case (Inr rows)
    from ListMasters_result [OF ok(1)] l Inr
    have rows: "mset rows = mset (filter (\<lambda>m. selected coll query (row_id coll m)) (tb_masters (view d)))" and v: "view d' = view d"
      by (auto simp: selected_def row_id_def Let_def)
    have "distinct (map (row_id coll) (filter (\<lambda>m. selected coll query (row_id coll m)) (tb_masters (view d))))"
      using ok(2) by (auto simp: rows_wf_def distinct_map intro: inj_on_subset)
    then have "distinct (map (row_id coll) rows)"
      using rows by (metis mset_eq_imp_distinct_iff mset_map)
    then have d: "distinct (map (fst \<circ> item_entry coll) (map feature_item rows))"
      by (simp add: comp_def item_entry_row)
    have s: "set rows = {m \<in> set (tb_masters (view d)). selected coll query (row_id coll m)}"
      using rows by (metis set_filter set_mset_mset)
    have e: "item_entry coll ` set (map feature_item rows) =
        {(k, val). fst (api_view coll (view d)) k = Some val \<and> selected coll query k}"
      unfolding api_view_def fst_conv features_iff [OF ok(2)] by (force simp: image_image item_entry_row s)
    from api_allows.listed [OF d e] v r Inr show ?thesis by simp
  qed
qed

lemma api_step_allowed:
  assumes "db_ok coll g view base" "rows_wf coll (view d)" "api_step g ctx traceID rq d = (r, d')"
  shows "rows_wf coll (view d') \<and>
    api_allows coll (key_write_fails coll g view) rq r (api_view coll (view d)) (api_view coll (view d'))"
proof (cases rq)
  case (PostFeature b)
  with assms(3) create_allowed [OF assms(1,2)] show ?thesis by (auto simp: api_step_def split: prod.splits)
next
  case (GetFeatures query)
  with assms(3) list_allowed [OF assms(1,2)] assms(2) show ?thesis by (auto simp: api_step_def)
next
  case (PostRollback key b)
  with assms(3) rollback_allowed [OF assms(1,2)] show ?thesis by (auto simp: api_step_def split: prod.splits)
qed

lemma api_run_allowed:
  assumes "db_ok coll g view base"
  shows "rows_wf coll (view d) \<Longrightarrow> api_run g ctx traceID rqs d = (rs, d') \<Longrightarrow>
    rows_wf coll (view d') \<and>
    api_history coll (key_write_fails coll g view) rqs rs (api_view coll (view d)) (api_view coll (view d'))"
proof (induction rqs arbitrary: d rs)
  case (Cons rq rqs)
  obtain r d1 where s: "api_step g ctx traceID rq d = (r, d1)" by (rule prod.exhaust)
  obtain rs1 d2 where rs: "api_run g ctx traceID rqs d1 = (rs1, d2)" by (rule prod.exhaust)
  note S = api_step_allowed [OF assms Cons.prems(1) s]
  from Cons.IH [of d1 rs1] S rs s Cons.prems(2) show ?case by (auto intro: api_history.Cons)
qed (auto intro: api_history.Nil)

lemma one_in_distinct:
  "distinct (map f xs) \<Longrightarrow> x \<in> set xs \<Longrightarrow> filter (\<lambda>y. f y = f x) xs = [x]"
proof (induction xs)
  case (Cons y ys)
  then show ?case by (cases "x = y") (auto simp: filter_empty_conv image_iff)
qed simp

lemma listed_entry:
  assumes "distinct (map (fst \<circ> item_entry coll) items)" "selected coll query k"
    and im: "item_entry coll ` set items = {(k, val). m k = Some val \<and> selected coll query k}"
  shows "map (snd \<circ> item_entry coll) (filter (\<lambda>i. fst (item_entry coll i) = k) items) = (case m k of None \<Rightarrow> [] | Some val \<Rightarrow> [val])"
proof (cases "m k")
  case None
  have "fst (item_entry coll i) \<noteq> k" if "i \<in> set items" for i
  proof
    assume "fst (item_entry coll i) = k"
    then have "(k, snd (item_entry coll i)) \<in> item_entry coll ` set items" using that by (metis imageI prod.collapse)
    with im None show False by auto
  qed
  with None show ?thesis by (simp add: filter_empty_conv)
next
  case (Some val)
  with assms(2) have "(k, val) \<in> item_entry coll ` set items" unfolding im by simp
  then obtain i where i: "i \<in> set items" "item_entry coll i = (k, val)" by auto
  with one_in_distinct [of "fst \<circ> item_entry coll" items i] assms(1) Some show ?thesis by simp
qed

section \<open>Properties\<close>

text \<open>
  C3. The HTTP API refines a map and a log. Whatever requests are handled one after the
  other, with any call of the database failing, the answers are a history of the map from
  keys to version, type and value and of the log of audit records. A create answered with a
  version puts the accepted value it was sent under the next version of its feature; a list
  is exactly the features its query selects, each once; a rollback answered with a version
  puts, under the next version, the value that the audit record with the id asked for
  replaced, a record of exactly that feature, with the type of that record; each of the two
  adds one audit record of the value it replaced. Only if the database
  refuses the write of such a row in tables with this map, an error the code drops, the map
  may stay as it was under the same answer. A request that fails changes nothing, but for a
  save whose commit got no answer.
\<close>

theorem api_refines_map:
  assumes "db_ok coll g view base" "rows_wf coll (view d)"
    and "api_run g ctx traceID rqs d = (rs, d')"
  shows "rows_wf coll (view d') \<and>
    api_history coll (key_write_fails coll g view) rqs rs (api_view coll (view d)) (api_view coll (view d'))"
  using assms by (rule api_run_allowed)

text \<open>
  C29. You read what you wrote, unless the database refused the row. When a create was
  answered with a version and nothing else is saved before a list that selects the feature
  and succeeds, then the version is 1 or one more than before, and the list has exactly one
  item for the feature, with the value and type written and the version answered; or, only
  if the database refuses the write of such a row in tables with this map, an error the code
  drops, the list shows the feature as it was before: not at all, or once with its old
  version, type and value.
\<close>

theorem read_your_write:
  assumes "db_ok coll g view base" "rows_wf coll (view d)"
    and "api_run g ctx traceID [PostFeature b, GetFeatures query] d = ([(200, VersionBody v), (200, ItemsBody items)], d')"
    and "bind_create b = Some r" "k = (coll (cr_Namespace r), coll (cr_Env r), coll (cr_Key r))" "selected coll query k"
  shows "v = next_version (features coll (view d)) k \<and>
    ((\<exists>i. filter (\<lambda>i. fst (item_entry coll i) = k) items = [i] \<and>
        fi_Value i = cr_Value r \<and> fi_Type i = cr_Type r \<and> fi_Version i = v) \<or>
     key_write_fails coll g view (features coll (view d)) k (v, cr_Type r, cr_Value r) \<and>
     map (snd \<circ> item_entry coll) (filter (\<lambda>i. fst (item_entry coll i) = k) items) =
       (case features coll (view d) k of None \<Rightarrow> [] | Some val \<Rightarrow> [val]))"
proof -
  let ?m = "features coll (view d)"
  obtain d1 where one: "api_step g ctx traceID (PostFeature b) d = ((200, VersionBody v), d1)"
    and two: "api_step g ctx traceID (GetFeatures query) d1 = ((200, ItemsBody items), d')"
    using assms(3) by (auto split: prod.splits)
  from api_step_allowed [OF assms(1,2) one] have wf: "rows_wf coll (view d1)"
    and "api_allows coll (key_write_fails coll g view) (PostFeature b) (200, VersionBody v)
      (api_view coll (view d)) (api_view coll (view d1))" by auto
  from this(2) have m1: "v = next_version ?m k"
    "features coll (view d1) = ?m(k \<mapsto> (v, cr_Type r, cr_Value r)) \<or>
     key_write_fails coll g view ?m k (v, cr_Type r, cr_Value r) \<and> features coll (view d1) = ?m"
    by (cases rule: api_allows_createE; use assms(4,5) in \<open>simp add: saves_def api_view_def key_id_def Let_def\<close>)+
  from api_step_allowed [OF assms(1) wf two]
  have "api_allows coll (key_write_fails coll g view) (GetFeatures query) (200, ItemsBody items)
      (api_view coll (view d1)) (api_view coll (view d'))" by auto
  then have l: "distinct (map (fst \<circ> item_entry coll) items)"
    "item_entry coll ` set items = {(k, val). features coll (view d1) k = Some val \<and> selected coll query k}"
    by (cases rule: api_allows_listE; simp add: api_view_def)+
  note shown = listed_entry [OF l(1) assms(6) l(2)]
  from m1(2) show ?thesis
  proof
    assume "features coll (view d1) = ?m(k \<mapsto> (v, cr_Type r, cr_Value r))"
    with shown have "map (snd \<circ> item_entry coll) (filter (\<lambda>i. fst (item_entry coll i) = k) items) = [(v, cr_Type r, cr_Value r)]"
      by simp
    with m1(1) show ?thesis by (auto simp: item_entry_def map_eq_Cons_conv)
  qed (use shown m1(1) in auto)
qed

definition post_body :: string where
  "post_body = ''{\"namespace\":\"a\",\"env\":\"prod\",\"key\":\"k\",\"value\":\"on\",\"type\":\"string\"}''"

definition post_request :: CreateFeatureRequest where
  "post_request = \<lparr>cr_Namespace = ''a'', cr_Env = ''prod'', cr_Key = ''k'', cr_Value = ''on'', cr_Type = ''string''\<rparr>"

lemma post_body_binds: "bind_create post_body = Some post_request"
  by code_simp

lemma post_and_list:
  "\<exists>d' items. api_run (mem_gorm id) Background [] [PostFeature post_body, GetFeatures []] sample_db = ([(200, VersionBody 4), (200, ItemsBody items)], d')"
  by (simp add: api_step_def CreateFeature_def post_body_binds post_request_def mem_run_defs sample_defs zero_flag_def is_int64_small
      handler_ListFeatures_def ListFeatures_def ListMasters_def mem_rows_def cut_def value_or_def list_query_def)

theorem api_refines_map_witness:
  "\<exists>d' items. api_run (mem_gorm id) Background [] [PostFeature post_body, GetFeatures []] sample_db = ([(200, VersionBody 4), (200, ItemsBody items)], d') \<and>
     api_history id (key_write_fails id (mem_gorm id) md_tables) [PostFeature post_body, GetFeatures []] [(200, VersionBody 4), (200, ItemsBody items)]
       (api_view id (md_tables sample_db)) (api_view id (md_tables d'))"
  using post_and_list api_refines_map [OF mem_db_ok sample_rows_wf] by blast

theorem read_your_write_witness:
  "\<exists>d' items. api_run (mem_gorm id) Background [] [PostFeature post_body, GetFeatures []] sample_db = ([(200, VersionBody 4), (200, ItemsBody items)], d') \<and>
     map fi_Value (filter (\<lambda>i. fst (item_entry id i) = (''a'', ''prod'', ''k'')) items) = [''on'']"
proof -
  obtain d' items where run: "api_run (mem_gorm id) Background [] [PostFeature post_body, GetFeatures []] sample_db =
      ([(200, VersionBody 4), (200, ItemsBody items)], d')" using post_and_list by blast
  have sel: "selected id [] (id (cr_Namespace post_request), id (cr_Env post_request), id (cr_Key post_request))"
    by (simp add: selected_def value_or_def)
  have k: "(id (cr_Namespace post_request), id (cr_Env post_request), id (cr_Key post_request)) = (''a'', ''prod'', ''k'')"
    and v: "cr_Value post_request = ''on''" by (simp_all add: post_request_def)
  from read_your_write [OF mem_db_ok sample_rows_wf run post_body_binds refl sel] no_write_fails [OF mem_master_writes]
  obtain i where "filter (\<lambda>i. fst (item_entry id i) = (''a'', ''prod'', ''k'')) items = [i]" "fi_Value i = ''on''"
    unfolding k v by blast
  with run show ?thesis by (intro exI conjI) (assumption, simp)
qed

end
