(* ===== verification/End_To_End.thy ===== *)
theory End_To_End
  imports Stream_Api
begin

text \<open>
  The parts put together: from the events of etcd through the service, the replay buffer,
  the hub and one stream to the map of an SDK client; and two faults that only show when
  the parts are seen together.
\<close>

section \<open>From etcd to the SDK\<close>

abbreviation loop_events :: "(int \<times> watch_response) list \<Rightarrow> watch_event list" where
  "loop_events ws \<equiv> concat (map (\<lambda>(now, w). wr_Events w) ws)"

abbreviation loop_messages :: "(int \<times> watch_response) list \<Rightarrow> Message list" where
  "loop_messages ws \<equiv> concat (map (\<lambda>(now, w). event_messages now (wr_Events w)) ws)"

abbreviation in_revision_order :: "watch_event list \<Rightarrow> bool" where
  "in_revision_order \<equiv> sorted_wrt (\<lambda>a b. kv_ModRevision (we_Kv a) < kv_ModRevision (we_Kv b))"

text \<open>What the watch loop has done after two stretches of responses.\<close>

lemma two_stretches:
  assumes "watch_loop ws1 NewFeatureService = Some (True, ms1, s1)" "watch_loop ws2 s1 = Some (True, ms2, s2)"
    and "\<forall>(now, w) \<in> set (ws1 @ ws2). \<not> wr_Canceled w" "in_revision_order (loop_events (ws1 @ ws2))"
  shows "ms1 = loop_messages ws1" "ms2 = loop_messages ws2" "increasing (ms1 @ ms2)"
    and "fold_opt AddMessage ms1 (NewRevisionBuffer 1000) = Some (sv_buffer s1)"
proof -
  have new: "rb_inv (sv_buffer NewFeatureService)" "sv_buffer NewFeatureService = NewRevisionBuffer 1000"
    by (simp_all add: NewFeatureService_def rb_inv_new)
  from watch_loop_spec [OF new(1), of ws1] assms(1,3)
  have one: "ms1 = loop_messages ws1" "rb_inv (sv_buffer s1)"
    "fold_opt AddMessage ms1 (NewRevisionBuffer 1000) = Some (sv_buffer s1)" by (auto simp: new(2))
  from watch_loop_spec [OF one(2), of ws2] assms(2,3) have two: "ms2 = loop_messages ws2" by auto
  from one two show "ms1 = loop_messages ws1" "ms2 = loop_messages ws2"
    "fold_opt AddMessage ms1 (NewRevisionBuffer 1000) = Some (sv_buffer s1)" by simp_all
  from loop_messages_increasing [OF assms(4)] show "increasing (ms1 @ ms2)" by (simp add: one(1) two)
qed

text \<open>What a client sees of a flag of etcd.\<close>

definition sdk_view :: "FeatureFlag \<Rightarrow> string \<times> string \<times> int \<times> int" where
  "sdk_view f = (ff_Value f, ff_Type f, ff_Version f, ff_Revision f)"

lemma state_after_last_put:
  assumes "msg_Action m = PUT" "\<forall>x \<in> set post. msg_Key x \<noteq> msg_Key m"
  shows "state_after (pre @ m # post) m0 (msg_Key m) = Some (message_flag m)"
proof -
  have "last_change post (msg_Key m) = None" using assms(2) by (auto simp: last_change_def find_None_iff)
  then have "last_change (pre @ m # post) (msg_Key m) = Some m"
    using assms(1) by (auto simp: last_change_def find_append split: option.splits)
  then show ?thesis using assms(1) by (simp add: state_after_def PUT_def DELETE_def del: state_after_append)
qed

lemma pipeline_state:
  assumes server: "watch_loop ws1 NewFeatureService = Some (True, ms1, s1)" "watch_loop ws2 s1 = Some (True, ms2, s2)"
      "\<forall>(now, w) \<in> set (ws1 @ ws2). \<not> wr_Canceled w" "in_revision_order (loop_events (ws1 @ ws2))"
    and msgs: "ms1 \<noteq> []" "\<forall>m \<in> set (ms1 @ ms2). msg_Type m \<noteq> ''ping''"
    and client: "watch_client q = Some cl" "\<not> is_wildcard cl"
    and hub: "hub_reachable heap h0" "hb_heap h0 i = cl" "run_ok hub_step event_ok (Register i # evs) h0"
      "run_log hub_step (received i) (Register i # evs) h0 = Some (got, h1)" "i \<in> set (hb_clients h1)" "cl_Send (hb_heap h1 i) = []"
      "concat (map broadcast_of evs) = drop j (ms1 @ ms2)" "j \<le> length ms1"
    and sdk: "client_ok sdk" "wq_last_rev q = show_int (mc_lastRev sdk)" "is_int64 (mc_lastRev sdk)"
      "gm_get (features_of sdk) = state_after (filter (\<lambda>m. msg_Revision m \<le> mc_lastRev sdk \<and> in_scope cl m) (ms1 @ ms2)) m0"
      "GetCompensation (watch_lastRev q) s1 = Some (res, True)"
  shows "set (sent (WatchFeature q (\<lambda>_. (res, True)) got)) \<subseteq> set (ms1 @ ms2) \<and>
    (\<exists>sdk'. fold_opt handleUpdate (sent (WatchFeature q (\<lambda>_. (res, True)) got)) sdk = Some sdk' \<and>
    gm_get (features_of sdk') = state_after (filter (in_scope cl) (ms1 @ ms2)) m0)"
proof -
  note st = two_stretches [OF server]
  have "\<forall>m \<in> set (drop j (ms1 @ ms2)). msg_Type m \<noteq> ''ping''" using msgs(2) by (meson in_set_dropD)
  note inbox = pipeline_inbox [OF this client hub(1-7)]
  have buf: "fold_opt AddMessage (take (length ms1) (ms1 @ ms2)) (NewRevisionBuffer 1000) = Some (sv_buffer s1)" using st(4) by simp
  have ne: "0 < length ms1" "ms1 @ ms2 \<noteq> []" using msgs(1) by simp_all
  note ans = sdk(5)[unfolded GetCompensation_def]
  have "set (sent (WatchFeature q (\<lambda>_. (res, True)) got)) \<subseteq> set (ms1 @ ms2)"
    using watch_exact [OF client(1) st(3) hub(8) ne msgs(2) buf ans inbox, THEN conjunct1] by (metis filter_is_subset)
  with reconnect_state [OF sdk(1-4) client(1) st(3) hub(8) ne msgs(2) buf ans inbox] show ?thesis by blast
qed

lemma loop_messages_timed:
  "\<exists>ts. map snd ts = loop_events ws \<and> loop_messages ws = List.map_filter (\<lambda>(now, ev). event_message now ev) ts"
proof (induction ws)
  case (Cons x ws)
  obtain now w where x: "x = (now, w)" by (cases x)
  from Cons obtain ts where "map snd ts = loop_events ws" "loop_messages ws = List.map_filter (\<lambda>(now, ev). event_message now ev) ts" by blast
  moreover have "event_messages now evs = List.map_filter (\<lambda>(now, ev). event_message now ev) (map (Pair now) evs)" for evs
    by (induction evs) (simp_all add: event_messages_def map_filter_simps split: option.split)
  moreover have "map snd (map (Pair now) evs) = evs" for evs :: "watch_event list" by (induction evs) auto
  ultimately have "map snd (map (Pair now) (wr_Events w) @ ts) = loop_events (x # ws) \<and>
      loop_messages (x # ws) = List.map_filter (\<lambda>(now, ev). event_message now ev) (map (Pair now) (wr_Events w) @ ts)"
    by (simp add: x map_filter_def)
  then show ?case by blast
qed (simp add: map_filter_simps)

lemma last_put_seen:
  assumes "loop_events ws = pre @ ev # post" "\<not> we_Delete ev" "unmarshal_flag (kv_Value (we_Kv ev)) = Some f"
    and "ff_Env f = cl_Env cl" "gm_get (cl_Namespaces cl) (ff_Namespace f) = Some True"
    and "\<forall>ev' \<in> set post. \<forall>now m. event_message now ev' = Some m \<and> in_scope cl m \<longrightarrow> msg_Key m \<noteq> ff_Key f"
  shows "map_option sdk_view (state_after (filter (in_scope cl) (loop_messages ws)) m0 (ff_Key f)) =
    Some (ff_Value f, ff_Type f, ff_Version f, kv_ModRevision (we_Kv ev))"
proof -
  let ?msg = "\<lambda>(now, ev). event_message now ev"
  obtain ts where ts: "map snd ts = loop_events ws" "loop_messages ws = List.map_filter ?msg ts"
    using loop_messages_timed by blast
  from ts(1) assms(1) obtain tpre te tpost where t: "ts = tpre @ te # tpost" "snd te = ev" "map snd tpost = post"
    by (auto simp: map_eq_append_conv map_eq_Cons_conv)
  obtain now where te: "te = (now, ev)" using t(2) by (cases te) auto
  let ?m = "put_message now f (we_Kv ev)"
  have m: "?msg te = Some ?m" using assms(2,3) by (simp add: te event_message_def)
  have scope: "in_scope cl ?m" using assms(4,5) by (simp add: in_scope_def put_message_def)
  have "loop_messages ws = List.map_filter ?msg tpre @ ?m # List.map_filter ?msg tpost"
    using m unfolding ts(2) t(1) by (simp add: map_filter_def)
  then have split: "filter (in_scope cl) (loop_messages ws) =
      filter (in_scope cl) (List.map_filter ?msg tpre) @ ?m # filter (in_scope cl) (List.map_filter ?msg tpost)"
    using scope by simp
  have "msg_Key x \<noteq> msg_Key ?m" if "x \<in> set (filter (in_scope cl) (List.map_filter ?msg tpost))" for x
  proof -
    from that obtain now' ev' where "(now', ev') \<in> set tpost" "event_message now' ev' = Some x" "in_scope cl x"
      by (auto simp: map_filter_def)
    moreover then have "ev' \<in> set post" using t(3) by force
    ultimately show ?thesis using assms(6) by (auto simp: put_message_def)
  qed
  then have "state_after (filter (in_scope cl) (loop_messages ws)) m0 (msg_Key ?m) = Some (message_flag ?m)"
    unfolding split by (intro state_after_last_put) (simp_all add: put_message_def)
  then show ?thesis by (simp add: put_message_def message_flag_def sdk_view_def)
qed

text \<open>The revision of the cache.\<close>

lemma cache_updates_revision:
  "0 \<le> fc_revision c \<Longrightarrow> \<forall>f \<in> set fs. ff_Revision f \<le> r \<Longrightarrow> fc_revision c \<le> r \<Longrightarrow>
   0 \<le> fc_revision (fold cache_Update fs c) \<and> fc_revision (fold cache_Update fs c) \<le> r"
  by (induction fs arbitrary: c) auto

lemma put_events_revision:
  "0 \<le> fc_revision c \<Longrightarrow> \<forall>ev \<in> set evs. \<not> we_Delete ev \<and>
     (\<forall>f. unmarshal_flag (kv_Value (we_Kv ev)) = Some f \<longrightarrow> ff_Revision f = 0) \<Longrightarrow>
   fc_revision (fold cache_event evs c) = fc_revision c"
proof (induction evs arbitrary: c)
  case (Cons ev evs)
  have "fc_revision (cache_event ev c) = fc_revision c"
    using Cons.prems by (auto simp: cache_event_def split: option.splits)
  with Cons show ?case by simp
qed simp

section \<open>Properties\<close>

text \<open>
  What is written to etcd reaches the SDK. The service has handled the events \<open>ws1\<close> when
  the handler of a stream reads the history, and \<open>ws2\<close> later; the client registered with the
  hub before that, stays connected and its handler empties its channel; the hub broadcasts,
  with heartbeats and other clients anywhere between, the messages from the \<open>j\<close>-th on. Then an
  SDK client that was up to date at the revision it connects with does not panic, and for
  the last put of a flag in its scope it evaluates the value, type and version stored in
  etcd, under the revision etcd gave the write.
\<close>

theorem etcd_to_sdk:
  assumes "watch_loop ws1 NewFeatureService = Some (True, ms1, s1)" "watch_loop ws2 s1 = Some (True, ms2, s2)"
      "\<forall>(now, w) \<in> set (ws1 @ ws2). \<not> wr_Canceled w" "in_revision_order (loop_events (ws1 @ ws2))"
    and "ms1 \<noteq> []" "\<forall>m \<in> set (ms1 @ ms2). msg_Type m \<noteq> ''ping''"
    and "watch_client q = Some cl" "\<not> is_wildcard cl"
    and "hub_reachable heap h0" "hb_heap h0 i = cl" "run_ok hub_step event_ok (Register i # evs) h0"
      "run_log hub_step (received i) (Register i # evs) h0 = Some (got, h1)" "i \<in> set (hb_clients h1)" "cl_Send (hb_heap h1 i) = []"
      "concat (map broadcast_of evs) = drop j (ms1 @ ms2)" "j \<le> length ms1"
    and "client_ok sdk" "wq_last_rev q = show_int (mc_lastRev sdk)" "is_int64 (mc_lastRev sdk)"
      "gm_get (features_of sdk) = state_after (filter (\<lambda>m. msg_Revision m \<le> mc_lastRev sdk \<and> in_scope cl m) (ms1 @ ms2)) m0"
      "GetCompensation (watch_lastRev q) s1 = Some (res, True)"
    and "loop_events (ws1 @ ws2) = pre @ ev # post" "\<not> we_Delete ev" "unmarshal_flag (kv_Value (we_Kv ev)) = Some f"
      "ff_Env f = cl_Env cl" "gm_get (cl_Namespaces cl) (ff_Namespace f) = Some True"
      "\<forall>ev' \<in> set post. \<forall>now m. event_message now ev' = Some m \<and> in_scope cl m \<longrightarrow> msg_Key m \<noteq> ff_Key f"
  shows "\<exists>sdk'. fold_opt handleUpdate (sent (WatchFeature q (\<lambda>_. (res, True)) got)) sdk = Some sdk' \<and>
    map_option sdk_view (gm_get (features_of sdk') (ff_Key f)) = Some (ff_Value f, ff_Type f, ff_Version f, kv_ModRevision (we_Kv ev))"
proof -
  have "ms1 @ ms2 = loop_messages (ws1 @ ws2)" using two_stretches(1,2) [OF assms(1-4)] by simp
  with pipeline_state [OF assms(1-21)] last_put_seen [OF assms(22-27), of m0] show ?thesis by auto
qed

abbreviation put_response :: "string \<Rightarrow> int \<Rightarrow> watch_response" where
  "put_response v r \<equiv> \<lparr>wr_Canceled = False, wr_Events = [put_event flag_key (flag_of v) r]\<rparr>"

definition put_v :: "string \<Rightarrow> int \<Rightarrow> Message" where
  "put_v v r = put_message r (flag_of v) (we_Kv (put_event flag_key (flag_of v) r))"

definition up_to_date :: MizuClient where
  "up_to_date = sample_client\<lparr>mc_features := Some [(''k'', message_flag (put_v ''x'' 5))], mc_lastRev := 5\<rparr>"

definition one_query :: watch_query where
  "one_query = \<lparr>wq_last_rev = ''5'', wq_env = ''prod'', wq_namespace = ''a''\<rparr>"

definition one_stream :: Client where
  "one_stream = \<lparr>cl_Send = [], cl_Cap = 128, cl_Closed = False, cl_Namespaces = [(''a'', True)], cl_Env = ''prod''\<rparr>"

abbreviation one_run :: "hub_event list" where
  "one_run \<equiv> [Broadcast id (put_v ''y'' 6), Heartbeat id, Receive 0, Receive 0]"

lemma put_v_fields:
  "msg_Key (put_v v r) = ''k''" "msg_Action (put_v v r) = PUT" "msg_Revision (put_v v r) = r" "msg_Type (put_v v r) = ''string''"
  "in_scope one_stream (put_v v r)"
  by (simp_all add: put_v_def put_message_def put_event_def flag_of_def zero_flag_def in_scope_def one_stream_def)

lemma one_query_client: "watch_client one_query = Some one_stream" "watch_lastRev one_query = 5"
  by code_simp+

lemma event_put_v: "is_ascii v \<Longrightarrow> event_messages r [put_event flag_key (flag_of v) r] = [put_v v r]"
  by (simp add: event_messages_def map_filter_simps event_message_def put_event_def flag_of_json put_v_def)

theorem etcd_to_sdk_witness:
  "\<exists>sdk'. fold_opt handleUpdate (sent (WatchFeature one_query (\<lambda>_. ([], True)) [put_v ''y'' 6, ping])) up_to_date = Some sdk' \<and>
    map_option sdk_view (gm_get (features_of sdk') ''k'') = Some (''y'', ''string'', 0, 6)"
proof -
  let ?ws1 = "[(5, put_response ''x'' 5)]" and ?ws2 = "[(6, put_response ''y'' 6)]"
  have asc: "is_ascii ''x''" "is_ascii ''y''" by (simp_all add: is_ascii_def)
  obtain s1 where s1: "watch_loop ?ws1 NewFeatureService = Some (True, [put_v ''x'' 5], s1)" "rb_inv (sv_buffer s1)"
    "fold_opt AddMessage [put_v ''x'' 5] (NewRevisionBuffer 1000) = Some (sv_buffer s1)"
    using watch_loop_spec [of NewFeatureService ?ws1] by (auto simp: event_put_v asc NewFeatureService_def rb_inv_new)
  obtain s2 where s2: "watch_loop ?ws2 s1 = Some (True, [put_v ''y'' 6], s2)"
    using watch_loop_spec [OF s1(2), of ?ws2] by (auto simp: event_put_v asc)
  have "rb_log (sv_buffer s1) = [put_v ''x'' 5]"
    using ring.add_all_SomeD(3) [OF rb_inv_new s1(3)] by (simp add: rb_size_new last_n_def)
  with GetSince_spec [OF s1(2), of 5] have comp: "GetCompensation (watch_lastRev one_query) s1 = Some ([], True)"
    by (simp add: GetCompensation_def one_query_client since_spec_def increasing_def put_v_fields)
  have reach: "hub_reachable (\<lambda>_. one_stream) (NewHub (\<lambda>_. one_stream))" by (rule hub_reachable.start)
  have ok: "run_ok hub_step event_ok (Register 0 # one_run) (NewHub (\<lambda>_. one_stream))"
    unfolding run_ok.simps(2) [of _ _ "Register 0"] hub_step.simps option.case
    by (intro conjI events_ok_plain [where h = "NewHub (\<lambda>_. one_stream)"]) (simp_all add: NewHub_def one_stream_def)
  have "map_option (\<lambda>(got, h'). (got, 0 \<in> set (hb_clients h'), cl_Send (hb_heap h' 0)))
      (run_log hub_step (received 0) (Register 0 # one_run) (NewHub (\<lambda>_. one_stream))) = Some ([put_v ''y'' 6, ping], True, [])"
    by code_simp
  then obtain h1 where h1: "run_log hub_step (received 0) (Register 0 # one_run) (NewHub (\<lambda>_. one_stream)) = Some ([put_v ''y'' 6, ping], h1)"
    "0 \<in> set (hb_clients h1)" "cl_Send (hb_heap h1 0) = []" by (auto simp del: run_log.simps)
  have sync: "gm_get (features_of up_to_date) = state_after (filter (\<lambda>m. msg_Revision m \<le> mc_lastRev up_to_date \<and> in_scope one_stream m)
      ([put_v ''x'' 5] @ [put_v ''y'' 6])) (\<lambda>_. None)"
    by (simp add: up_to_date_def put_v_fields features_of_def state_after_one fun_eq_iff PUT_def DELETE_def)
  have fl: "unmarshal_flag (kv_Value (we_Kv (put_event flag_key (flag_of ''y'') 6))) = Some (flag_of ''y'')"
    using asc by (simp add: put_event_def flag_of_json)
  have q5: "wq_last_rev one_query = show_int (mc_lastRev up_to_date)"
  proof -
    have "show_int 5 = ''5''" by code_simp
    then show ?thesis by (simp add: one_query_def up_to_date_def)
  qed
  show ?thesis
    using etcd_to_sdk [OF s1(1) s2 _ _ _ _ one_query_client(1) _ reach _ ok h1 _ _ _ q5 _ sync comp, of 1
        "[put_event flag_key (flag_of ''x'') 5]" "put_event flag_key (flag_of ''y'') 6" "[]" "flag_of ''y''"] fl
    by (simp add: put_v_fields NewHub_def one_stream_def is_wildcard_def broadcast_of_def client_ok_def up_to_date_def gm_wf_def
        is_int64_small flag_of_def zero_flag_def put_event_def)
qed

text \<open>
  C23. The snapshot is too old for its own stream. Let the service start from a snapshot at
  revision \<open>rev0\<close> and then see put events only, of flags as the service itself writes them
  (their payload has revision 0). Then the revision of the snapshot it serves never moves,
  and as soon as there was one event, every client that connects with the revision of the
  snapshot it just fetched is answered by a reset, which makes it fetch the same again.
\<close>

theorem snapshot_revision_stuck:
  assumes "GetWithRevision c FeatureRootPrefix es = (Inr (kvs, rev0), es1)"
    and "run_init c NewFeatureService es = (Some (s0, wrev), es1)"
    and "0 \<le> rev0" "\<forall>kv \<in> set kvs. kv_ModRevision kv \<le> rev0"
    and "watch_loop ws s0 = Some (True, ms, s)" "\<forall>(now, w) \<in> set ws. \<not> wr_Canceled w" "in_revision_order (loop_events ws)"
    and "\<forall>ev \<in> set (loop_events ws). rev0 < kv_ModRevision (we_Kv ev) \<and> \<not> we_Delete ev \<and>
      (\<forall>f. unmarshal_flag (kv_Value (we_Kv ev)) = Some f \<longrightarrow> ff_Revision f = 0)"
    and "ms \<noteq> []"
  shows "snd (GetAllFeatures ord s) = snd (GetAllFeatures ord s0) \<and>
    GetCompensation (snd (GetAllFeatures ord s)) s = Some ([], False) \<and>
    (watch_client q = Some cl \<and> watch_lastRev q = snd (GetAllFeatures ord s) \<longrightarrow>
       WatchFeature q (\<lambda>r. the (GetCompensation r s)) [] = [SseReset])"
proof -
  let ?fs = "List.map_filter (\<lambda>kv. map_option (\<lambda>f. f\<lparr>ff_Revision := kv_ModRevision kv\<rparr>) (unmarshal_flag (kv_Value kv))) kvs"
  have s0: "sv_cache s0 = fold cache_Update ?fs NewFeatureCache" "sv_buffer s0 = NewRevisionBuffer 1000"
    using assms(1,2) by (auto simp: run_init_def NewFeatureService_def snapshot_entry_fold)
  have "\<forall>f \<in> set ?fs. ff_Revision f \<le> rev0"
    using assms(4) by (auto simp: map_filter_def split: option.splits)
  from cache_updates_revision [OF _ this, of NewFeatureCache] assms(3)
  have r0: "0 \<le> fc_revision (sv_cache s0)" "fc_revision (sv_cache s0) \<le> rev0"
    by (simp_all add: s0 NewFeatureCache_def)
  have inv0: "rb_inv (sv_buffer s0)" by (simp add: s0 rb_inv_new)
  from watch_loop_spec [OF inv0 assms(6)] assms(5)
  have s: "ms = loop_messages ws" "rb_inv (sv_buffer s)" "fold_opt AddMessage ms (NewRevisionBuffer 1000) = Some (sv_buffer s)"
    "sv_cache s = fold cache_event (loop_events ws) (sv_cache s0)" by (auto simp: s0(2))
  from put_events_revision [OF r0(1)] assms(8)
  have same: "snd (GetAllFeatures ord s) = fc_revision (sv_cache s0)" "snd (GetAllFeatures ord s0) = fc_revision (sv_cache s0)"
    by (auto simp: s(4) GetAllFeatures_def GetSnapshot_def)
  have log: "rb_log (sv_buffer s) = last_n 1000 ms"
    using ring.add_all_SomeD(3) [OF rb_inv_new s(3)] by (simp add: rb_size_new)
  have "increasing ms" unfolding s(1) using assms(7) by (rule loop_messages_increasing)
  then have inc: "increasing (rb_log (sv_buffer s))" unfolding log by (rule ring.increasing_last_n)
  have ne: "rb_log (sv_buffer s) \<noteq> []" using assms(9) by (cases ms) (auto simp: log last_n_def)
  have "rev0 < msg_Revision m" if "m \<in> set ms" for m
  proof -
    from that obtain now w where "(now, w) \<in> set ws" "m \<in> set (event_messages now (wr_Events w))" by (auto simp: s(1))
    moreover then obtain ev where "ev \<in> set (wr_Events w)" "msg_Revision m = kv_ModRevision (we_Kv ev)"
      using event_messages_revisions by blast
    ultimately show ?thesis using assms(8) by fastforce
  qed
  moreover have "set (rb_log (sv_buffer s)) \<subseteq> set ms" by (auto simp: log last_n_def dest: in_set_dropD)
  ultimately have "rev0 < msg_Revision (hd (rb_log (sv_buffer s)))" using ne by (meson hd_in_set subsetD)
  with r0(2) GetSince_spec [OF s(2) inc] ne
  have "GetCompensation (snd (GetAllFeatures ord s)) s = Some ([], False)"
    by (simp add: GetCompensation_def same since_spec_def)
  then show ?thesis unfolding same by (auto simp: WatchFeature_def watch_start_def)
qed

theorem snapshot_revision_stuck_witness:
  "\<exists>s0 s. fst (run_init mem_client NewFeatureService (mem_with flag_key (ToJSON (flag_of ''x'')))) = Some (s0, 2) \<and>
    watch_loop [(5, put_response ''y'' 5)] s0 = Some (True, [put_v ''y'' 5], s) \<and>
    GetCompensation (snd (GetAllFeatures id s)) s = Some ([], False)"
proof -
  let ?es = "mem_with flag_key (ToJSON (flag_of ''x''))"
  let ?kv = "\<lparr>kv_Key = flag_key, kv_Value = ToJSON (flag_of ''x''), kv_CreateRevision = 1, kv_ModRevision = 1\<rparr>"
  have asc: "is_ascii ''x''" "is_ascii ''y''" by (simp_all add: is_ascii_def)
  have "has_prefix flag_key FeatureRootPrefix"
    unfolding flag_key_def BuildFeatureKey_def by (rule has_prefix_append)
  then have g: "GetWithRevision mem_client FeatureRootPrefix ?es = (Inr ([?kv], 1), ?es)"
    by (simp add: GetWithRevision_def mem_client_def mem_with_def mem_put_def mem_empty_def Let_def)
  then obtain s0 where s0: "run_init mem_client NewFeatureService ?es = (Some (s0, 2), ?es)" "sv_buffer s0 = NewRevisionBuffer 1000"
    by (simp add: run_init_def NewFeatureService_def is_int64_small)
  have inv: "rb_inv (sv_buffer s0)" by (simp add: s0(2) rb_inv_new)
  obtain s where s: "watch_loop [(5, put_response ''y'' 5)] s0 = Some (True, [put_v ''y'' 5], s)"
    using watch_loop_spec [OF inv, of "[(5, put_response ''y'' 5)]"] by (auto simp: event_put_v asc)
  have "GetCompensation (snd (GetAllFeatures id s)) s = Some ([], False)"
    using asc by (intro snapshot_revision_stuck [OF g s0(1) _ _ s, THEN conjunct2, THEN conjunct1])
      (simp_all add: put_event_def flag_of_json, simp add: flag_of_def zero_flag_def)
  with s0(1) s show ?thesis by auto
qed

text \<open>
  C35. The server accepts strategies that make its clients panic: a strategy with a default
  value and complete rules passes the validation whatever values its rules have, and if a
  rule with the operator eq or mod has none, every client panics that evaluates it for a
  context with the rule's attribute and no earlier rule that matches.
\<close>

theorem valid_strategy_panics:
  assumes "unmarshal_strategy v = Some st" "fs_DefaultValue st \<noteq> []"
    and "\<forall>r \<in> set (fs_Rules st). ru_Attribute r \<noteq> [] \<and> ru_Operator r \<noteq> []"
    and "fs_Rules st = pre @ r # post" "ru_Operator r \<in> {''eq'', ''mod''}" "ru_Values r = []"
    and "gm_get ctx (ru_Attribute r) \<noteq> None" "\<forall>r' \<in> set pre. matchRule r' ctx = Some False"
    and "gm_get (features_of c) key = Some f" "ff_Type f = TypeStrategy" "ff_Value f = v"
  shows "validatePayload TypeStrategy v = None \<and> evaluate key ctx c = None"
proof -
  have "matchRule r ctx = None" using assms(5,6,7) by (intro matchRule_unsafe) (auto simp: rule_safe_def)
  then have "eval_rules (pre @ r # post) ctx d = None" for d
    using assms(8) by (induction pre) auto
  then have "evaluate key ctx c = None" using assms(1,4,9,10,11) by (simp add: evaluate_def)
  moreover have "validatePayload TypeStrategy v = None"
    using assms(1-3) by (auto simp: validatePayload_def TypeStrategy_def TypeBool_def TypeNumber_def list_ex_iff)
  ultimately show ?thesis by blast
qed

definition empty_rule :: string where
  "empty_rule = ''{\"default_value\":\"off\",\"rules\":[{\"attribute\":\"user\",\"operator\":\"eq\",\"value\":[],\"result\":\"on\"}]}''"

theorem valid_strategy_panics_witness:
  "validatePayload TypeStrategy empty_rule = None \<and>
   evaluate ''k'' [(''user'', ''u'')] (sample_client\<lparr>mc_features :=
     Some [(''k'', zero_flag\<lparr>ff_Type := TypeStrategy, ff_Value := empty_rule\<rparr>)]\<rparr>) = None"
proof -
  let ?r = "\<lparr>ru_Attribute = ''user'', ru_Operator = ''eq'', ru_Values = [], ru_Result = ''on''\<rparr>"
  have st: "unmarshal_strategy empty_rule = Some \<lparr>fs_DefaultValue = ''off'', fs_Rules = [?r]\<rparr>" by code_simp
  show ?thesis
    by (rule valid_strategy_panics [OF st, of "[]" ?r "[]" _ _ _ "zero_flag\<lparr>ff_Type := TypeStrategy, ff_Value := empty_rule\<rparr>"])
       (simp_all add: features_of_def)
qed

end
