(* ===== verification/Post_To_Sdk.thy ===== *)
theory Post_To_Sdk
  imports End_To_End Api_Spec Json_Typing
begin

text \<open>
  The whole way of a change: from the body of \<open>POST /v1/feature\<close> through the database, etcd,
  the watch of the service, the hub and the bytes of a stream to what the SDK evaluates.
\<close>

section \<open>From the request to etcd\<close>

definition request_text :: "CreateFeatureRequest \<Rightarrow> bool" where
  "request_text r \<longleftrightarrow> valid_utf8 (cr_Namespace r) \<and> valid_utf8 (cr_Env r) \<and> valid_utf8 (cr_Key r) \<and>
     valid_utf8 (cr_Value r) \<and> valid_utf8 (cr_Type r)"

lemma create_fields_keep: "fields_keep request_text create_fields"
  by (auto simp: create_fields_def fields_keep_def request_text_def dest!: setter_results)

lemma bind_create_text:
  assumes "bind_create b = Some r"
  shows "request_text r"
proof -
  let ?r0 = "\<lparr>cr_Namespace = [], cr_Env = [], cr_Key = [], cr_Value = [], cr_Type = []\<rparr>"
  obtain j rest where "json_decode b = Some (j, rest)" "decode_struct create_fields j ?r0 = Some r"
    using assms by (auto simp: bind_create_def bind_json_def split: option.splits if_splits)
  then show ?thesis
    using decode_struct_keep [OF _ create_fields_keep] json_decode_text by (fastforce simp: request_text_def)
qed

text \<open>The flag a create stores.\<close>

definition request_flag :: "CreateFeatureRequest \<Rightarrow> int \<Rightarrow> FeatureFlag" where
  "request_flag r v = zero_flag\<lparr>ff_Namespace := cr_Namespace r, ff_Env := cr_Env r, ff_Key := cr_Key r,
     ff_Value := cr_Value r, ff_Type := cr_Type r, ff_Version := v\<rparr>"

definition request_key :: "CreateFeatureRequest \<Rightarrow> string" where
  "request_key r = BuildFeatureKey (cr_Env r) (cr_Namespace r) (cr_Key r)"

lemma create_job:
  assumes "db_ok coll g view base"
    and "CreateFeature g ctx traceID b d = ((200, VersionBody v), job, d1)" "bind_create b = Some r"
  shows "\<exists>oid. job = Some (oid, request_flag r v) \<and> is_int64 v"
proof -
  let ?f = "zero_flag\<lparr>ff_Namespace := cr_Namespace r, ff_Env := cr_Env r, ff_Key := cr_Key r,
    ff_Value := cr_Value r, ff_Version := 0, ff_Type := cr_Type r\<rparr>"
  have s: "SaveFeature g ?f (GetOperator ctx) traceID d = (Inr v, job, d1)"
    using assms(2,3) by (auto simp: CreateFeature_def split: prod.splits sum.splits)
  from SaveFeature_outcome [OF assms(1) s]
  obtain oid where job: "job = Some (oid, ?f\<lparr>ff_Version := v\<rparr>)" by auto
  moreover have "is_int64 v"
    using SaveFeature_tasks [OF assms(1) s] job by (auto simp: tasks_effect_def)
  ultimately show ?thesis by (simp add: request_flag_def)
qed

lemma sync_stores:
  assumes "etcd_ok c eview (=)" "syncToEtcd c g oid (request_flag r v) (es, d1) = (es1, d2)" "eview es1 \<noteq> eview es"
  shows "eview es1 = store_put (request_key r) (ToJSON (request_flag r v)) (eview es)"
proof -
  obtain res e1 where s: "SaveFeatureIfNewer c (request_key r) (request_flag r v) es = (res, e1)" by (rule prod.exhaust)
  have "e1 = es1"
    using assms(2) s by (auto simp: syncToEtcd_def request_key_def request_flag_def split: sum.splits)
  with SaveFeatureIfNewer_alone [OF assms(1) s] assms(3) show ?thesis
    by (auto simp: alone_result_def split: sum.splits repo_error.splits if_splits)
qed

lemma put_stored: "es_kvs (store_put k x st) k = Some kv \<Longrightarrow> kv_Value kv = x \<and> kv_ModRevision kv = es_rev st + 1"
  by (auto simp: store_put_def Let_def)

lemma request_flag_decodes:
  assumes "bind_create b = Some r" "is_int64 v"
  shows "unmarshal_flag (ToJSON (request_flag r v)) = Some (request_flag r v)"
proof -
  have "flag_ints (request_flag r v)" "flag_utf8 (request_flag r v)"
    using bind_create_text [OF assms(1)] assms(2)
    by (simp_all add: request_flag_def flag_ints_def flag_utf8_def request_text_def zero_flag_def is_int64_small)
  then show ?thesis by (simp add: unmarshal_ToJSON flag_valid_id)
qed

section \<open>The bytes of a stream\<close>

text \<open>\<open>c.SSEvent\<close>: gin writes the field names without a space, and JSON for a struct.\<close>

fun sse_lines :: "sse_event \<Rightarrow> string list" where
  "sse_lines (SseMessage m) = message_lines [] m"
| "sse_lines SsePing = event_lines [] ''ping'' ''pong''"
| "sse_lines SseReset = event_lines [] ''reset'' ''revision_too_old''"

lemma stream_skips:
  "stream_loop net (event_lines [] ''ping'' ''pong'' @ ls) new_stream c n = stream_loop net ls new_stream c n"
  "stream_loop net (event_lines [] ''reset'' ''revision_too_old'' @ ls) new_stream c n = stream_loop net ls new_stream c n"
proof -
  have t: "trim_space ''revision_too_old'' = ''revision_too_old''" "unmarshal_message ''revision_too_old'' = None"
    "trim_space ''pong'' = ''pong''" "unmarshal_message ''pong'' = None" by code_simp+
  show "stream_loop net (event_lines [] ''ping'' ''pong'' @ ls) new_stream c n = stream_loop net ls new_stream c n"
    "stream_loop net (event_lines [] ''reset'' ''revision_too_old'' @ ls) new_stream c n = stream_loop net ls new_stream c n"
    by (simp_all add: t event_lines_def stream_field_def has_prefix_def trim_prefix_def new_stream_def)
qed

lemma stream_events:
  "\<forall>m \<in> set (sent evs). message_ok m \<Longrightarrow>
   stream_loop net (concat (map sse_lines evs)) new_stream c n =
     map_option (\<lambda>c1. (c1, n)) (fold_opt handleUpdate (sent evs) c)"
proof (induction evs arbitrary: c rule: sent.induct)
  case (2 m es)
  then show ?case by (simp add: stream_message split: option.split)
qed (simp_all add: stream_skips del: stream_loop.simps(2))

definition fits :: "Message \<Rightarrow> bool" where
  "fits m \<longleftrightarrow> message_ok m \<and> length (jprint (message_json m)) < 65000"

lemma sse_lines_plain:
  assumes "\<forall>m \<in> set (sent evs). fits m" "l \<in> set (concat (map sse_lines evs))"
  shows "plain_line l"
  using assms
proof (induction evs rule: sent.induct)
  case (2 m es)
  show ?case
  proof (cases "l \<in> set (message_lines [] m)")
    case True
    with 2 show ?thesis
      using no_control_newline [OF no_control_jprint(1), of "message_json m"]
      by (auto simp: message_lines_def event_lines_def plain_line_def MaxScanTokenSize_def fits_def)
  qed (use 2 in auto)
qed (auto simp: event_lines_def plain_line_def MaxScanTokenSize_def)

lemma round_applies:
  assumes "net (watch_url c) (mc_apiKey c) n = (Body (unlines (concat (map sse_lines evs))), n1)"
    and "\<forall>m \<in> set (sent evs). fits m" "fold_opt handleUpdate (sent evs) c = Some c1"
  shows "watch_round net rnd backoff c n = Some (0, Second, c1, n1)"
proof -
  have "scan_lines (unlines (concat (map sse_lines evs))) = concat (map sse_lines evs)"
    using sse_lines_plain [OF assms(2)] by (intro scan_lines_unlines) blast
  then show ?thesis
    using stream_events [of evs net c n1] assms by (simp add: watch_round_def fits_def)
qed

section \<open>The scene\<close>

text \<open>
  The service has seen \<open>ws1\<close> when the handler of the stream reads the history, and then
  \<open>ws2\<close>, which gave the messages \<open>ms\<close>; its state in between is \<open>s1\<close>.
\<close>

definition served :: "(int \<times> watch_response) list \<Rightarrow> (int \<times> watch_response) list \<Rightarrow> nat \<Rightarrow> Message list \<Rightarrow> service \<Rightarrow> bool" where
  "served ws1 ws2 n ms s1 \<longleftrightarrow> (\<exists>ms1 ms2 s2.
     watch_loop ws1 NewFeatureService = Some (True, ms1, s1) \<and> watch_loop ws2 s1 = Some (True, ms2, s2) \<and>
     (\<forall>(now, w) \<in> set (ws1 @ ws2). \<not> wr_Canceled w) \<and> in_revision_order (loop_events (ws1 @ ws2)) \<and>
     ms1 \<noteq> [] \<and> n = length ms1 \<and> ms = ms1 @ ms2 \<and> (\<forall>m \<in> set ms. msg_Type m \<noteq> ''ping'' \<and> fits m))"

text \<open>
  The client registered with the hub before message \<open>n\<close> was broadcast, among other clients
  and heartbeats; it is still connected and its handler has received \<open>got\<close>, all there was.
\<close>

definition streamed :: "Client \<Rightarrow> nat \<Rightarrow> Message list \<Rightarrow> Message list \<Rightarrow> bool" where
  "streamed cl n ms got \<longleftrightarrow> (\<exists>heap h0 i evs h1 j.
     hub_reachable heap h0 \<and> hb_heap h0 i = cl \<and> run_ok hub_step event_ok (Register i # evs) h0 \<and>
     run_log hub_step (received i) (Register i # evs) h0 = Some (got, h1) \<and> i \<in> set (hb_clients h1) \<and>
     cl_Send (hb_heap h1 i) = [] \<and> concat (map broadcast_of evs) = drop j ms \<and> j \<le> n)"

text \<open>The SDK asks with its own environment and namespaces, and was up to date at its revision.\<close>

definition asks :: "MizuClient \<Rightarrow> watch_query \<Rightarrow> bool" where
  "asks sdk q \<longleftrightarrow> wq_last_rev q = show_int (mc_lastRev sdk) \<and> is_int64 (mc_lastRev sdk) \<and> wq_env q = mc_env sdk \<and>
     wq_namespace q = join_with '','' (mc_namespaces sdk)"

definition was_synced :: "MizuClient \<Rightarrow> Client \<Rightarrow> Message list \<Rightarrow> (string \<Rightarrow> FeatureFlag option) \<Rightarrow> bool" where
  "was_synced sdk cl ms m0 \<longleftrightarrow> client_ok sdk \<and>
     gm_get (features_of sdk) = state_after (filter (\<lambda>m. msg_Revision m \<le> mc_lastRev sdk \<and> in_scope cl m) ms) m0"

text \<open>The last event of the watch for a flag in the scope of the client.\<close>

definition last_event_of :: "Client \<Rightarrow> string \<Rightarrow> watch_event \<Rightarrow> watch_event list \<Rightarrow> bool" where
  "last_event_of cl key ev evs \<longleftrightarrow> (\<exists>pre post. evs = pre @ ev # post \<and>
     (\<forall>ev' \<in> set post. \<forall>now m. event_message now ev' = Some m \<and> in_scope cl m \<longrightarrow> msg_Key m \<noteq> key))"

lemma client_in_scope:
  assumes "watch_client q = Some cl" "asks sdk q"
  shows "cl_Env cl = mc_env sdk"
    "ns \<noteq> [] \<Longrightarrow> ns \<in> trim_space ` set (split_on (CHR '','') (join_with '','' (mc_namespaces sdk))) \<Longrightarrow>
     gm_get (cl_Namespaces cl) ns = Some True"
proof -
  have c: "cl_Env cl = wq_env q" "cl_Namespaces cl = parse_namespaces (wq_namespace q)"
    using assms(1) by (auto simp: watch_client_def Let_def split: if_splits)
  then show "cl_Env cl = mc_env sdk" using assms(2) by (simp add: asks_def)
  assume ns: "ns \<noteq> []" "ns \<in> trim_space ` set (split_on (CHR '','') (join_with '','' (mc_namespaces sdk)))"
  have "wq_namespace q \<noteq> []" using assms(1) by (auto simp: watch_client_def parse_namespaces_def Let_def split: if_splits)
  with c ns assms(2) show "gm_get (cl_Namespaces cl) ns = Some True" by (simp add: asks_def parse_namespaces_get)
qed

lemma stream_applied:
  assumes "served ws1 ws2 n ms s1" "watch_client q = Some cl" "\<not> is_wildcard cl" "streamed cl n ms got"
    and "asks sdk q" "was_synced sdk cl ms m0" "GetCompensation (watch_lastRev q) s1 = Some (res, True)"
  shows "(\<forall>m \<in> set (sent (WatchFeature q (\<lambda>_. (res, True)) got)). fits m) \<and>
    (\<exists>sdk'. fold_opt handleUpdate (sent (WatchFeature q (\<lambda>_. (res, True)) got)) sdk = Some sdk' \<and>
       gm_get (features_of sdk') = state_after (filter (in_scope cl) (loop_messages (ws1 @ ws2))) m0)"
proof -
  obtain ms1 ms2 s2 where sv: "watch_loop ws1 NewFeatureService = Some (True, ms1, s1)" "watch_loop ws2 s1 = Some (True, ms2, s2)"
    "\<forall>(now, w) \<in> set (ws1 @ ws2). \<not> wr_Canceled w" "in_revision_order (loop_events (ws1 @ ws2))"
    "ms1 \<noteq> []" "n = length ms1" "ms = ms1 @ ms2" "\<forall>m \<in> set ms. msg_Type m \<noteq> ''ping'' \<and> fits m"
    using assms(1) unfolding served_def by blast
  obtain heap h0 i evs h1 j where hub: "hub_reachable heap h0" "hb_heap h0 i = cl" "run_ok hub_step event_ok (Register i # evs) h0"
     "run_log hub_step (received i) (Register i # evs) h0 = Some (got, h1)" "i \<in> set (hb_clients h1)"
     "cl_Send (hb_heap h1 i) = []" "concat (map broadcast_of evs) = drop j ms" "j \<le> n"
    using assms(4) unfolding streamed_def by blast
  have all: "ms1 @ ms2 = loop_messages (ws1 @ ws2)" using two_stretches(1,2) [OF sv(1-4)] by simp
  have noping: "\<forall>m \<in> set (ms1 @ ms2). msg_Type m \<noteq> ''ping''" using sv(7,8) by simp
  have q: "wq_last_rev q = show_int (mc_lastRev sdk)" "is_int64 (mc_lastRev sdk)" using assms(5) by (simp_all add: asks_def)
  have sync: "client_ok sdk"
    "gm_get (features_of sdk) = state_after (filter (\<lambda>m. msg_Revision m \<le> mc_lastRev sdk \<and> in_scope cl m) (ms1 @ ms2)) m0"
    using assms(6) sv(7) by (simp_all add: was_synced_def)
  note P = pipeline_state [OF sv(1-5) noping assms(2,3) hub(1-6) hub(7)[unfolded sv(7)] hub(8)[unfolded sv(6)] sync(1) q sync(2) assms(7)]
  then show ?thesis using sv(7,8) unfolding all by blast
qed

section \<open>Property\<close>

text \<open>
  C1. What an operator posts is what the SDK evaluates. A create that was answered with a
  version was pushed to etcd, the watch delivered that write, and no later event concerns
  the flag. An SDK client in the scope of the flag that was up to date at its revision
  connects, and its stream is the bytes of what the handler sent, whatever part of the
  messages it got as history and which live, with heartbeats and other clients anywhere
  between. Then its round of the watch loop does not panic; it has the flag with the value,
  type and version of the create under the revision of the write in etcd; and any flag but a
  strategy is evaluated to the very value posted.
\<close>

theorem post_to_sdk:
  assumes "db_ok coll g view base" "etcd_ok c eview (=)"
    and "bind_create b = Some r" "CreateFeature g ctx traceID b d = ((200, VersionBody v), Some (oid, f), d1)"
    and "syncToEtcd c g oid f (es, d1) = (es1, d2)" "eview es1 \<noteq> eview es"
    and "served ws1 ws2 n ms s1" "last_event_of cl (cr_Key r) ev (loop_events (ws1 @ ws2))"
      "\<not> we_Delete ev" "es_kvs (eview es1) (request_key r) = Some (we_Kv ev)"
    and "watch_client q = Some cl" "\<not> is_wildcard cl" "streamed cl n ms got"
    and "asks sdk q" "was_synced sdk cl ms m0" "GetCompensation (watch_lastRev q) s1 = Some (res, True)"
    and "cr_Env r = mc_env sdk" "cr_Namespace r \<in> trim_space ` set (split_on (CHR '','') (join_with '','' (mc_namespaces sdk)))"
    and "net (watch_url sdk) (mc_apiKey sdk) nt =
      (Body (unlines (concat (map sse_lines (WatchFeature q (\<lambda>_. (res, True)) got)))), nt1)"
  shows "\<exists>sdk'. watch_round net rnd backoff sdk nt = Some (0, Second, sdk', nt1) \<and>
    map_option sdk_view (gm_get (features_of sdk') (cr_Key r)) = Some (cr_Value r, cr_Type r, v, es_rev (eview es) + 1) \<and>
    (cr_Type r \<noteq> TypeStrategy \<longrightarrow> evaluate (cr_Key r) ctx' sdk' = Some (cr_Value r, True))"
proof -
  from create_job [OF assms(1,4,3)] have f: "f = request_flag r v" and v: "is_int64 v" by auto
  from put_stored [of _ _ "eview es"] sync_stores [OF assms(2) assms(5)[unfolded f] assms(6)] assms(10)
  have kv: "kv_Value (we_Kv ev) = ToJSON (request_flag r v)" "kv_ModRevision (we_Kv ev) = es_rev (eview es) + 1"
    by metis+
  have flag: "unmarshal_flag (kv_Value (we_Kv ev)) = Some (request_flag r v)"
    unfolding kv(1) by (rule request_flag_decodes [OF assms(3) v])
  obtain pre post where evs: "loop_events (ws1 @ ws2) = pre @ ev # post"
    "\<forall>ev' \<in> set post. \<forall>now m. event_message now ev' = Some m \<and> in_scope cl m \<longrightarrow> msg_Key m \<noteq> ff_Key (request_flag r v)"
    using assms(8) by (auto simp: last_event_of_def request_flag_def)
  have scope: "ff_Env (request_flag r v) = cl_Env cl" "gm_get (cl_Namespaces cl) (ff_Namespace (request_flag r v)) = Some True"
    using client_in_scope [OF assms(11,14)] bind_create_valid [OF assms(3)] assms(17,18) by (simp_all add: request_flag_def)
  from stream_applied [OF assms(7,11-16)] obtain sdk' where
    fits: "\<forall>m \<in> set (sent (WatchFeature q (\<lambda>_. (res, True)) got)). fits m" and
    run: "fold_opt handleUpdate (sent (WatchFeature q (\<lambda>_. (res, True)) got)) sdk = Some sdk'" and
    st: "gm_get (features_of sdk') = state_after (filter (in_scope cl) (loop_messages (ws1 @ ws2))) m0" by blast
  have seen: "map_option sdk_view (gm_get (features_of sdk') (cr_Key r)) = Some (cr_Value r, cr_Type r, v, es_rev (eview es) + 1)"
    using last_put_seen [OF evs(1) assms(9) flag scope evs(2), of m0] unfolding st kv(2) by (simp add: request_flag_def)
  then have "cr_Type r \<noteq> TypeStrategy \<longrightarrow> evaluate (cr_Key r) ctx' sdk' = Some (cr_Value r, True)"
    by (auto simp: sdk_view_def evaluate_def)
  with round_applies [where net = net, OF assms(19) fits run] seen show ?thesis by blast
qed

section \<open>A concrete run\<close>

text \<open>The flag \<open>k\<close> is at the value x when the create of \<open>post_body\<close> comes in.\<close>

abbreviation x_stored :: mem_etcd where
  "x_stored \<equiv> mem_put flag_key (ToJSON (flag_of ''x'')) ([], 4)"

definition posted_flag :: FeatureFlag where "posted_flag = request_flag post_request 4"

definition posted_event :: watch_event where
  "posted_event = \<lparr>we_Delete = False, we_Kv = \<lparr>kv_Key = flag_key, kv_Value = ToJSON posted_flag,
     kv_CreateRevision = 5, kv_ModRevision = 6\<rparr>\<rparr>"

definition posted_msg :: Message where
  "posted_msg = \<lparr>msg_Namespace = ''a'', msg_Env = ''prod'', msg_Key = ''k'', msg_Value = ''on'', msg_Type = ''string'',
     msg_Version = 4, msg_Revision = 6, msg_Action = PUT, msg_UpdatedAt = 6\<rparr>"

abbreviation posted_ws :: "(int \<times> watch_response) list" where
  "posted_ws \<equiv> [(6, \<lparr>wr_Canceled = False, wr_Events = [posted_event]\<rparr>)]"

lemma posted_fields: "posted_flag = flag_of ''on'' \<lparr>ff_Version := 4\<rparr>"
  by (simp add: posted_flag_def request_flag_def post_request_def flag_of_def zero_flag_def)

lemma post_runs:
  "\<exists>d1. CreateFeature (mem_gorm id) Background [] post_body sample_db = ((200, VersionBody 4), Some (4, posted_flag), d1)"
  by (simp add: CreateFeature_def post_body_binds post_request_def mem_run_defs sample_defs zero_flag_def is_int64_small
      posted_fields flag_of_def StatusPending_def new_task_def)

lemma posted_json: "unmarshal_flag (ToJSON posted_flag) = Some posted_flag"
  unfolding posted_flag_def by (rule request_flag_decodes [OF post_body_binds]) (simp add: is_int64_small)

lemma posted_syncs:
  "\<exists>d2. syncToEtcd mem_client (mem_gorm id) 4 posted_flag (x_stored, d1) = (mem_put flag_key (ToJSON posted_flag) x_stored, d2)"
proof -
  have k: "BuildFeatureKey (ff_Env posted_flag) (ff_Namespace posted_flag) (ff_Key posted_flag) = flag_key"
    by (simp add: posted_fields flag_of_def flag_key_def)
  have ver: "ff_Version posted_flag = 4" "ff_Version (flag_of v) = 0" for v
    by (simp_all add: posted_fields flag_of_def zero_flag_def)
  have x: "unmarshal_flag (ToJSON (flag_of ''x'')) = Some (flag_of ''x'')" by (rule flag_of_json) (simp add: is_ascii_def)
  have "save_round mem_client flag_key posted_flag x_stored = (Some (Inr 6), mem_put flag_key (ToJSON posted_flag) x_stored)"
    by (simp add: save_round_def save_commit_def mem_client_def mem_view_def mem_put_def Let_def x ver)
  then have "SaveFeatureIfNewer mem_client flag_key posted_flag x_stored = (Inr 6, mem_put flag_key (ToJSON posted_flag) x_stored)"
    unfolding SaveFeatureIfNewer_def by (subst save_loop.simps) simp
  then show ?thesis by (simp add: syncToEtcd_def k)
qed

lemma posted_messages: "event_messages 6 [posted_event] = [posted_msg]"
proof -
  have "ff_Namespace posted_flag = ''a''" "ff_Env posted_flag = ''prod''" "ff_Key posted_flag = ''k''" "ff_Value posted_flag = ''on''"
    "ff_Type posted_flag = ''string''" "ff_Version posted_flag = 4"
    by (simp_all add: posted_fields flag_of_def zero_flag_def)
  then have "event_message 6 posted_event = Some posted_msg"
    by (simp add: event_message_def posted_event_def posted_json put_message_def posted_msg_def)
  then show ?thesis by (simp add: event_messages_def map_filter_simps)
qed

lemma fits_all: "\<forall>m \<in> set [put_v ''x'' 5, posted_msg]. msg_Type m \<noteq> ''ping'' \<and> fits m"
proof -
  have "length (jprint (message_json (put_v ''x'' 5))) \<le> 300 \<and> length (jprint (message_json posted_msg)) \<le> 300"
    by code_simp
  then have l: "length (jprint (message_json (put_v ''x'' 5))) < 65000" "length (jprint (message_json posted_msg)) < 65000"
    by linarith+
  have "message_ok (put_v ''x'' 5)" "message_ok posted_msg"
    by (simp_all add: message_ok_def put_v_def put_message_def put_event_def flag_of_def zero_flag_def posted_msg_def
        is_int64_small ascii_valid is_ascii_def PUT_def)
  with l show ?thesis by (simp add: fits_def put_v_fields) (simp add: posted_msg_def)
qed

lemma posted_served: "\<exists>s1. served [(5, put_response ''x'' 5)] posted_ws 1 [put_v ''x'' 5, posted_msg] s1 \<and>
    GetCompensation (watch_lastRev one_query) s1 = Some ([], True)"
proof -
  let ?ws1 = "[(5, put_response ''x'' 5)]"
  have asc: "is_ascii ''x''" by (simp add: is_ascii_def)
  obtain s1 where s1: "watch_loop ?ws1 NewFeatureService = Some (True, [put_v ''x'' 5], s1)" "rb_inv (sv_buffer s1)"
    "fold_opt AddMessage [put_v ''x'' 5] (NewRevisionBuffer 1000) = Some (sv_buffer s1)"
    using watch_loop_spec [of NewFeatureService ?ws1] by (auto simp: event_put_v asc NewFeatureService_def rb_inv_new)
  obtain s2 where s2: "watch_loop posted_ws s1 = Some (True, [posted_msg], s2)"
    using watch_loop_spec [OF s1(2), of posted_ws] by (auto simp: posted_messages)
  have "rb_log (sv_buffer s1) = [put_v ''x'' 5]"
    using ring.add_all_SomeD(3) [OF rb_inv_new s1(3)] by (simp add: rb_size_new last_n_def)
  with GetSince_spec [OF s1(2), of 5] have comp: "GetCompensation (watch_lastRev one_query) s1 = Some ([], True)"
    by (simp add: GetCompensation_def one_query_client since_spec_def increasing_def put_v_fields)
  have "served ?ws1 posted_ws 1 [put_v ''x'' 5, posted_msg] s1"
    unfolding served_def using s1(1) s2 fits_all
    by (intro exI [of _ "[put_v ''x'' 5]"] exI [of _ "[posted_msg]"] exI [of _ s2])
       (auto simp: put_event_def posted_event_def)
  with comp show ?thesis by blast
qed

abbreviation posted_run :: "hub_event list" where
  "posted_run \<equiv> [Broadcast id posted_msg, Heartbeat id, Receive 0, Receive 0]"

lemma posted_streamed: "streamed one_stream 1 [put_v ''x'' 5, posted_msg] [posted_msg, ping]"
proof -
  let ?h = "NewHub (\<lambda>_. one_stream)"
  have ok: "run_ok hub_step event_ok (Register 0 # posted_run) ?h"
    unfolding run_ok.simps(2) [of _ _ "Register 0"] hub_step.simps option.case
    by (intro conjI events_ok_plain [where h = ?h]) (simp_all add: NewHub_def one_stream_def)
  have "map_option (\<lambda>(got, h'). (got, 0 \<in> set (hb_clients h'), cl_Send (hb_heap h' 0)))
      (run_log hub_step (received 0) (Register 0 # posted_run) ?h) = Some ([posted_msg, ping], True, [])"
    by code_simp
  then obtain h1 where h1: "run_log hub_step (received 0) (Register 0 # posted_run) ?h = Some ([posted_msg, ping], h1)"
    "0 \<in> set (hb_clients h1)" "cl_Send (hb_heap h1 0) = []" by (auto simp del: run_log.simps)
  have "hb_heap ?h 0 = one_stream" "concat (map broadcast_of posted_run) = drop 1 [put_v ''x'' 5, posted_msg]"
    by (simp_all add: NewHub_def broadcast_of_def)
  with hub_reachable.start [of "\<lambda>_. one_stream"] ok h1 show ?thesis unfolding streamed_def by (meson order_refl)
qed

lemma one_asks: "asks up_to_date one_query"
proof -
  have "show_int 5 = ''5''" by code_simp
  then show ?thesis
    by (simp add: asks_def one_query_def up_to_date_def sample_client_def NewMizuClient_def is_int64_small)
qed

lemma one_synced: "was_synced up_to_date one_stream [put_v ''x'' 5, posted_msg] (\<lambda>_. None)"
  by (simp add: was_synced_def up_to_date_def put_v_fields features_of_def state_after_one fun_eq_iff PUT_def DELETE_def
      client_ok_def gm_wf_def posted_msg_def)

abbreviation posted_net :: "unit network" where
  "posted_net \<equiv> \<lambda>url key n. (Body (unlines (concat (map sse_lines (WatchFeature one_query (\<lambda>_. ([], True)) [posted_msg, ping])))), n)"

theorem post_to_sdk_witness:
  "\<exists>d1 d2 sdk'.
    CreateFeature (mem_gorm id) Background [] post_body sample_db = ((200, VersionBody 4), Some (4, posted_flag), d1) \<and>
    syncToEtcd mem_client (mem_gorm id) 4 posted_flag (x_stored, d1) = (mem_put flag_key (ToJSON posted_flag) x_stored, d2) \<and>
    watch_round posted_net 0 Second up_to_date () = Some (0, Second, sdk', ()) \<and>
    evaluate ''k'' [] sdk' = Some (''on'', True)"
proof -
  obtain d1 where post: "CreateFeature (mem_gorm id) Background [] post_body sample_db = ((200, VersionBody 4), Some (4, posted_flag), d1)"
    using post_runs by blast
  obtain d2 where sync: "syncToEtcd mem_client (mem_gorm id) 4 posted_flag (x_stored, d1) = (mem_put flag_key (ToJSON posted_flag) x_stored, d2)"
    using posted_syncs by blast
  obtain s1 where s1: "served [(5, put_response ''x'' 5)] posted_ws 1 [put_v ''x'' 5, posted_msg] s1"
    "GetCompensation (watch_lastRev one_query) s1 = Some ([], True)" using posted_served by blast
  have moved: "mem_view (mem_put flag_key (ToJSON posted_flag) x_stored) \<noteq> mem_view x_stored"
    by (simp add: mem_view_def mem_put_def Let_def)
  have ev: "last_event_of one_stream (cr_Key post_request) posted_event (loop_events ([(5, put_response ''x'' 5)] @ posted_ws))"
    unfolding last_event_of_def by (intro exI [of _ "[put_event flag_key (flag_of ''x'') 5]"] exI [of _ "[]"]) simp
  have kv: "es_kvs (mem_view (mem_put flag_key (ToJSON posted_flag) x_stored)) (request_key post_request) = Some (we_Kv posted_event)"
    by (simp add: mem_view_def mem_put_def Let_def request_key_def post_request_def flag_key_def posted_event_def)
  have put: "\<not> we_Delete posted_event" by (simp add: posted_event_def)
  have scope: "\<not> is_wildcard one_stream" "cr_Env post_request = mc_env up_to_date"
    by (simp_all add: is_wildcard_def one_stream_def post_request_def up_to_date_def sample_client_def NewMizuClient_def)
  have "trim_space ` set (split_on (CHR '','') (join_with '','' [''a''])) = {''a''}" by code_simp
  then have ns: "cr_Namespace post_request \<in> trim_space ` set (split_on (CHR '','') (join_with '','' (mc_namespaces up_to_date)))"
    by (simp add: post_request_def up_to_date_def sample_client_def NewMizuClient_def)
  have str: "cr_Type post_request \<noteq> TypeStrategy" "cr_Value post_request = ''on''" "cr_Key post_request = ''k''"
    by (simp_all add: post_request_def TypeStrategy_def)
  from post_to_sdk [where net = posted_net and rnd = 0 and backoff = Second and nt = "()" and ctx' = "[]",
      OF mem_db_ok mem_etcd_ok post_body_binds post sync moved s1(1) ev put kv
      one_query_client(1) scope(1) posted_streamed one_asks one_synced s1(2) scope(2) ns refl]
  obtain sdk' where "watch_round posted_net 0 Second up_to_date () = Some (0, Second, sdk', ())"
    "evaluate ''k'' [] sdk' = Some (''on'', True)" using str by auto
  with post sync show ?thesis by blast
qed

end
