(* ===== verification/Stream_Cuts.thy ===== *)
theory Stream_Cuts
  imports Post_To_Sdk
begin

text \<open>
  Connections break. A stream may be cut at any byte, and the SDK connects again. What it
  has then is the history up to its revision, but for the messages that fell between the
  replayed history and the live stream of a connection.
\<close>

section \<open>A prefix of the bytes\<close>

lemma unlines_cut:
  "\<exists>j p q. take k (unlines ls) = unlines (take j ls) @ p \<and> (p = [] \<or> j < length ls \<and> ls ! j = p @ q)"
proof (induction ls arbitrary: k)
  case (Cons l ls)
  show ?case
  proof (cases "k \<le> length l")
    case True
    then show ?thesis
      by (intro exI [of _ 0] exI [of _ "take k l"] exI [of _ "drop k l"]) (simp add: unlines_def)
  next
    case False
    then obtain k' where k: "k = Suc (length l) + k'" by (metis Suc_leI le_Suc_ex not_le)
    obtain j p q where "take k' (unlines ls) = unlines (take j ls) @ p" "p = [] \<or> j < length ls \<and> ls ! j = p @ q"
      using Cons.IH by blast
    with k show ?thesis
      by (intro exI [of _ "Suc j"] exI [of _ p] exI [of _ q]) (simp add: unlines_def)
  qed
qed (simp add: unlines_def)

lemma split_on_cut:
  "\<forall>l \<in> set ls. plain_line l \<Longrightarrow> CHR 10 \<notin> set p \<Longrightarrow> split_on (CHR 10) (unlines ls @ p) = ls @ [p]"
  by (induction ls) (auto simp: unlines_def plain_line_def split_on_append_sep split_on_no_sep)

lemma scan_lines_cut:
  assumes "\<forall>l \<in> set ls. plain_line l" "plain_line p"
  shows "scan_lines (unlines ls @ p) = ls @ (if p = [] then [] else [p])"
proof -
  have c: "CHR 10 \<notin> set p" using assms(2) by (simp add: plain_line_def)
  have "\<forall>l \<in> set (ls @ (if p = [] then [] else [p])). length l < MaxScanTokenSize \<and> drop_cr l = l"
    using assms by (auto simp: drop_cr_plain) (auto simp: plain_line_def)
  then show ?thesis
    unfolding scan_lines_def split_on_cut [OF assms(1) c] by (auto simp: Let_def takeWhile_eq_all_conv [THEN iffD2] intro!: map_idI)
qed

section \<open>What a cut stream does\<close>

lemma stream_quiet: "\<forall>l \<in> set ls. l \<noteq> [] \<Longrightarrow> stream_loop net ls st c n = Some (c, n)"
  by (induction ls arbitrary: st) auto

lemma sse_lines_three: "\<exists>a b. sse_lines ev = [a, b, []] \<and> a \<noteq> [] \<and> b \<noteq> []"
  by (cases ev) (auto simp: message_lines_def event_lines_def)

lemma stream_one:
  assumes "\<forall>m \<in> set (sent [ev]). message_ok m"
  shows "stream_loop net (sse_lines ev @ ls) new_stream c n =
    (case fold_opt handleUpdate (sent [ev]) c of None \<Rightarrow> None | Some c1 \<Rightarrow> stream_loop net ls new_stream c1 n)"
  using assms by (cases ev) (simp_all add: stream_message stream_skips del: stream_loop.simps split: option.split)

lemma sent_Cons: "sent (ev # evs) = sent [ev] @ sent evs"
  using sent_append [of "[ev]" evs] by simp

lemma stream_cut:
  assumes "\<forall>m \<in> set (sent evs). message_ok m" "\<forall>p \<in> set ps. p \<noteq> []"
  shows "\<exists>e. stream_loop net (take j (concat (map sse_lines evs)) @ ps) new_stream c n =
    map_option (\<lambda>c1. (c1, n)) (fold_opt handleUpdate (sent (take e evs)) c)"
  using assms(1)
proof (induction evs arbitrary: j c)
  case Nil
  show ?case using stream_quiet [of ps net new_stream c n] assms(2) by (intro exI [of _ 0]) simp
next
  case (Cons ev evs)
  obtain a b where three: "sse_lines ev = [a, b, []]" "a \<noteq> []" "b \<noteq> []" using sse_lines_three by blast
  have ok: "\<forall>m \<in> set (sent [ev]). message_ok m" "\<forall>m \<in> set (sent evs). message_ok m"
    using Cons.prems unfolding sent_Cons [of ev evs] by auto
  show ?case
  proof (cases "j < 3")
    case True
    then have "take j (concat (map sse_lines (ev # evs))) = take j [a, b]"
      by (cases j; cases "j - 1"; cases "j - 2") (auto simp: three numeral_eq_Suc)
    moreover have "\<forall>l \<in> set (take j [a, b] @ ps). l \<noteq> []"
      using three assms(2) by (auto dest: in_set_takeD)
    ultimately show ?thesis using stream_quiet [of "take j [a, b] @ ps" net new_stream c n] by (intro exI [of _ 0]) simp
  next
    case False
    then have t: "take j (concat (map sse_lines (ev # evs))) = sse_lines ev @ take (j - 3) (concat (map sse_lines evs))"
      by (simp add: three take_Cons' numeral_eq_Suc)
    show ?thesis
    proof (cases "fold_opt handleUpdate (sent [ev]) c")
      case None
      then show ?thesis
        by (intro exI [of _ 1]) (simp only: t append_assoc stream_one [OF ok(1)] option.case take_Suc_Cons One_nat_def take_0 option.map)
    next
      case (Some c1)
      obtain e where "stream_loop net (take (j - 3) (concat (map sse_lines evs)) @ ps) new_stream c1 n =
          map_option (\<lambda>c1. (c1, n)) (fold_opt handleUpdate (sent (take e evs)) c1)"
        using Cons.IH [OF ok(2)] by blast
      moreover have "fold_opt handleUpdate (sent (take (Suc e) (ev # evs))) c = fold_opt handleUpdate (sent (take e evs)) c1"
        using Some by (simp only: take_Suc_Cons sent_Cons [of ev "take e evs"]) (simp add: fold_opt_append)
      ultimately show ?thesis
        using Some by (intro exI [of _ "Suc e"]) (simp only: t append_assoc stream_one [OF ok(1)] option.case)
    qed
  qed
qed

lemma round_cut:
  assumes "net (watch_url c) (mc_apiKey c) n = (Body (take k (unlines (concat (map sse_lines evs)))), n1)"
    and "\<forall>m \<in> set (sent evs). fits m"
  shows "\<exists>e. watch_round net rnd backoff c n =
    map_option (\<lambda>c1. (0, Second, c1, n1)) (fold_opt handleUpdate (sent (take e evs)) c)"
proof -
  let ?ls = "concat (map sse_lines evs)"
  have plain: "\<forall>l \<in> set ?ls. plain_line l" using sse_lines_plain [OF assms(2)] by blast
  obtain j p q where cut: "take k (unlines ?ls) = unlines (take j ?ls) @ p" "p = [] \<or> j < length ?ls \<and> ?ls ! j = p @ q"
    using unlines_cut by blast
  have p: "plain_line p"
  proof (cases "p = []")
    case False
    with cut(2) have "p @ q \<in> set ?ls" by (metis nth_mem)
    with plain have "plain_line (p @ q)" by blast
    then show ?thesis by (simp add: plain_line_def)
  qed (simp add: plain_line_def MaxScanTokenSize_def)
  have "\<forall>l \<in> set (take j ?ls). plain_line l" using plain by (meson in_set_takeD)
  from scan_lines_cut [OF this p] have scan: "scan_lines (take k (unlines ?ls)) = take j ?ls @ (if p = [] then [] else [p])"
    unfolding cut(1) .
  have ok: "\<forall>m \<in> set (sent evs). message_ok m" using assms(2) by (simp add: fits_def)
  have "\<forall>x \<in> set (if p = [] then [] else [p]). x \<noteq> []" by simp
  from stream_cut [OF ok this, where net = net and j = j and c = c and n = n1] obtain e where
    "stream_loop net (take j ?ls @ (if p = [] then [] else [p])) new_stream c n1 =
      map_option (\<lambda>c1. (c1, n1)) (fold_opt handleUpdate (sent (take e evs)) c)" by (rule exE)
  then have "watch_round net rnd backoff c n =
      map_option (\<lambda>(c1, n2). (0, Second, c1, n2)) (map_option (\<lambda>c1. (c1, n1)) (fold_opt handleUpdate (sent (take e evs)) c))"
    by (simp only: watch_round_def assms(1) scan prod.case http_result.case)
  then show ?thesis by (intro exI [of _ e]) (simp only: option.map_comp comp_def prod.case)
qed

section \<open>The client after a part of its messages\<close>

lemma fold_max_spec:
  "fold max xs a \<in> insert a (set xs)" "a \<le> fold max xs a" "\<forall>x \<in> set xs. x \<le> fold max xs (a :: int)"
proof (induction xs arbitrary: a)
  case (Cons x xs)
  { case 1 show ?case using Cons.IH(1) [of "max x a"] by (auto simp: max_def) }
  { case 2 show ?case using Cons.IH(2) [of "max x a"] by simp }
  { case 3 show ?case using Cons.IH(2,3) [of "max x a"] by auto }
qed simp_all

lemma increasing_prefix:
  assumes "increasing (ps @ qs)" "\<forall>m \<in> set (ps @ qs). r < msg_Revision m"
  shows "filter (\<lambda>m. msg_Revision m \<le> fold max (map msg_Revision ps) r) (ps @ qs) = ps"
proof -
  let ?r = "fold max (map msg_Revision ps) r"
  have "\<not> msg_Revision m \<le> ?r" if "m \<in> set qs" for m
  proof -
    have "r < msg_Revision m" "\<forall>p \<in> set ps. msg_Revision p < msg_Revision m"
      using assms that by (auto simp: increasing_def sorted_wrt_append)
    with fold_max_spec(1) [of "map msg_Revision ps" r] show ?thesis by auto
  qed
  moreover have "msg_Revision m \<le> ?r" if "m \<in> set ps" for m
    using fold_max_spec(3) [of "map msg_Revision ps" r] that by simp
  ultimately show ?thesis by (simp add: filter_empty_conv)
qed

text \<open>A client that has all messages in scope up to its revision but those of \<open>lost\<close>.\<close>

definition synced_but :: "MizuClient \<Rightarrow> Client \<Rightarrow> Message list \<Rightarrow> Message set \<Rightarrow> (string \<Rightarrow> FeatureFlag option) \<Rightarrow> bool" where
  "synced_but sdk cl ms lost m0 \<longleftrightarrow> client_ok sdk \<and> (\<forall>m \<in> lost. msg_Revision m \<le> mc_lastRev sdk) \<and>
     gm_get (features_of sdk) = state_after (filter (\<lambda>m. msg_Revision m \<le> mc_lastRev sdk \<and> in_scope cl m \<and> m \<notin> lost) ms) m0"

text \<open>
  A stream that sends the newer messages in scope without those of \<open>gap\<close>, applied up to some
  point: the messages of the gap that the client's revision passes are lost.
\<close>

lemma synced_prefix:
  assumes "synced_but sdk cl ms lost m0" "increasing ms"
    and new: "filter (\<lambda>m. mc_lastRev sdk < msg_Revision m \<and> in_scope cl m \<and> m \<notin> gap) ms = ps @ qs"
  shows "\<exists>sdk'. fold_opt handleUpdate ps sdk = Some sdk' \<and>
    synced_but sdk' cl ms (lost \<union> {m \<in> gap. mc_lastRev sdk < msg_Revision m \<and> msg_Revision m \<le> mc_lastRev sdk' \<and> in_scope cl m}) m0 \<and>
    mc_lastRev sdk \<le> mc_lastRev sdk' \<and> mc_lastRev sdk' \<in> insert (mc_lastRev sdk) (msg_Revision ` set ms) \<and>
    gm_get (features_of sdk') = state_after ps (gm_get (features_of sdk))"
proof -
  let ?r = "mc_lastRev sdk" and ?r' = "fold max (map msg_Revision ps) (mc_lastRev sdk)"
  define lost' where "lost' = lost \<union> {m \<in> gap. ?r < msg_Revision m \<and> msg_Revision m \<le> ?r' \<and> in_scope cl m}"
  have old: "\<forall>m \<in> lost. msg_Revision m \<le> ?r" using assms(1) by (simp add: synced_but_def)
  have fresh: "\<forall>m \<in> set (ps @ qs). ?r < msg_Revision m" and sub: "set ps \<subseteq> set ms"
    unfolding new [symmetric] using arg_cong [OF new, of set] by auto
  have inc: "increasing (ps @ qs)" unfolding new [symmetric] using assms(2) by (rule increasing_filter)
  then have "increasing ps" by (simp add: increasing_def sorted_wrt_append)
  with assms(1) updates_state [of sdk ps] obtain sdk' where s: "fold_opt handleUpdate ps sdk = Some sdk'" "client_ok sdk'"
    "mc_lastRev sdk' = ?r'" "gm_get (features_of sdk') = state_after (filter (\<lambda>m. ?r < msg_Revision m) ps) (gm_get (features_of sdk))"
    by (auto simp: synced_but_def)
  have all: "filter (\<lambda>m. ?r < msg_Revision m) ps = ps" using fresh by (simp add: filter_id_conv)
  have up: "?r \<le> ?r'" by (rule fold_max_spec(2))
  let ?Q = "\<lambda>m. in_scope cl m \<and> m \<notin> lost' \<and> msg_Revision m \<le> ?r'"
  have "filter ?Q ms = filter (\<lambda>m. msg_Revision m \<le> ?r \<and> ?Q m) ms @ filter (\<lambda>m. ?r < msg_Revision m \<and> ?Q m) ms"
    by (rule increasing_cut [OF assms(2)])
  moreover have "filter (\<lambda>m. msg_Revision m \<le> ?r \<and> ?Q m) ms = filter (\<lambda>m. msg_Revision m \<le> ?r \<and> in_scope cl m \<and> m \<notin> lost) ms"
    using up by (auto simp: lost'_def intro!: filter_cong)
  moreover have "filter (\<lambda>m. ?r < msg_Revision m \<and> ?Q m) ms = ps"
  proof -
    have "filter (\<lambda>m. ?r < msg_Revision m \<and> ?Q m) ms =
        filter (\<lambda>m. msg_Revision m \<le> ?r') (filter (\<lambda>m. ?r < msg_Revision m \<and> in_scope cl m \<and> m \<notin> gap) ms)"
      using old by (auto simp: lost'_def intro!: filter_cong)
    then show ?thesis unfolding new using increasing_prefix [OF inc fresh] by simp
  qed
  ultimately have "filter (\<lambda>m. msg_Revision m \<le> ?r' \<and> in_scope cl m \<and> m \<notin> lost') ms =
      filter (\<lambda>m. msg_Revision m \<le> ?r \<and> in_scope cl m \<and> m \<notin> lost) ms @ ps"
    by (simp add: conj_ac)
  moreover have "\<forall>m \<in> lost'. msg_Revision m \<le> ?r'" using old up unfolding lost'_def by fastforce
  ultimately have "synced_but sdk' cl ms lost' m0"
    using assms(1) s all by (simp add: synced_but_def)
  moreover have "?r' \<in> insert ?r (msg_Revision ` set ms)" using fold_max_spec(1) [of "map msg_Revision ps" ?r] sub by auto
  ultimately show ?thesis using s up all unfolding lost'_def s(3) [symmetric] by auto
qed

section \<open>Connections\<close>

text \<open>
  A connection of the SDK, made when \<open>ms\<close> is all that has been published until it ends. The
  server process has published the messages since \<open>before\<close>: \<open>ms1\<close> when the handler reads the
  history, and \<open>ms2\<close> after it; \<open>j\<close> of them were broadcast when the hub took the
  registration. The buffer may answer or refuse (or know nothing, after a restart). The
  handler writes \<open>evs\<close>; the messages of \<open>gap\<close> are neither in the history it got nor live.
  \<open>timely\<close>: registered before the history was read, and answered from a history.
\<close>

definition connection :: "bool \<Rightarrow> MizuClient \<Rightarrow> Client \<Rightarrow> Message list \<Rightarrow> Message set \<Rightarrow> sse_event list \<Rightarrow> bool" where
  "connection timely sdk cl ms gap evs \<longleftrightarrow> (\<exists>ws1 ws2 before ms1 ms2 s1 s2 q j got res ok.
     watch_loop ws1 NewFeatureService = Some (True, ms1, s1) \<and> watch_loop ws2 s1 = Some (True, ms2, s2) \<and>
     (\<forall>(now, w) \<in> set (ws1 @ ws2). \<not> wr_Canceled w) \<and> in_revision_order (loop_events (ws1 @ ws2)) \<and>
     ms = before @ ms1 @ ms2 \<and> increasing ms \<and> (\<forall>m \<in> set ms. msg_Type m \<noteq> ''ping'' \<and> fits m) \<and>
     watch_client q = Some cl \<and> \<not> is_wildcard cl \<and> asks sdk q \<and> delivered cl (drop j (ms1 @ ms2)) got \<and>
     GetCompensation (watch_lastRev q) s1 = Some (res, ok) \<and> evs = WatchFeature q (\<lambda>_. (res, ok)) got \<and>
     gap = set before \<union> set (if ok then take (j - length ms1) ms2 else take j (ms1 @ ms2)) \<and>
     (timely \<longleftrightarrow> ok \<and> ms1 \<noteq> [] \<and> j \<le> length ms1))"

lemma filter_parts:
  assumes "increasing (a @ b @ c @ d)"
  shows "filter P (b @ d) = filter (\<lambda>m. P m \<and> m \<notin> set a \<union> set c) (a @ b @ c @ d)"
proof -
  have "m \<notin> set a \<union> set c" if "m \<in> set b \<union> set d" for m
    using assms that unfolding increasing_def sorted_wrt_append by auto
  then have "filter P b = filter (\<lambda>m. P m \<and> m \<notin> set a \<union> set c) b" "filter P d = filter (\<lambda>m. P m \<and> m \<notin> set a \<union> set c) d"
    by (auto intro!: filter_cong)
  then show ?thesis by simp
qed

lemma connection_sent:
  assumes "connection timely sdk cl ms gap evs"
  shows "sent evs = filter (\<lambda>m. mc_lastRev sdk < msg_Revision m \<and> in_scope cl m \<and> m \<notin> gap) ms"
    "increasing ms" "\<forall>m \<in> set ms. fits m" "timely \<Longrightarrow> \<forall>m \<in> gap. msg_Revision m \<le> mc_lastRev sdk"
proof -
  obtain ws1 ws2 before ms1 ms2 s1 s2 q j got res ok where
    c: "watch_loop ws1 NewFeatureService = Some (True, ms1, s1)" "watch_loop ws2 s1 = Some (True, ms2, s2)"
      "\<forall>(now, w) \<in> set (ws1 @ ws2). \<not> wr_Canceled w" "in_revision_order (loop_events (ws1 @ ws2))"
      "ms = before @ ms1 @ ms2" "increasing ms" "\<forall>m \<in> set ms. msg_Type m \<noteq> ''ping'' \<and> fits m"
      "watch_client q = Some cl" "\<not> is_wildcard cl" "asks sdk q" "delivered cl (drop j (ms1 @ ms2)) got"
      "GetCompensation (watch_lastRev q) s1 = Some (res, ok)" "evs = WatchFeature q (\<lambda>_. (res, ok)) got"
    and gap: "gap = set before \<union> set (if ok then take (j - length ms1) ms2 else take j (ms1 @ ms2))"
    and timely: "timely \<longleftrightarrow> ok \<and> ms1 \<noteq> [] \<and> j \<le> length ms1"
    using assms unfolding connection_def by (elim exE conjE)
  show "increasing ms" "\<forall>m \<in> set ms. fits m" using c(6,7) by blast+
  note st = two_stretches [OF c(1-4)]
  have buf: "fold_opt AddMessage (take (length ms1) (ms1 @ ms2)) (NewRevisionBuffer 1000) = Some (sv_buffer s1)" using st(4) by simp
  note ans = c(12) [unfolded GetCompensation_def]
  have "\<forall>m \<in> set (drop j (ms1 @ ms2)). msg_Type m \<noteq> ''ping''" using c(5,7) by (auto dest: in_set_dropD)
  note W = watch_sent [OF c(8) st(3) buf ans delivered_inbox [OF c(11,8,9) this]]
  have r: "watch_lastRev q = mc_lastRev sdk"
    using c(10) parse_int_show_int [of "mc_lastRev sdk"]
    by (simp add: asks_def watch_lastRev_def is_int64_def int64_min_def int64_max_def show_int_def)
  let ?P = "\<lambda>m. mc_lastRev sdk < msg_Revision m \<and> in_scope cl m"
  show "sent evs = filter (\<lambda>m. mc_lastRev sdk < msg_Revision m \<and> in_scope cl m \<and> m \<notin> gap) ms"
  proof (cases ok)
    case True
    have parts: "take (length ms1) (ms1 @ ms2) @ drop (max (length ms1) j) (ms1 @ ms2) = ms1 @ drop (j - length ms1) ms2"
      by (simp add: max_def)
    have "ms = before @ ms1 @ take (j - length ms1) ms2 @ drop (j - length ms1) ms2" using c(5) by simp
    with filter_parts [of before ms1 "take (j - length ms1) ms2" "drop (j - length ms1) ms2" ?P] W True c(6) gap
    show ?thesis unfolding c(13) r parts by (simp add: conj_assoc del: append_take_drop_id)
  next
    case False
    have "ms = before @ [] @ take j (ms1 @ ms2) @ drop j (ms1 @ ms2)" using c(5) by (metis append_Nil append_take_drop_id)
    with filter_parts [of before "[]" "take j (ms1 @ ms2)" "drop j (ms1 @ ms2)" ?P] W False c(6) gap
    show ?thesis unfolding c(13) r by (simp add: conj_assoc del: append_take_drop_id take_append drop_append)
  qed
  assume t: timely
  have log: "rb_log (sv_buffer s1) = last_n 1000 ms1"
    using ring.add_all_SomeD(3) [OF rb_inv_new st(4)] by (simp add: rb_size_new)
  have rb: "rb_inv (sv_buffer s1)" using ring.add_all_SomeD(1) [OF rb_inv_new st(4)] .
  have inc1: "increasing ms1" using st(3) by (simp add: increasing_def sorted_wrt_append)
  from ring.since_ok [OF rb] ring.increasing_last_n [OF inc1, of 1000] ans log
  have "since_spec (last_n 1000 ms1) (mc_lastRev sdk) = (res, ok)" by (simp add: r)
  moreover have ne: "last_n 1000 ms1 \<noteq> []" using t timely by (metis length_0_conv length_last_n min_def zero_neq_numeral)
  ultimately have le: "msg_Revision (hd (last_n 1000 ms1)) \<le> mc_lastRev sdk"
    using t timely by (auto simp: since_spec_def split: if_splits)
  obtain old where "ms1 = old @ last_n 1000 ms1" using last_n_suffix by blast
  with ne have "hd (last_n 1000 ms1) \<in> set ms1" by (metis UnCI hd_in_set set_append)
  moreover have "msg_Revision m < msg_Revision x" if "m \<in> set before" "x \<in> set ms1" for m x
    using c(6) that unfolding c(5) increasing_def sorted_wrt_append set_append by blast
  ultimately have "msg_Revision m < msg_Revision (hd (last_n 1000 ms1))" if "m \<in> set before" for m using that by blast
  with le have "\<forall>m \<in> set before. msg_Revision m \<le> mc_lastRev sdk" by fastforce
  then show "\<forall>m \<in> gap. msg_Revision m \<le> mc_lastRev sdk" using t timely gap by simp
qed

text \<open>The messages that the revision of the client passes without having been sent.\<close>

definition passed_over :: "Client \<Rightarrow> Message set \<Rightarrow> MizuClient \<Rightarrow> MizuClient \<Rightarrow> Message set" where
  "passed_over cl gap sdk sdk' =
     {m \<in> gap. mc_lastRev sdk < msg_Revision m \<and> msg_Revision m \<le> mc_lastRev sdk' \<and> in_scope cl m}"

lemma cut_round:
  assumes "connection timely sdk cl ms gap evs" "synced_but sdk cl ms lost m0"
    and "net (watch_url sdk) (mc_apiKey sdk) n = (Body (take k (unlines (concat (map sse_lines evs)))), n1)"
  shows "\<exists>sdk'. watch_round net rnd backoff sdk n = Some (0, Second, sdk', n1) \<and>
    synced_but sdk' cl ms (lost \<union> passed_over cl gap sdk sdk') m0 \<and>
    mc_lastRev sdk \<le> mc_lastRev sdk' \<and> mc_lastRev sdk' \<in> insert (mc_lastRev sdk) (msg_Revision ` set ms)"
proof -
  note S = connection_sent [OF assms(1)]
  have "\<forall>m \<in> set (sent evs). fits m" using S(1,3) by simp
  from round_cut [where net = net and c = sdk, OF assms(3) this, of rnd backoff] obtain e where
    r: "watch_round net rnd backoff sdk n = map_option (\<lambda>c1. (0, Second, c1, n1)) (fold_opt handleUpdate (sent (take e evs)) sdk)" ..
  have "sent (take e evs) @ sent (drop e evs) = sent evs" by (simp flip: sent_append)
  with synced_prefix [OF assms(2) S(2), of gap "sent (take e evs)" "sent (drop e evs)"] S(1) r
  show ?thesis unfolding passed_over_def by auto
qed

text \<open>
  What happens to a client, to the messages published, and to the messages lost for the client:
  more are published, a connection is refused, or one is made and cut after \<open>k\<close> bytes. With
  \<open>only_timely\<close>, all connections made are timely.
\<close>

inductive reconnect ::
  "'n network \<Rightarrow> Client \<Rightarrow> bool \<Rightarrow> MizuClient \<times> Message list \<times> Message set \<Rightarrow> MizuClient \<times> Message list \<times> Message set \<Rightarrow> bool"
  for net cl only_timely where
  published: "increasing (ms @ new) \<Longrightarrow> reconnect net cl only_timely (sdk, ms, lost) (sdk, ms @ new, lost)"
| refused: "net (watch_url sdk) (mc_apiKey sdk) n = (TransportError, n1) \<Longrightarrow>
    watch_round net rnd backoff sdk n = Some (d, b, sdk', n2) \<Longrightarrow> reconnect net cl only_timely (sdk, ms, lost) (sdk', ms, lost)"
| cut: "connection timely sdk cl ms gap evs \<Longrightarrow> (only_timely \<longrightarrow> timely) \<Longrightarrow>
    net (watch_url sdk) (mc_apiKey sdk) n = (Body (take k (unlines (concat (map sse_lines evs)))), n1) \<Longrightarrow>
    watch_round net rnd backoff sdk n = Some (d, b, sdk', n2) \<Longrightarrow>
    reconnect net cl only_timely (sdk, ms, lost) (sdk', ms, lost \<union> passed_over cl gap sdk sdk')"

definition caught_up :: "Client \<Rightarrow> (string \<Rightarrow> FeatureFlag option) \<Rightarrow> MizuClient \<times> Message list \<times> Message set \<Rightarrow> bool" where
  "caught_up cl m0 s \<longleftrightarrow> (case s of (sdk, ms, lost) \<Rightarrow>
     synced_but sdk cl ms lost m0 \<and> increasing ms \<and> ms \<noteq> [] \<and> mc_lastRev sdk \<le> msg_Revision (last ms))"

lemma increasing_last: "increasing ms \<Longrightarrow> m \<in> set ms \<Longrightarrow> msg_Revision m \<le> msg_Revision (last ms)"
proof (induction ms)
  case (Cons x ms)
  then show ?case by (cases "ms = []") (auto simp: increasing_def intro: less_imp_le)
qed simp

lemma published_synced:
  assumes "caught_up cl m0 (sdk, ms, lost)" "increasing (ms @ new)"
  shows "caught_up cl m0 (sdk, ms @ new, lost)"
proof -
  have s: "synced_but sdk cl ms lost m0" "ms \<noteq> []" "mc_lastRev sdk \<le> msg_Revision (last ms)"
    using assms(1) by (simp_all add: caught_up_def)
  have "mc_lastRev sdk < msg_Revision m" if "m \<in> set new" for m
  proof -
    have "msg_Revision (last ms) < msg_Revision m"
      using assms(2) last_in_set [OF s(2)] that unfolding increasing_def sorted_wrt_append by blast
    with s(3) show ?thesis by linarith
  qed
  then have "filter (\<lambda>m. msg_Revision m \<le> mc_lastRev sdk \<and> in_scope cl m \<and> m \<notin> lost) new = []" by (force simp: filter_empty_conv)
  moreover have "mc_lastRev sdk \<le> msg_Revision (last (ms @ new))"
    using s(2,3) increasing_last [OF assms(2), of "last ms"] last_in_set [OF s(2)] by fastforce
  ultimately show ?thesis using s(1,2) assms(2) by (simp add: caught_up_def synced_but_def)
qed

lemma reconnect_step:
  "reconnect net cl only_timely s s' \<Longrightarrow> caught_up cl m0 s \<Longrightarrow>
    caught_up cl m0 s' \<and> mc_lastRev (fst s) \<le> mc_lastRev (fst s') \<and> (only_timely \<longrightarrow> snd (snd s') = snd (snd s))"
proof (induction rule: reconnect.induct)
  case (published ms new sdk lost)
  then show ?case using published_synced by simp
next
  case (refused sdk n n1 rnd backoff d b sdk' n2 ms lost)
  then have "sdk' = sdk" by (auto simp: watch_round_def split: if_splits)
  with refused show ?case by simp
next
  case (cut timely sdk ms gap evs n k n1 rnd backoff d b sdk' n2 lost)
  have s: "synced_but sdk cl ms lost m0" "increasing ms" "ms \<noteq> []" "mc_lastRev sdk \<le> msg_Revision (last ms)"
    using cut.prems by (simp_all add: caught_up_def)
  have r: "synced_but sdk' cl ms (lost \<union> passed_over cl gap sdk sdk') m0" "mc_lastRev sdk \<le> mc_lastRev sdk'"
    "mc_lastRev sdk' \<in> insert (mc_lastRev sdk) (msg_Revision ` set ms)"
    using cut_round [where net = net, OF cut.hyps(1) s(1) cut.hyps(3), of rnd backoff] cut.hyps(4) by auto
  then have "mc_lastRev sdk' \<le> msg_Revision (last ms)" using s(4) increasing_last [OF s(2)] by auto
  moreover have "passed_over cl gap sdk sdk' = {}" if only_timely
    using connection_sent(4) [OF cut.hyps(1)] cut.hyps(2) that by (fastforce simp: passed_over_def)
  ultimately show ?case using r s by (simp add: caught_up_def)
qed

lemma reconnects_caught_up:
  "(reconnect net cl only_timely)\<^sup>*\<^sup>* s s' \<Longrightarrow> caught_up cl m0 s \<Longrightarrow>
    caught_up cl m0 s' \<and> mc_lastRev (fst s) \<le> mc_lastRev (fst s') \<and> (only_timely \<longrightarrow> snd (snd s') = snd (snd s))"
proof (induction rule: rtranclp_induct)
  case (step y z)
  from step.IH [OF step.prems] reconnect_step [OF step.hyps(2)] show ?case by fastforce
qed simp

text \<open>A connection that is not cut.\<close>

lemma whole_round:
  assumes con: "connection timely sdk cl ms gap evs" and sync: "synced_but sdk cl ms lost m0"
    and net: "net (watch_url sdk) (mc_apiKey sdk) n = (Body (unlines (concat (map sse_lines evs))), n1)"
  shows "\<exists>sdk'. watch_round net rnd backoff sdk n = Some (0, Second, sdk', n1) \<and>
    gm_get (features_of sdk') =
      state_after (filter (\<lambda>m. in_scope cl m \<and> m \<notin> lost \<and> (m \<in> gap \<longrightarrow> msg_Revision m \<le> mc_lastRev sdk)) ms) m0"
proof -
  note S = connection_sent [OF con]
  let ?r = "mc_lastRev sdk" and ?Q = "\<lambda>m. in_scope cl m \<and> m \<notin> lost \<and> (m \<in> gap \<longrightarrow> msg_Revision m \<le> mc_lastRev sdk)"
  have f: "\<forall>m \<in> set (sent evs). fits m" using S(1,3) by simp
  from synced_prefix [OF sync S(2), of gap "sent evs" "[]"] S(1) obtain sdk' where
    h: "fold_opt handleUpdate (sent evs) sdk = Some sdk'" "gm_get (features_of sdk') = state_after (sent evs) (gm_get (features_of sdk))"
    by auto
  have old: "\<forall>m \<in> lost. msg_Revision m \<le> ?r" using sync by (simp add: synced_but_def)
  have "filter ?Q ms = filter (\<lambda>m. msg_Revision m \<le> ?r \<and> ?Q m) ms @ filter (\<lambda>m. ?r < msg_Revision m \<and> ?Q m) ms"
    by (rule increasing_cut [OF S(2)])
  moreover have "filter (\<lambda>m. msg_Revision m \<le> ?r \<and> ?Q m) ms = filter (\<lambda>m. msg_Revision m \<le> ?r \<and> in_scope cl m \<and> m \<notin> lost) ms"
    by (auto intro!: filter_cong)
  moreover have "filter (\<lambda>m. ?r < msg_Revision m \<and> ?Q m) ms = sent evs"
    unfolding S(1) using old by (auto intro!: filter_cong)
  ultimately have "gm_get (features_of sdk') = state_after (filter ?Q ms) m0" using h(2) sync by (simp add: synced_but_def)
  with round_applies [where net = net, OF net f h(1)] show ?thesis by blast
qed

section \<open>Property\<close>

text \<open>
  C6. What cuts and late registrations cost, exactly. Let a client that names its namespaces
  be up to date at its revision and then connect any number of times, to server processes
  whose watch of etcd runs, while more is published (each message within the SDK's limit for
  a line): connections may be refused, and each one made may be cut at
  any byte, in the middle of an event or of a line. It may register before or after the
  handler reads the history, and the replay buffer may answer, refuse (the SDK ignores the
  reset) or be empty after a restart. Then the client's revision never goes back, and its
  state is that of a client which received every message in its scope up to its revision
  except for \<open>lost'\<close>: those that a connection neither replayed nor sent live and whose
  revision the client passed. If every connection registered before the history was read
  and was answered from it, nothing is lost, however often they were cut. The next
  connection does not make the client panic, wherever it is cut; one that is not cut gives
  it all that is published but \<open>lost'\<close> and its own gap, and nothing else is missing if it is
  timely.
\<close>

theorem cuts_converge:
  assumes "(reconnect net cl only_timely)\<^sup>*\<^sup>* (sdk, ms, {}) (sdk', ms', lost')"
    and "was_synced sdk cl ms m0" "increasing ms" "ms \<noteq> []" "mc_lastRev sdk \<le> msg_Revision (last ms)"
  shows "mc_lastRev sdk \<le> mc_lastRev sdk' \<and>
    gm_get (features_of sdk') =
      state_after (filter (\<lambda>m. msg_Revision m \<le> mc_lastRev sdk' \<and> in_scope cl m \<and> m \<notin> lost') ms') m0 \<and>
    (only_timely \<longrightarrow> lost' = {}) \<and>
    (connection timely sdk' cl ms' gap evs \<and>
       net (watch_url sdk') (mc_apiKey sdk') n = (Body (take k (unlines (concat (map sse_lines evs)))), n1) \<longrightarrow>
     (\<exists>sdk''. watch_round net rnd backoff sdk' n = Some (0, Second, sdk'', n1) \<and>
        (length (unlines (concat (map sse_lines evs))) \<le> k \<longrightarrow>
           gm_get (features_of sdk'') = state_after (filter (\<lambda>m. in_scope cl m \<and> m \<notin> lost' \<and>
             (m \<in> gap \<longrightarrow> msg_Revision m \<le> mc_lastRev sdk')) ms') m0 \<and>
           (timely \<longrightarrow> gm_get (features_of sdk'') = state_after (filter (\<lambda>m. in_scope cl m \<and> m \<notin> lost') ms') m0))))"
proof (intro conjI impI; (elim conjE)?)
  have "caught_up cl m0 (sdk, ms, {})" using assms(2-5) by (simp add: caught_up_def synced_but_def was_synced_def)
  with reconnects_caught_up [OF assms(1)]
  have c: "caught_up cl m0 (sdk', ms', lost')" "mc_lastRev sdk \<le> mc_lastRev sdk'" "only_timely \<longrightarrow> lost' = {}" by auto
  then show "mc_lastRev sdk \<le> mc_lastRev sdk'" "only_timely \<Longrightarrow> lost' = {}"
    "gm_get (features_of sdk') = state_after (filter (\<lambda>m. msg_Revision m \<le> mc_lastRev sdk' \<and> in_scope cl m \<and> m \<notin> lost') ms') m0"
    by (simp_all add: caught_up_def synced_but_def)
  assume con: "connection timely sdk' cl ms' gap evs"
    and net: "net (watch_url sdk') (mc_apiKey sdk') n = (Body (take k (unlines (concat (map sse_lines evs)))), n1)"
  have sync: "synced_but sdk' cl ms' lost' m0" using c(1) by (simp add: caught_up_def)
  show "\<exists>sdk''. watch_round net rnd backoff sdk' n = Some (0, Second, sdk'', n1) \<and>
        (length (unlines (concat (map sse_lines evs))) \<le> k \<longrightarrow>
           gm_get (features_of sdk'') = state_after (filter (\<lambda>m. in_scope cl m \<and> m \<notin> lost' \<and>
             (m \<in> gap \<longrightarrow> msg_Revision m \<le> mc_lastRev sdk')) ms') m0 \<and>
           (timely \<longrightarrow> gm_get (features_of sdk'') = state_after (filter (\<lambda>m. in_scope cl m \<and> m \<notin> lost') ms') m0))"
  proof (cases "length (unlines (concat (map sse_lines evs))) \<le> k")
    case False
    with cut_round [where net = net, OF con sync net] show ?thesis by blast
  next
    case True
    then have all: "net (watch_url sdk') (mc_apiKey sdk') n = (Body (unlines (concat (map sse_lines evs))), n1)" using net by simp
    have "filter (\<lambda>m. in_scope cl m \<and> m \<notin> lost' \<and> (m \<in> gap \<longrightarrow> msg_Revision m \<le> mc_lastRev sdk')) ms' =
        filter (\<lambda>m. in_scope cl m \<and> m \<notin> lost') ms'" if timely
      using connection_sent(4) [OF con that] by (auto intro!: filter_cong)
    with whole_round [where net = net, OF con sync all, of rnd backoff] show ?thesis by auto
  qed
qed

text \<open>The stream of \<open>Post_To_Sdk\<close>, cut once in its first event and then sent again.\<close>

abbreviation posted_events :: "sse_event list" where
  "posted_events \<equiv> WatchFeature one_query (\<lambda>_. ([], True)) [posted_msg, ping]"

definition cut_net :: "nat network" where
  "cut_net = (\<lambda>url key n. (Body (take (if n = 0 then 20 else 1000) (unlines (concat (map sse_lines posted_events)))), Suc n))"

lemma one_connection: "connection True up_to_date one_stream [put_v ''x'' 5, posted_msg] {} posted_events"
proof -
  let ?ms = "[put_v ''x'' 5, posted_msg]"
  obtain s1 where s1: "served [(5, put_response ''x'' 5)] posted_ws 1 ?ms s1"
    "GetCompensation (watch_lastRev one_query) s1 = Some ([], True)" using posted_served by blast
  then obtain ms1 ms2 s2 where sv: "watch_loop [(5, put_response ''x'' 5)] NewFeatureService = Some (True, ms1, s1)"
    "watch_loop posted_ws s1 = Some (True, ms2, s2)"
    "\<forall>(now, w) \<in> set ([(5, put_response ''x'' 5)] @ posted_ws). \<not> wr_Canceled w"
    "in_revision_order (loop_events ([(5, put_response ''x'' 5)] @ posted_ws))"
    "1 = length ms1" "?ms = ms1 @ ms2" "\<forall>m \<in> set ?ms. msg_Type m \<noteq> ''ping'' \<and> fits m"
    unfolding served_def by blast
  have m: "ms1 = [put_v ''x'' 5]" "ms2 = [posted_msg]" using sv(5,6) by (cases ms1; auto)+
  obtain j where j: "delivered one_stream (drop j ?ms) [posted_msg, ping]" "j \<le> 1"
    using posted_streamed unfolding streamed_def delivered_def by blast
  have "increasing ?ms" by (simp add: increasing_def put_v_fields posted_msg_def)
  moreover have "\<not> is_wildcard one_stream" by (simp add: is_wildcard_def one_stream_def)
  moreover have "?ms = [] @ [put_v ''x'' 5] @ [posted_msg]"
    "{} = set [] \<union> set (if True then take (j - length [put_v ''x'' 5]) [posted_msg] else take j ([put_v ''x'' 5] @ [posted_msg]))"
    "True \<longleftrightarrow> True \<and> [put_v ''x'' 5] \<noteq> [] \<and> j \<le> length [put_v ''x'' 5]" "?ms = [put_v ''x'' 5] @ [posted_msg]"
    using j(2) by simp_all
  moreover note sv(1-4,7) [unfolded m] j(1) [unfolded calculation(6)] one_query_client(1) one_asks s1(2) refl
  ultimately show ?thesis
    unfolding connection_def
    by - (rule exI [of _ "[(5, put_response ''x'' 5)]"], rule exI [of _ posted_ws], rule exI [of _ "[]"],
        rule exI [of _ "[put_v ''x'' 5]"], rule exI [of _ "[posted_msg]"], rule exI [of _ s1], rule exI [of _ s2],
        rule exI [of _ one_query], rule exI [of _ j], rule exI [of _ "[posted_msg, ping]"], rule exI [of _ "[]"],
        rule exI [of _ True], intro conjI; assumption)
qed

lemma posted_events_eq: "posted_events = [SseMessage posted_msg, SsePing]"
  by code_simp

lemma posted_len: "length (unlines (concat (map sse_lines posted_events))) \<le> 1000"
proof -
  have "length (jprint (message_json posted_msg)) \<le> 300" by code_simp
  then show ?thesis unfolding posted_events_eq by (simp add: message_lines_def event_lines_def unlines_def)
qed

lemma posted_cut: "scan_lines (take 20 (unlines (concat (map sse_lines posted_events)))) = [''event:message'', ''data:{'']"
proof -
  obtain s where "jprint (message_json posted_msg) = CHR ''{'' # s @ ''}''"
    unfolding message_json_def using jprint_obj_braces by blast
  then have "take 20 (unlines (concat (map sse_lines posted_events))) = unlines [''event:message''] @ ''data:{''"
    unfolding posted_events_eq by (simp add: message_lines_def event_lines_def unlines_def)
  moreover have "scan_lines (unlines [''event:message''] @ ''data:{'') = [''event:message'', ''data:{'']"
    by (subst scan_lines_cut) (simp_all add: plain_line_def MaxScanTokenSize_def)
  ultimately show ?thesis by simp
qed

theorem cuts_converge_witness:
  "watch_round cut_net 0 Second up_to_date 0 = Some (0, Second, up_to_date, 1) \<and>
   (\<exists>sdk'. watch_round cut_net 0 Second up_to_date 1 = Some (0, Second, sdk', 2) \<and>
      gm_get (features_of sdk') ''k'' = Some (message_flag posted_msg))"
proof
  show first: "watch_round cut_net 0 Second up_to_date 0 = Some (0, Second, up_to_date, 1)"
    by (simp add: watch_round_def cut_net_def posted_cut stream_quiet)
  let ?ms = "[put_v ''x'' 5, posted_msg]"
  have "cut_net (watch_url up_to_date) (mc_apiKey up_to_date) 0 =
      (Body (take 20 (unlines (concat (map sse_lines posted_events)))), 1)" by (simp add: cut_net_def)
  from reconnect.cut [OF one_connection _ this first, of True "{}"]
  have run: "(reconnect cut_net one_stream True)\<^sup>*\<^sup>* (up_to_date, ?ms, {}) (up_to_date, ?ms, {})"
    by (simp add: passed_over_def r_into_rtranclp)
  have two: "cut_net (watch_url up_to_date) (mc_apiKey up_to_date) 1 =
      (Body (take 1000 (unlines (concat (map sse_lines posted_events)))), 2)" by (simp add: cut_net_def)
  have inc: "increasing ?ms" and rev: "mc_lastRev up_to_date \<le> msg_Revision (last ?ms)"
    by (simp_all add: increasing_def put_v_fields posted_msg_def up_to_date_def)
  obtain sdk' where s: "watch_round cut_net 0 Second up_to_date 1 = Some (0, Second, sdk', 2)"
    "gm_get (features_of sdk') = state_after (filter (in_scope one_stream) ?ms) (\<lambda>_. None)"
    using cuts_converge [OF run one_synced inc _ rev, of True "{}" posted_events 1 1000 2 0 Second] one_connection two posted_len by auto
  have m: "in_scope one_stream posted_msg" "msg_Action posted_msg = PUT" "msg_Key posted_msg = ''k''"
    by (simp_all add: in_scope_def one_stream_def posted_msg_def)
  have "filter (in_scope one_stream) ?ms = [put_v ''x'' 5] @ posted_msg # []" using m(1) by (simp add: put_v_fields)
  with state_after_last_put [OF m(2), of "[]" "[put_v ''x'' 5]" "\<lambda>_. None"] m(3)
  have "gm_get (features_of sdk') ''k'' = Some (message_flag posted_msg)" by (simp add: s(2))
  with s(1) show "\<exists>sdk'. watch_round cut_net 0 Second up_to_date 1 = Some (0, Second, sdk', 2) \<and>
      gm_get (features_of sdk') ''k'' = Some (message_flag posted_msg)" by blast
qed

end
