(* ===== verification/Gin_Chain.thy ===== *)
theory Gin_Chain
  imports Auth_Service
begin

text \<open>
  The global middlewares of \<open>internal/middleware/http.go\<close>, \<open>logger.go\<close> and \<open>trace.go\<close>, in the
  order of \<open>router.go\<close>. A middleware is a function of the rest of the chain; what the rest does
  to the request, and whether it panics, is an argument. \<open>cors.go\<close> is a constant
  configuration for third-party code: \<open>cors.New\<close>, from a configuration to a middleware, is a
  parameter.
\<close>

section \<open>The request in gin\<close>

text \<open>
  gin's context: its own keys, the context of the request (the operator and other values), the
  response headers, the status and whether the response has been sent.
\<close>

record gin_ctx =
  gc_Keys :: "(string, string) gomap"
  gc_Request :: request_context
  gc_TraceHeader :: string
  gc_Headers :: "(string, string) gomap"
  gc_Status :: int
  gc_Written :: bool

text \<open>What is written to the log and to the metric of request durations.\<close>

datatype record_entry = LogRequest int | LogPanic | ObserveDuration int

datatype outcome = Done gin_ctx | Panicked gin_ctx

type_synonym chain = "gin_ctx \<Rightarrow> outcome \<times> record_entry list"

section \<open>The middlewares\<close>

definition HttpMiddleware :: "chain \<Rightarrow> chain" where
  "HttpMiddleware rest c =
     (case rest c of
        (Done c1, es) \<Rightarrow> (Done c1, es @ [ObserveDuration (gc_Status c1)])
      | (Panicked c1, es) \<Rightarrow> (Panicked c1, es))"

definition GinZapLogger :: "chain \<Rightarrow> chain" where
  "GinZapLogger rest c =
     (case rest c of
        (Done c1, es) \<Rightarrow> (Done c1, es @ [LogRequest (gc_Status c1)])
      | (Panicked c1, es) \<Rightarrow> (Panicked c1, es))"

text \<open>\<open>AbortWithStatus\<close>: the status of a response that has been sent stays.\<close>

definition AbortWithStatus :: "int \<Rightarrow> gin_ctx \<Rightarrow> gin_ctx" where
  "AbortWithStatus st c = (if gc_Written c then c else c\<lparr>gc_Status := st, gc_Written := True\<rparr>)"

definition GinZapRecovery :: "chain \<Rightarrow> chain" where
  "GinZapRecovery rest c =
     (case rest c of
        (Done c1, es) \<Rightarrow> (Done c1, es)
      | (Panicked c1, es) \<Rightarrow> (Done (AbortWithStatus 500 c1), es @ [LogPanic]))"

definition RequestID :: "string \<Rightarrow> chain \<Rightarrow> chain" where
  "RequestID rid rest c =
     rest (c\<lparr>gc_Keys := gm_put ''request_id'' rid (gc_Keys c), gc_Headers := gm_put ''X-Request-ID'' rid (gc_Headers c)\<rparr>)"

definition TraceMiddleware :: "string \<Rightarrow> chain \<Rightarrow> chain" where
  "TraceMiddleware uuid rest c =
     (let traceID = (if gc_TraceHeader c = [] then uuid else gc_TraceHeader c) in
      rest (c\<lparr>gc_Keys := gm_put ''TraceID'' traceID (gc_Keys c), gc_Headers := gm_put ''X-Trace-ID'' traceID (gc_Headers c)\<rparr>))"

text \<open>The configuration of CORS; the age is in nanoseconds.\<close>

record cors_config =
  cc_AllowAllOrigins :: bool
  cc_AllowMethods :: "string list"
  cc_AllowHeaders :: "string list"
  cc_ExposeHeaders :: "string list"
  cc_AllowCredentials :: bool
  cc_MaxAge :: int

definition CorsMiddleware :: "(cors_config \<Rightarrow> chain \<Rightarrow> chain) \<Rightarrow> chain \<Rightarrow> chain" where
  "CorsMiddleware cors_New = cors_New
     \<lparr>cc_AllowAllOrigins = True,
      cc_AllowMethods = [''GET'', ''POST'', ''PUT'', ''PATCH'', ''DELETE'', ''HEAD'', ''OPTIONS''],
      cc_AllowHeaders = [''Origin'', ''Content-Type'', ''Accept'', ''Authorization'', ''X-Requested-With'', ''X-Mizu-Key''],
      cc_ExposeHeaders = [''Content-Length''],
      cc_AllowCredentials = True,
      cc_MaxAge = 12 * 3600 * 1000000000\<rparr>"

definition global_chain :: "(cors_config \<Rightarrow> chain \<Rightarrow> chain) \<Rightarrow> string \<Rightarrow> string \<Rightarrow> chain \<Rightarrow> chain" where
  "global_chain cors_New rid uuid handler =
     CorsMiddleware cors_New (RequestID rid (GinZapLogger (GinZapRecovery (HttpMiddleware (TraceMiddleware uuid handler)))))"

text \<open>
  The trace id that the service reads, out of the context of the request which every handler
  passes on: \<open>ctx.Value("TraceID").(string)\<close>, the empty text if there is none.
\<close>

definition service_traceID :: "request_context \<Rightarrow> string" where
  "service_traceID ctx = (case gm_get (rc_Values ctx) ''TraceID'' of None \<Rightarrow> [] | Some t \<Rightarrow> t)"

section \<open>What a request gets\<close>

text \<open>Handlers add to the context and do not remove what the middlewares have put there.\<close>

definition adds_to :: "gin_ctx \<Rightarrow> gin_ctx \<Rightarrow> bool" where
  "adds_to c c1 \<longleftrightarrow> (\<forall>k v. gm_get (gc_Headers c) k = Some v \<longrightarrow> gm_get (gc_Headers c1) k = Some v)"

definition result_ctx :: "outcome \<Rightarrow> gin_ctx" where
  "result_ctx o' = (case o' of Done c \<Rightarrow> c | Panicked c \<Rightarrow> c)"

definition chain_ok :: "chain \<Rightarrow> bool" where
  "chain_ok ch \<longleftrightarrow> (\<forall>c. adds_to c (result_ctx (fst (ch c))) \<and> (\<forall>e \<in> set (snd (ch c)). e = LogPanic))"

text \<open>The context a handler is called with.\<close>

definition handler_ctx :: "string \<Rightarrow> string \<Rightarrow> gin_ctx \<Rightarrow> gin_ctx" where
  "handler_ctx rid uuid c =
     (let t = (if gc_TraceHeader c = [] then uuid else gc_TraceHeader c) in
      c\<lparr>gc_Keys := gm_put ''TraceID'' t (gm_put ''request_id'' rid (gc_Keys c)),
        gc_Headers := gm_put ''X-Trace-ID'' t (gm_put ''X-Request-ID'' rid (gc_Headers c))\<rparr>)"

lemma chain_unfold:
  "RequestID rid (GinZapLogger (GinZapRecovery (HttpMiddleware (TraceMiddleware uuid handler)))) c =
     (case handler (handler_ctx rid uuid c) of
        (Done c1, es) \<Rightarrow> (Done c1, es @ [ObserveDuration (gc_Status c1), LogRequest (gc_Status c1)])
      | (Panicked c1, es) \<Rightarrow>
          (Done (AbortWithStatus 500 c1), es @ [LogPanic, LogRequest (gc_Status (AbortWithStatus 500 c1))]))"
  by (simp add: RequestID_def GinZapLogger_def GinZapRecovery_def HttpMiddleware_def
      TraceMiddleware_def handler_ctx_def Let_def split: prod.split outcome.split)

text \<open>
  What a CORS middleware does with a request: it lets it through, with headers of its own and
  nothing else changed, or (a preflight) answers it itself.
\<close>

definition lets_through :: "(chain \<Rightarrow> chain) \<Rightarrow> gin_ctx \<Rightarrow> gin_ctx \<Rightarrow> bool" where
  "lets_through cors c c' \<longleftrightarrow> (\<exists>hs. c' = c\<lparr>gc_Headers := hs\<rparr>) \<and> (\<forall>rest. cors rest c = rest c')"

definition answers_itself :: "(chain \<Rightarrow> chain) \<Rightarrow> gin_ctx \<Rightarrow> gin_ctx \<Rightarrow> bool" where
  "answers_itself cors c c' \<longleftrightarrow> (\<forall>rest. cors rest c = (Done c', []))"

section \<open>Properties\<close>

text \<open>
  C37. Every request that CORS lets through is answered: whatever the handler does (it may
  panic, but keeps the response headers that are there), it does not bring the server down. A panic before the response was sent becomes a 500; one line is
  logged for the request, with the status that was sent; its duration is observed exactly if
  the handler returned, so requests that panic are missing from the metric. The response
  carries the request id and the trace id, which is the caller's if the caller sent one. The
  trace id is put under gin's own keys only: the context of the request reaches the handler
  as it came, so the service, which looks there, finds no trace id unless one was there
  before the middleware ran, and never the one of the response. The requests that CORS
  answers itself get neither ids nor a log line nor a duration, because it is the first of
  the chain.
\<close>

theorem every_request_answered:
  fixes rid uuid :: string and c c' :: gin_ctx
  assumes "chain_ok handler"
  defines "c0 \<equiv> handler_ctx rid uuid c'"
  shows "(lets_through (CorsMiddleware cors_New) c c' \<longrightarrow>
    (\<exists>c1 es. global_chain cors_New rid uuid handler c = (Done c1, es) \<and>
    (\<forall>p. fst (handler c0) = Panicked p \<and> \<not> gc_Written p \<longrightarrow> gc_Status c1 = 500) \<and>
    (\<forall>d. fst (handler c0) = Done d \<longrightarrow> c1 = d) \<and>
    filter (\<lambda>e. e \<noteq> LogPanic) es =
      (if fst (handler c0) = Done c1 then [ObserveDuration (gc_Status c1)] else []) @ [LogRequest (gc_Status c1)] \<and>
    gm_get (gc_Headers c1) ''X-Request-ID'' = Some rid \<and>
    gm_get (gc_Headers c1) ''X-Trace-ID'' = Some (if gc_TraceHeader c = [] then uuid else gc_TraceHeader c) \<and>
    gm_get (gc_Keys c0) ''TraceID'' = gm_get (gc_Headers c1) ''X-Trace-ID'' \<and>
    gc_Request c0 = gc_Request c \<and>
    (gm_get (rc_Values (gc_Request c)) ''TraceID'' = None \<longrightarrow> service_traceID (gc_Request c0) = []))) \<and>
   (answers_itself (CorsMiddleware cors_New) c c' \<longrightarrow> global_chain cors_New rid uuid handler c = (Done c', []))"
proof (intro conjI impI)
  assume cors: "lets_through (CorsMiddleware cors_New) c c'"
  then have same: "gc_TraceHeader c' = gc_TraceHeader c" "gc_Request c' = gc_Request c" by (auto simp: lets_through_def)
  have chain: "global_chain cors_New rid uuid handler c =
      RequestID rid (GinZapLogger (GinZapRecovery (HttpMiddleware (TraceMiddleware uuid handler)))) c'"
    using cors by (simp add: lets_through_def global_chain_def)
  obtain r es where h: "handler c0 = (r, es)" by (rule prod.exhaust)
  have only: "filter (\<lambda>e. e \<noteq> LogPanic) es = []" and adds: "adds_to c0 (result_ctx r)"
    using assms(1) h unfolding chain_ok_def by (metis (mono_tags, lifting) filter_False snd_conv, metis fst_conv)
  have hd: "gm_get (gc_Headers c0) ''X-Request-ID'' = Some rid"
    "gm_get (gc_Headers c0) ''X-Trace-ID'' = Some (if gc_TraceHeader c = [] then uuid else gc_TraceHeader c)"
    "gm_get (gc_Keys c0) ''TraceID'' = Some (if gc_TraceHeader c = [] then uuid else gc_TraceHeader c)"
    "gc_Request c0 = gc_Request c"
    by (simp_all add: c0_def handler_ctx_def Let_def same)
  have keep: "gc_Headers (AbortWithStatus st d) = gc_Headers d" for st d by (simp add: AbortWithStatus_def)
  show "\<exists>c1 es. global_chain cors_New rid uuid handler c = (Done c1, es) \<and>
    (\<forall>p. fst (handler c0) = Panicked p \<and> \<not> gc_Written p \<longrightarrow> gc_Status c1 = 500) \<and>
    (\<forall>d. fst (handler c0) = Done d \<longrightarrow> c1 = d) \<and>
    filter (\<lambda>e. e \<noteq> LogPanic) es =
      (if fst (handler c0) = Done c1 then [ObserveDuration (gc_Status c1)] else []) @ [LogRequest (gc_Status c1)] \<and>
    gm_get (gc_Headers c1) ''X-Request-ID'' = Some rid \<and>
    gm_get (gc_Headers c1) ''X-Trace-ID'' = Some (if gc_TraceHeader c = [] then uuid else gc_TraceHeader c) \<and>
    gm_get (gc_Keys c0) ''TraceID'' = gm_get (gc_Headers c1) ''X-Trace-ID'' \<and>
    gc_Request c0 = gc_Request c \<and>
    (gm_get (rc_Values (gc_Request c)) ''TraceID'' = None \<longrightarrow> service_traceID (gc_Request c0) = [])"
  proof (cases r)
    case (Done d)
    with h only adds hd show ?thesis unfolding chain chain_unfold c0_def [symmetric] by (auto simp: adds_to_def result_ctx_def service_traceID_def)
  next
    case (Panicked p)
    with h only adds hd show ?thesis unfolding chain chain_unfold c0_def [symmetric]
      by (auto simp: adds_to_def result_ctx_def keep AbortWithStatus_def service_traceID_def)
  qed
qed (simp add: global_chain_def answers_itself_def)

definition fresh_request :: gin_ctx where
  "fresh_request = \<lparr>gc_Keys = [], gc_Request = Background, gc_TraceHeader = ''t1'', gc_Headers = [], gc_Status = 200, gc_Written = False\<rparr>"

text \<open>A CORS middleware that allows every origin and knows no preflights.\<close>

definition open_cors :: "cors_config \<Rightarrow> chain \<Rightarrow> chain" where
  "open_cors cfg rest c = rest (c\<lparr>gc_Headers := gm_put ''Access-Control-Allow-Origin'' ''*'' (gc_Headers c)\<rparr>)"

theorem every_request_answered_witness:
  "\<exists>c1 es. global_chain open_cors ''r'' ''u'' (\<lambda>c. (Panicked c, [])) fresh_request = (Done c1, es) \<and>
    gc_Status c1 = 500 \<and> gm_get (gc_Headers c1) ''X-Trace-ID'' = Some ''t1'' \<and>
    service_traceID (gc_Request (handler_ctx ''r'' ''u'' fresh_request)) = []"
proof -
  let ?c = "fresh_request\<lparr>gc_Headers := gm_put ''Access-Control-Allow-Origin'' ''*'' (gc_Headers fresh_request)\<rparr>"
  have "chain_ok (\<lambda>c. (Panicked c, []))" by (simp add: chain_ok_def adds_to_def result_ctx_def)
  moreover have "lets_through (CorsMiddleware open_cors) fresh_request ?c"
    by (auto simp: lets_through_def CorsMiddleware_def open_cors_def)
  ultimately show ?thesis using every_request_answered [of "\<lambda>c. (Panicked c, [])" open_cors fresh_request ?c "''r''" "''u''"]
    by (auto simp: handler_ctx_def fresh_request_def Let_def service_traceID_def Background_def)
qed

end
