(* ===== verification/Server_Main.thy ===== *)
theory Server_Main
  imports Prelude
begin

text \<open>
  \<open>internal/config/config.go\<close> and \<open>cmd/server/main.go\<close>: loading the configuration, and the
  life of the server from its start to its shutdown. viper, the drivers and net/http are
  arguments: what each of their calls answers. The model is the sequence of effects.
\<close>

section \<open>Configuration\<close>

record ServerConfig =
  sc_Environment :: string
  sc_Port :: string

record RedisConfig =
  rdc_Addr :: string
  rdc_Password :: string
  rdc_DB :: int

record EtcdConfig =
  ec_Endpoints :: "string list"
  ec_DialTimeout :: int

record WorkersConfig =
  wc_OutboxInterval :: int
  wc_ReconcilerInterval :: int
  wc_ReconcilerBatchSize :: int
  wc_ReconcilerBatchDelay :: int

record StreamConfig =
  stc_HeartbeatInterval :: int
  stc_HubBufferSize :: int

record AuthConfig =
  ac_AccessTokenTTL :: int
  ac_RefreshTokenTTL :: int

record Config =
  cf_Server :: ServerConfig
  cf_MySQL_DSN :: string
  cf_Redis :: RedisConfig
  cf_Etcd :: EtcdConfig
  cf_Workers :: WorkersConfig
  cf_Stream :: StreamConfig
  cf_Auth :: AuthConfig
  cf_RequestsPerSecond :: int

datatype read_error = ConfigFileNotFound | ReadOther string

text \<open>\<open>None\<close> is the panic of \<open>Load\<close>; a missing file is not an error.\<close>

definition Load :: "read_error option \<Rightarrow> string + Config \<Rightarrow> Config option" where
  "Load read unmarshal =
     (case read of
        Some (ReadOther e) \<Rightarrow> None
      | _ \<Rightarrow> (case unmarshal of Inl e \<Rightarrow> None | Inr cfg \<Rightarrow> Some cfg))"

section \<open>The life of the server\<close>

datatype routine = OutboxRun int | ReconcilerRun int | HubRun int | WatcherRun | Serve string

datatype effect =
    NewRedis RedisConfig | PingRedis | CloseRedis
  | NewEtcd EtcdConfig | CloseEtcd
  | OpenMySQL string | AutoMigrate
  | Go routine
  | WaitSignal | CancelContext | ShutdownHTTP

datatype run_error = RedisError string | EtcdError' string | MySQLError string | MigrateError string | ForcedShutdown string

text \<open>The answers of the world, \<open>None\<close> for success.\<close>

record world =
  wd_Ping :: "string option"
  wd_Etcd :: "string option"
  wd_Open :: "string option"
  wd_Migrate :: "string option"
  wd_Shutdown :: "string option"

definition initRedis :: "world \<Rightarrow> RedisConfig \<Rightarrow> run_error option \<times> effect list" where
  "initRedis w cfg = (map_option RedisError (wd_Ping w), [NewRedis cfg, PingRedis])"

definition initEtcd :: "world \<Rightarrow> EtcdConfig \<Rightarrow> run_error option \<times> effect list" where
  "initEtcd w cfg = (map_option EtcdError' (wd_Etcd w), [NewEtcd cfg])"

definition initDB :: "world \<Rightarrow> string \<Rightarrow> run_error option \<times> effect list" where
  "initDB w dsn =
     (case wd_Open w of
        Some e \<Rightarrow> (Some (MySQLError e), [OpenMySQL dsn])
      | None \<Rightarrow> (map_option MigrateError (wd_Migrate w), [OpenMySQL dsn, AutoMigrate]))"

definition start_routines :: "Config \<Rightarrow> effect list" where
  "start_routines cfg =
     [Go (OutboxRun (wc_OutboxInterval (cf_Workers cfg))),
      Go (ReconcilerRun (wc_ReconcilerInterval (cf_Workers cfg))),
      Go (HubRun (stc_HeartbeatInterval (cf_Stream cfg))),
      Go WatcherRun,
      Go (Serve (sc_Port (cf_Server cfg)))]"

text \<open>\<open>run\<close>, as \<open>server_run\<close>, with the deferred calls where they happen.\<close>

definition server_run :: "world \<Rightarrow> Config \<Rightarrow> run_error option \<times> effect list" where
  "server_run w cfg =
     (case initRedis w (cf_Redis cfg) of
        (Some e, a1) \<Rightarrow> (Some e, a1 @ [CancelContext])
      | (None, a1) \<Rightarrow>
          (case initEtcd w (cf_Etcd cfg) of
             (Some e, a2) \<Rightarrow> (Some e, a1 @ a2 @ [CloseRedis, CancelContext])
           | (None, a2) \<Rightarrow>
               (case initDB w (cf_MySQL_DSN cfg) of
                  (Some e, a3) \<Rightarrow> (Some e, a1 @ a2 @ a3 @ [CloseEtcd, CloseRedis, CancelContext])
                | (None, a3) \<Rightarrow>
                    (map_option ForcedShutdown (wd_Shutdown w),
                     a1 @ a2 @ a3 @ start_routines cfg @
                       [WaitSignal, CancelContext, ShutdownHTTP, CloseEtcd, CloseRedis, CancelContext]))))"

text \<open>\<open>main\<close>: the exit code; \<open>None\<close> is a panic.\<close>

definition main_program :: "read_error option \<Rightarrow> string + Config \<Rightarrow> world \<Rightarrow> (int \<times> effect list) option" where
  "main_program read unmarshal w =
     (case Load read unmarshal of
        None \<Rightarrow> None
      | Some cfg \<Rightarrow> (case server_run w cfg of (err, acts) \<Rightarrow> Some (if err = None then 0 else 1, acts)))"

text \<open>A background routine that makes a ticker panics, and with it the process, if the interval is not positive.\<close>

fun routine_panics :: "routine \<Rightarrow> bool" where
  "routine_panics (OutboxRun i) \<longleftrightarrow> i \<le> 0"
| "routine_panics (ReconcilerRun i) \<longleftrightarrow> i \<le> 0"
| "routine_panics (HubRun i) \<longleftrightarrow> i \<le> 0"
| "routine_panics WatcherRun \<longleftrightarrow> False"
| "routine_panics (Serve p) \<longleftrightarrow> False"

section \<open>What start and shutdown guarantee\<close>

definition started_in :: "effect list \<Rightarrow> routine list" where
  "started_in acts = List.map_filter (\<lambda>a. case a of Go r \<Rightarrow> Some r | _ \<Rightarrow> None) acts"

definition all_up :: "world \<Rightarrow> bool" where
  "all_up w \<longleftrightarrow> wd_Ping w = None \<and> wd_Etcd w = None \<and> wd_Open w = None \<and> wd_Migrate w = None"

text \<open>
  No routine starts before redis, etcd and the database have answered; the clients that were
  handed out are closed on every path, in the reverse order of their opening (the database
  never is); the routines are cancelled before the HTTP server is shut down; and the run
  fails exactly if something did not come up or the shutdown timed out.
\<close>

theorem server_lifecycle:
  assumes "server_run w cfg = (err, acts)"
  shows "(err = None \<longleftrightarrow> all_up w \<and> wd_Shutdown w = None) \<and>
    (if all_up w
     then started_in acts = [OutboxRun (wc_OutboxInterval (cf_Workers cfg)), ReconcilerRun (wc_ReconcilerInterval (cf_Workers cfg)),
         HubRun (stc_HeartbeatInterval (cf_Stream cfg)), WatcherRun, Serve (sc_Port (cf_Server cfg))] \<and>
       (\<exists>pre. acts = pre @ [WaitSignal, CancelContext, ShutdownHTTP, CloseEtcd, CloseRedis, CancelContext])
     else started_in acts = []) \<and>
    filter (\<lambda>a. a \<in> {CloseRedis, CloseEtcd}) acts =
      (if wd_Ping w \<noteq> None then [] else if wd_Etcd w \<noteq> None then [CloseRedis] else [CloseEtcd, CloseRedis]) \<and>
    last acts = CancelContext"
proof (cases "all_up w")
  case True
  with assms show ?thesis
    by (auto simp: all_up_def server_run_def initRedis_def initEtcd_def initDB_def start_routines_def started_in_def map_filter_simps)
next
  case False
  then consider e where "wd_Ping w = Some e" | e where "wd_Ping w = None" "wd_Etcd w = Some e"
    | e where "wd_Ping w = None" "wd_Etcd w = None" "wd_Open w = Some e"
    | e where "wd_Ping w = None" "wd_Etcd w = None" "wd_Open w = None" "wd_Migrate w = Some e"
    by (metis all_up_def not_None_eq)
  then show ?thesis using False assms
    by cases (auto simp: server_run_def initRedis_def initEtcd_def initDB_def started_in_def map_filter_simps)
qed

text \<open>The shipped configuration file, and what happens without any of its intervals.\<close>

definition shipped_config :: Config where
  "shipped_config = \<lparr>cf_Server = \<lparr>sc_Environment = ''dev'', sc_Port = ''0.0.0.0:8080''\<rparr>,
     cf_MySQL_DSN = ''root:root@tcp(localhost:3307)/mizuflow?charset=utf8mb4&parseTime=True&loc=Local'',
     cf_Redis = \<lparr>rdc_Addr = ''localhost:6379'', rdc_Password = [], rdc_DB = 0\<rparr>,
     cf_Etcd = \<lparr>ec_Endpoints = [''localhost:2379''], ec_DialTimeout = 5 * 1000000000\<rparr>,
     cf_Workers = \<lparr>wc_OutboxInterval = 1000000000, wc_ReconcilerInterval = 3600 * 1000000000,
       wc_ReconcilerBatchSize = 100, wc_ReconcilerBatchDelay = 50000000\<rparr>,
     cf_Stream = \<lparr>stc_HeartbeatInterval = 15 * 1000000000, stc_HubBufferSize = 4096\<rparr>,
     cf_Auth = \<lparr>ac_AccessTokenTTL = 900 * 1000000000, ac_RefreshTokenTTL = 604800 * 1000000000\<rparr>,
     cf_RequestsPerSecond = 5\<rparr>"

lemma shipped_config_runs:
  assumes "all_up w" "server_run w shipped_config = (err, acts)"
  shows "\<forall>r \<in> set (started_in acts). \<not> routine_panics r"
  using server_lifecycle [OF assms(2)] assms(1) by (simp add: shipped_config_def)

lemma zero_interval_panics:
  assumes "all_up w" "server_run w cfg = (err, acts)"
  shows "(\<exists>r \<in> set (started_in acts). routine_panics r) \<longleftrightarrow>
    wc_OutboxInterval (cf_Workers cfg) \<le> 0 \<or> wc_ReconcilerInterval (cf_Workers cfg) \<le> 0 \<or> stc_HeartbeatInterval (cf_Stream cfg) \<le> 0"
  using server_lifecycle [OF assms(2)] assms(1) by simp

end
