(* ===== verification/Load_Test.thy ===== *)
theory Load_Test
  imports Sdk_Facts Go_Double
begin

text \<open>
  \<open>loadtest/main.go\<close>: the load generator. Virtual users follow the event stream and measure
  the latency of the updates that a trigger sends through the admin interface. The atomic
  counters are a record; the connection, the lines it delivers and the clock are arguments.
\<close>

section \<open>Counters and messages\<close>

record counters =
  lt_activeClients :: int
  lt_totalconnects :: int
  lt_connectErrors :: int
  lt_messagesRx :: int
  lt_totalMessagesRx :: int
  lt_latencySum :: int
  lt_latencyCount :: int

record EventMessage =
  em_Key :: string
  em_Value :: string
  em_Version :: int
  em_UpdatedAt :: int

definition zero_event :: EventMessage where
  "zero_event = \<lparr>em_Key = [], em_Value = [], em_Version = 0, em_UpdatedAt = 0\<rparr>"

definition event_fields :: "EventMessage json_field list" where
  "event_fields =
     [(''key'', set_string em_Key_update), (''value'', set_string em_Value_update),
      (''version'', set_int 64 em_Version_update), (''updated_at'', set_int 64 em_UpdatedAt_update)]"

definition atomic_add :: "int \<Rightarrow> int \<Rightarrow> int" where
  "atomic_add d x = wrap64 (x + d)"

text \<open>\<open>strings.Contains\<close>.\<close>

fun contains :: "string \<Rightarrow> string \<Rightarrow> bool" where
  "contains s p \<longleftrightarrow> has_prefix s p \<or> (case s of [] \<Rightarrow> False | _ # s' \<Rightarrow> contains s' p)"

declare contains.simps [simp del]

section \<open>A virtual user\<close>

definition measure_latency :: "int \<Rightarrow> int \<Rightarrow> counters \<Rightarrow> counters" where
  "measure_latency now sentTime ct =
     (let latencyMicros = wrap64 (now - sentTime) in
      if 0 \<le> latencyMicros \<and> latencyMicros < 10000000
      then ct\<lparr>lt_latencySum := atomic_add latencyMicros (lt_latencySum ct),
              lt_latencyCount := atomic_add 1 (lt_latencyCount ct)\<rparr>
      else ct)"

text \<open>One line of the stream, read at \<open>now\<close>; the flag says that the user returns.\<close>

definition client_line :: "string \<Rightarrow> int \<Rightarrow> string \<Rightarrow> counters \<Rightarrow> bool \<times> counters" where
  "client_line featureKey now raw ct =
     (let line = trim_space raw in
      if \<not> has_prefix line ''data:'' then (False, ct)
      else (case unmarshal event_fields zero_event (trim_prefix line ''data:'') of
              None \<Rightarrow> (False, ct)
            | Some msg \<Rightarrow>
                (let ct1 = ct\<lparr>lt_messagesRx := atomic_add 1 (lt_messagesRx ct),
                              lt_totalMessagesRx := atomic_add 1 (lt_totalMessagesRx ct)\<rparr> in
                 if \<not> contains (em_Key msg) featureKey then (False, ct1)
                 else (case parse_int (em_Value msg) of
                         (_, Some e) \<Rightarrow> (True, ct1)
                       | (sentTime, None) \<Rightarrow> (False, measure_latency now sentTime ct1)))))"

text \<open>The lines until the user returns or the connection ends; each with the time it is read at.\<close>

fun client_lines :: "string \<Rightarrow> (int \<times> string) list \<Rightarrow> counters \<Rightarrow> counters" where
  "client_lines featureKey [] ct = ct"
| "client_lines featureKey ((now, raw) # ls) ct =
     (case client_line featureKey now raw ct of
        (True, ct1) \<Rightarrow> ct1
      | (False, ct1) \<Rightarrow> client_lines featureKey ls ct1)"

datatype connection = BadRequest | ConnectError | Status int | Stream "(int \<times> string) list"

definition runClient :: "string \<Rightarrow> connection \<Rightarrow> counters \<Rightarrow> counters" where
  "runClient featureKey con ct =
     (case con of
        BadRequest \<Rightarrow> ct
      | ConnectError \<Rightarrow> ct\<lparr>lt_connectErrors := atomic_add 1 (lt_connectErrors ct)\<rparr>
      | Status st \<Rightarrow> ct\<lparr>lt_connectErrors := atomic_add 1 (lt_connectErrors ct)\<rparr>
      | Stream ls \<Rightarrow>
          (let ct1 = client_lines featureKey ls
               (ct\<lparr>lt_activeClients := atomic_add 1 (lt_activeClients ct),
                   lt_totalconnects := atomic_add 1 (lt_totalconnects ct)\<rparr>)
           in ct1\<lparr>lt_activeClients := atomic_add (- 1) (lt_activeClients ct1)\<rparr>))"

section \<open>The trigger\<close>

text \<open>The flag that \<open>sendUpdate\<close> posts, at the time \<open>ts\<close> in microseconds.\<close>

definition update_flag :: "string \<Rightarrow> int \<Rightarrow> FeatureFlag" where
  "update_flag featureKey ts =
     zero_flag\<lparr>ff_Namespace := ''default'', ff_Env := ''dev'', ff_Key := featureKey @ ''-'' @ show_int ts,
       ff_Value := show_int ts, ff_Type := ''string''\<rparr>"

text \<open>
  The answer of \<open>login\<close> on the body of a response with status 200: an error if it is not a
  JSON object, and a panic (\<open>None\<close>) if the object has no string access_token.
\<close>

definition login_body :: "string \<Rightarrow> (unit + string) option" where
  "login_body body =
     (case json_decode body of
        Some (JObj ms, _) \<Rightarrow>
          (case map_of (rev ms) ''access_token'' of Some (JStr t) \<Rightarrow> Some (Inr t) | _ \<Rightarrow> None)
      | Some (JNull, _) \<Rightarrow> None
      | _ \<Rightarrow> Some (Inl ()))"

definition login :: "int \<times> string \<Rightarrow> (unit + string) option" where
  "login resp = (case resp of (status, body) \<Rightarrow> if status \<noteq> 200 then Some (Inl ()) else login_body body)"

text \<open>The pause between two users; \<open>None\<close> is the division by zero.\<close>

definition ramp_interval :: "int \<Rightarrow> int \<Rightarrow> int option" where
  "ramp_interval rampUp totalVUs = (if totalVUs = 0 then None else Some (sgn rampUp * sgn totalVUs * (\<bar>rampUp\<bar> div \<bar>totalVUs\<bar>)))"

text \<open>The average of a tick in milliseconds, as doubles; the last one stays if nothing was measured.\<close>

definition average_ms :: "int \<Rightarrow> int \<Rightarrow> rat \<Rightarrow> rat" where
  "average_ms latSum latCnt lastValidLatency =
     (if latCnt > 0 then fl (fl (fl (of_int latSum) / fl (of_int latCnt)) / 1000) else lastValidLatency)"

text \<open>A tick of the reporter: the rate per second, the average latency, and the counters it resets.\<close>

definition report_tick :: "rat \<Rightarrow> counters \<Rightarrow> (int \<times> rat) \<times> counters" where
  "report_tick lastValidLatency ct =
     (let rate = wrap64 (lt_messagesRx ct * 2);
          avg = average_ms (lt_latencySum ct) (lt_latencyCount ct) lastValidLatency
      in ((rate, avg), ct\<lparr>lt_messagesRx := 0, lt_latencySum := 0, lt_latencyCount := 0\<rparr>))"

section \<open>What is counted\<close>

text \<open>The effect of one line: it counts a message or not, and at most one latency below ten seconds.\<close>

definition line_effect :: "counters \<Rightarrow> counters \<Rightarrow> bool" where
  "line_effect ct ct1 \<longleftrightarrow>
     lt_activeClients ct1 = lt_activeClients ct \<and> lt_totalconnects ct1 = lt_totalconnects ct \<and>
     lt_connectErrors ct1 = lt_connectErrors ct \<and>
     (\<exists>m k :: int. 0 \<le> k \<and> k \<le> m \<and> m \<le> 1 \<and>
        lt_messagesRx ct1 = wrap64 (lt_messagesRx ct + m) \<and> lt_totalMessagesRx ct1 = wrap64 (lt_totalMessagesRx ct + m) \<and>
        lt_latencyCount ct1 = wrap64 (lt_latencyCount ct + k) \<and>
        (\<exists>x. 0 \<le> x \<and> x \<le> 9999999 * k \<and> lt_latencySum ct1 = wrap64 (lt_latencySum ct + x)))"

definition counters_int :: "counters \<Rightarrow> bool" where
  "counters_int ct \<longleftrightarrow> is_int64 (lt_messagesRx ct) \<and> is_int64 (lt_totalMessagesRx ct) \<and>
     is_int64 (lt_latencySum ct) \<and> is_int64 (lt_latencyCount ct)"

lemma line_effect_refl: "counters_int ct \<Longrightarrow> line_effect ct ct"
  unfolding line_effect_def counters_int_def
  by (intro conjI exI [of _ "0::int"]) (simp_all add: wrap64_id)

lemma measure_latency_effect:
  "counters_int ct \<Longrightarrow> \<exists>k x. 0 \<le> k \<and> k \<le> 1 \<and> 0 \<le> x \<and> x \<le> 9999999 * k \<and>
     measure_latency now t ct = ct\<lparr>lt_latencySum := wrap64 (lt_latencySum ct + x), lt_latencyCount := wrap64 (lt_latencyCount ct + k)\<rparr>"
proof -
  assume c: "counters_int ct"
  let ?l = "wrap64 (now - t)"
  show ?thesis
  proof (cases "0 \<le> ?l \<and> ?l < 10000000")
    case True
    then show ?thesis
      by (intro exI [of _ "1::int"] exI [of _ ?l]) (simp add: measure_latency_def atomic_add_def Let_def)
  next
    case False
    then show ?thesis using c
      by (intro exI [of _ "0::int"]) (auto simp: measure_latency_def Let_def counters_int_def wrap64_id)
  qed
qed

lemma client_line_effect:
  assumes "counters_int ct" "client_line fk now raw ct = (stop, ct1)"
  shows "line_effect ct ct1 \<and> counters_int ct1"
proof -
  let ?line = "trim_space raw"
  let ?ct1 = "ct\<lparr>lt_messagesRx := wrap64 (lt_messagesRx ct + 1), lt_totalMessagesRx := wrap64 (lt_totalMessagesRx ct + 1)\<rparr>"
  have one: "line_effect ct ?ct1"
    using assms(1) unfolding line_effect_def
    by (simp add: counters_int_def) (rule exI [of _ "1::int"], rule exI [of _ "0::int"], simp, rule exI [of _ "0::int"], simp)
  have two: "counters_int ?ct1" using assms(1) by (simp add: counters_int_def)
  show ?thesis
  proof (cases "has_prefix ?line ''data:''")
    case False
    with assms line_effect_refl show ?thesis by (auto simp: client_line_def Let_def)
  next
    case True
    show ?thesis
    proof (cases "unmarshal event_fields zero_event (trim_prefix ?line ''data:'')")
      case None
      with True assms line_effect_refl show ?thesis by (auto simp: client_line_def Let_def)
    next
      case (Some msg)
      obtain t err where p: "parse_int (em_Value msg) = (t, err)" by (rule prod.exhaust)
      have "client_line fk now raw ct = (if \<not> contains (em_Key msg) fk then (False, ?ct1)
          else case err of Some e \<Rightarrow> (True, ?ct1) | None \<Rightarrow> (False, measure_latency now t ?ct1))"
        using True Some p by (cases err) (simp_all add: client_line_def Let_def atomic_add_def)
      with assms(2) have c: "(stop, ct1) = (if \<not> contains (em_Key msg) fk then (False, ?ct1)
          else case err of Some e \<Rightarrow> (True, ?ct1) | None \<Rightarrow> (False, measure_latency now t ?ct1))" by simp
      show ?thesis
      proof (cases "contains (em_Key msg) fk \<and> err = None")
        case False
        with c one two show ?thesis by (auto split: option.splits if_splits)
      next
        case True
        with c have ct1: "ct1 = measure_latency now t ?ct1" by simp
        obtain k x where "0 \<le> k" "k \<le> 1" "0 \<le> x" "x \<le> 9999999 * k"
          "ct1 = ?ct1\<lparr>lt_latencySum := wrap64 (lt_latencySum ?ct1 + x), lt_latencyCount := wrap64 (lt_latencyCount ?ct1 + k)\<rparr>"
          using measure_latency_effect [OF two, of now t] unfolding ct1 by blast
        then show ?thesis unfolding line_effect_def
          by (simp add: counters_int_def) (rule exI [of _ "1::int"], rule exI [of _ k], simp, rule exI [of _ x], simp)
      qed
    qed
  qed
qed

text \<open>The counters have room for \<open>n\<close> more lines.\<close>

definition has_room :: "nat \<Rightarrow> counters \<Rightarrow> bool" where
  "has_room n ct \<longleftrightarrow> 0 \<le> lt_messagesRx ct \<and> 0 \<le> lt_totalMessagesRx ct \<and> 0 \<le> lt_latencySum ct \<and> 0 \<le> lt_latencyCount ct \<and>
     lt_messagesRx ct + int n \<le> int64_max \<and> lt_totalMessagesRx ct + int n \<le> int64_max \<and>
     lt_latencyCount ct + int n \<le> int64_max \<and> lt_latencySum ct + 9999999 * int n \<le> int64_max"

definition counted :: "nat \<Rightarrow> counters \<Rightarrow> counters \<Rightarrow> bool" where
  "counted n ct ct' \<longleftrightarrow>
     lt_activeClients ct' = lt_activeClients ct \<and> lt_totalconnects ct' = lt_totalconnects ct \<and>
     lt_connectErrors ct' = lt_connectErrors ct \<and>
     (\<exists>m k x. 0 \<le> k \<and> k \<le> m \<and> m \<le> int n \<and> 0 \<le> x \<and> x \<le> 9999999 * k \<and>
        lt_messagesRx ct' = lt_messagesRx ct + m \<and> lt_totalMessagesRx ct' = lt_totalMessagesRx ct + m \<and>
        lt_latencyCount ct' = lt_latencyCount ct + k \<and> lt_latencySum ct' = lt_latencySum ct + x)"

lemma counted_refl: "counted n ct ct"
  unfolding counted_def by (intro conjI refl exI [of _ "0::int"]) simp_all

lemma has_room_int: "has_room n ct \<Longrightarrow> counters_int ct"
  by (auto simp: has_room_def counters_int_def is_int64_def int64_min_def)

lemma line_counted:
  assumes "has_room (Suc n) ct" "line_effect ct ct1"
  shows "counted 1 ct ct1 \<and> has_room n ct1"
proof -
  from assms(2) obtain m k x where e: "0 \<le> k" "k \<le> m" "m \<le> 1" "0 \<le> x" "x \<le> 9999999 * k"
    "lt_messagesRx ct1 = wrap64 (lt_messagesRx ct + m)" "lt_totalMessagesRx ct1 = wrap64 (lt_totalMessagesRx ct + m)"
    "lt_latencyCount ct1 = wrap64 (lt_latencyCount ct + k)" "lt_latencySum ct1 = wrap64 (lt_latencySum ct + x)"
    unfolding line_effect_def by blast
  have i: "is_int64 (lt_messagesRx ct + m)" "is_int64 (lt_totalMessagesRx ct + m)" "is_int64 (lt_latencyCount ct + k)"
    "is_int64 (lt_latencySum ct + x)"
    using assms(1) e(1-5) unfolding has_room_def is_int64_def int64_min_def by auto
  note f = e(6-9)[unfolded wrap64_id [OF i(1)] wrap64_id [OF i(2)] wrap64_id [OF i(3)] wrap64_id [OF i(4)]]
  have "counted 1 ct ct1" unfolding counted_def
    using assms(2) e(1-5) f by (auto simp: line_effect_def)
  moreover have "has_room n ct1" using assms(1) e(1-5) unfolding has_room_def f by auto
  ultimately show ?thesis ..
qed

lemma counted_trans:
  assumes "counted a ct ct1" "counted b ct1 ct2" shows "counted (a + b) ct ct2"
proof -
  from assms obtain m k x m' k' x' where
    e: "0 \<le> k" "k \<le> m" "m \<le> int a" "0 \<le> x" "x \<le> 9999999 * k" "0 \<le> k'" "k' \<le> m'" "m' \<le> int b" "0 \<le> x'" "x' \<le> 9999999 * k'"
    and f: "lt_messagesRx ct1 = lt_messagesRx ct + m" "lt_totalMessagesRx ct1 = lt_totalMessagesRx ct + m"
      "lt_latencyCount ct1 = lt_latencyCount ct + k" "lt_latencySum ct1 = lt_latencySum ct + x"
      "lt_messagesRx ct2 = lt_messagesRx ct1 + m'" "lt_totalMessagesRx ct2 = lt_totalMessagesRx ct1 + m'"
      "lt_latencyCount ct2 = lt_latencyCount ct1 + k'" "lt_latencySum ct2 = lt_latencySum ct1 + x'"
    unfolding counted_def by blast
  have "\<exists>m k x. 0 \<le> k \<and> k \<le> m \<and> m \<le> int (a + b) \<and> 0 \<le> x \<and> x \<le> 9999999 * k \<and>
      lt_messagesRx ct2 = lt_messagesRx ct + m \<and> lt_totalMessagesRx ct2 = lt_totalMessagesRx ct + m \<and>
      lt_latencyCount ct2 = lt_latencyCount ct + k \<and> lt_latencySum ct2 = lt_latencySum ct + x"
    by (rule exI [of _ "m + m'"], rule exI [of _ "k + k'"], rule exI [of _ "x + x'"]) (use e f in simp)
  with assms show ?thesis unfolding counted_def by simp
qed

lemma client_lines_counted: "has_room (length ls) ct \<Longrightarrow> counted (length ls) ct (client_lines fk ls ct)"
proof (induction ls arbitrary: ct)
  case Nil
  show ?case by (simp add: counted_refl)
next
  case (Cons l ls)
  obtain now raw where l: "l = (now, raw)" by (rule prod.exhaust)
  obtain stop ct1 where c: "client_line fk now raw ct = (stop, ct1)" by (rule prod.exhaust)
  from Cons.prems have room: "has_room (Suc (length ls)) ct" by simp
  from client_line_effect [OF has_room_int [OF room] c] line_counted [OF room]
  have one: "counted 1 ct ct1" "has_room (length ls) ct1" by blast+
  show ?case
  proof (cases stop)
    case True
    with counted_trans [OF one(1) counted_refl [of "length ls"]] c l show ?thesis by simp
  next
    case False
    with counted_trans [OF one(1) Cons.IH [OF one(2)]] c l show ?thesis by simp
  qed
qed

section \<open>Properties\<close>

text \<open>
  The numbers of a load test are consistent: a virtual user that ends leaves the number of
  active users as it was, and has added to the two message counters the same number, at most
  the lines it received, to the number of latencies at most that, and to their sum less than
  ten seconds for each; a connection that fails counts one error and nothing else.
\<close>

theorem runClient_counts:
  assumes "case con of Stream ls \<Rightarrow> has_room (length ls) ct \<and> is_int64 (lt_activeClients ct) \<and>
      lt_activeClients ct < int64_max \<and> is_int64 (lt_totalconnects ct + 1) | _ \<Rightarrow> is_int64 (lt_connectErrors ct + 1)"
  shows "lt_activeClients (runClient fk con ct) = lt_activeClients ct \<and>
    (case con of
       BadRequest \<Rightarrow> runClient fk con ct = ct
     | Stream ls \<Rightarrow> counted (length ls) (ct\<lparr>lt_totalconnects := lt_totalconnects ct + 1\<rparr>) (runClient fk con ct)
     | _ \<Rightarrow> runClient fk con ct = ct\<lparr>lt_connectErrors := lt_connectErrors ct + 1\<rparr>)"
proof (cases con)
  case (Stream ls)
  let ?a = "lt_activeClients ct + 1"
  let ?ct = "ct\<lparr>lt_activeClients := ?a, lt_totalconnects := lt_totalconnects ct + 1\<rparr>"
  have i: "is_int64 ?a" "is_int64 (lt_totalconnects ct + 1)" "is_int64 (lt_activeClients ct)"
    using assms Stream by (auto simp: is_int64_def)
  have "has_room (length ls) ?ct" using assms Stream by (simp add: has_room_def)
  from client_lines_counted [OF this, of fk] have c: "counted (length ls) ?ct (client_lines fk ls ?ct)" .
  then have "lt_activeClients (client_lines fk ls ?ct) = ?a" by (simp add: counted_def)
  then have r: "runClient fk con ct = (client_lines fk ls ?ct)\<lparr>lt_activeClients := lt_activeClients ct\<rparr>"
    using i Stream by (simp add: runClient_def atomic_add_def Let_def)
  show ?thesis using c unfolding r [unfolded Stream] Stream counted_def by simp
qed (use assms in \<open>simp_all add: runClient_def atomic_add_def\<close>)

text \<open>
  What the trigger sends is what the users measure: a put message of the flag posted at \<open>ts\<close>,
  rendered by the stream handler as a data line and read at \<open>now\<close> less than ten seconds
  later, counts one message and the latency \<open>now - ts\<close>.
\<close>

lemma contains_prefix: "contains (p @ s) p"
  by (subst contains.simps) simp

lemma trim_space_data_json:
  "trim_space (''data:'' @ jprint (message_json m) @ [CHR 10]) = ''data:'' @ jprint (message_json m)"
proof -
  obtain s where j: "jprint (message_json m) = CHR ''{'' # s @ ''}''"
    unfolding message_json_def using jprint_obj_braces by blast
  have l: "lead_space (CHR ''d'' # t) = 0" for t
    by (simp add: lead_space_def bytes_def split: list.splits)
  have br: "trim_rev (CHR ''}'' # t) = CHR ''}'' # t" for t
  proof -
    have "trail_space (CHR ''}'' # t) = 0"
      by (cases t; cases "tl t") (auto simp: trail_space_def bytes_def)
    then show ?thesis by (subst trim_rev.simps) simp
  qed
  have "trail_space (CHR 10 # t) = 1" for t by (simp add: trail_space_def bytes_def)
  then have nl: "trim_rev (CHR 10 # CHR ''}'' # t) = CHR ''}'' # t" for t
    by (subst trim_rev.simps) (simp add: br)
  show ?thesis unfolding j using nl by (simp add: trim_space_def trim_left_nonspace [OF l])
qed

lemma fold_names:
  "fold_name ''namespace'' = ''NAMESPACE''" "fold_name ''env'' = ''ENV''" "fold_name ''key'' = ''KEY''"
  "fold_name ''value'' = ''VALUE''" "fold_name ''type'' = ''TYPE''" "fold_name ''version'' = ''VERSION''"
  "fold_name ''revision'' = ''REVISION''" "fold_name ''action'' = ''ACTION''" "fold_name ''updated_at'' = ''UPDATED_AT''"
  by code_simp+

lemma unmarshal_event_json:
  assumes "message_ok m"
  shows "unmarshal event_fields zero_event (jprint (message_json m)) =
    Some \<lparr>em_Key = msg_Key m, em_Value = msg_Value m, em_Version = msg_Version m, em_UpdatedAt = msg_UpdatedAt m\<rparr>"
proof -
  have "json_parse (jprint (message_json m)) = Some (jnorm (message_json m))"
    by (rule json_parse_jprint) (simp_all add: max_nesting_def)
  then show ?thesis
    using assms by (simp add: unmarshal_def decode_struct_def message_json_def event_fields_def find_field_def
        zero_event_def message_ok_def fold_names del: fold_name.simps)
qed

theorem update_measured:
  assumes "message_ok m" "msg_Key m = ff_Key (update_flag fk ts)" "msg_Value m = ff_Value (update_flag fk ts)"
    and "is_int64 ts" "0 \<le> now - ts" "now - ts < 10000000" "has_room 1 ct"
  shows "client_line fk now (''data:'' @ jprint (message_json m) @ [CHR 10]) ct =
    (False, ct\<lparr>lt_messagesRx := lt_messagesRx ct + 1, lt_totalMessagesRx := lt_totalMessagesRx ct + 1,
       lt_latencySum := lt_latencySum ct + (now - ts), lt_latencyCount := lt_latencyCount ct + 1\<rparr>)"
proof -
  have i: "is_int64 (lt_messagesRx ct + 1)" "is_int64 (lt_totalMessagesRx ct + 1)" "is_int64 (lt_latencyCount ct + 1)"
    "is_int64 (lt_latencySum ct + (now - ts))" "is_int64 (now - ts)"
    using assms(5,6,7) by (auto simp: has_room_def is_int64_def int64_min_def int64_max_def)
  have p: "has_prefix (''data:'' @ s) ''data:''" "trim_prefix (''data:'' @ s) ''data:'' = s" for s
    by (simp_all add: has_prefix_def trim_prefix_def)
  show ?thesis
    unfolding client_line_def trim_space_data_json p unmarshal_event_json [OF assms(1)] Let_def
    using assms(2-6) i by (simp add: update_flag_def contains_prefix parse_int_show_int atomic_add_def measure_latency_def has_prefix_def trim_prefix_def)
qed

end
