(* ===== verification/Load_Run.thy ===== *)
theory Load_Run
  imports Load_Test Http_Api
begin

text \<open>
  \<open>loadtest/main.go\<close> as a concurrent program: every virtual user and the reporter are
  goroutines that meet in the atomic counters, one atomic operation per step. Then the
  sequence of \<open>main\<close>, and the requests of the trigger, which the server understands.
\<close>

section \<open>A virtual user, operation by operation\<close>

text \<open>
  Where \<open>runClient\<close> is between two atomic operations: before the connection, with
  \<open>activeClients\<close> counted, in the loop, with a message counted once or twice, with a latency
  added but not counted, and before its deferred decrement. It ends without a request
  (\<open>NoRequest\<close>, a URL that does not parse), with its error counted (\<open>Refused\<close>), or \<open>Finished\<close>.
\<close>

datatype user_pc =
    Dial | Active | Reading | Counted EventMessage | Received EventMessage | Summed int | Leaving | NoRequest | Refused | Finished

text \<open>
  What is outside: the connection that is made, the line the reader gives (\<open>None\<close> is an
  error) and the clock.
\<close>

fun user_next :: "string \<Rightarrow> connection \<Rightarrow> string option \<Rightarrow> int \<Rightarrow> user_pc \<times> counters \<Rightarrow> user_pc \<times> counters" where
  "user_next featureKey con line now (Dial, ct) =
     (case con of
        BadRequest \<Rightarrow> (NoRequest, ct)
      | Stream ls \<Rightarrow> (Active, ct\<lparr>lt_activeClients := atomic_add 1 (lt_activeClients ct)\<rparr>)
      | _ \<Rightarrow> (Refused, ct\<lparr>lt_connectErrors := atomic_add 1 (lt_connectErrors ct)\<rparr>))"
| "user_next featureKey con line now (Active, ct) =
     (Reading, ct\<lparr>lt_totalconnects := atomic_add 1 (lt_totalconnects ct)\<rparr>)"
| "user_next featureKey con line now (Reading, ct) =
     (case line of
        None \<Rightarrow> (Leaving, ct)
      | Some raw \<Rightarrow>
          (let text = trim_space raw in
           if \<not> has_prefix text ''data:'' then (Reading, ct)
           else (case unmarshal event_fields zero_event (trim_prefix text ''data:'') of
                   None \<Rightarrow> (Reading, ct)
                 | Some msg \<Rightarrow> (Counted msg, ct\<lparr>lt_messagesRx := atomic_add 1 (lt_messagesRx ct)\<rparr>))))"
| "user_next featureKey con line now (Counted msg, ct) =
     (Received msg, ct\<lparr>lt_totalMessagesRx := atomic_add 1 (lt_totalMessagesRx ct)\<rparr>)"
| "user_next featureKey con line now (Received msg, ct) =
     (if \<not> contains (em_Key msg) featureKey then (Reading, ct)
      else (case parse_int (em_Value msg) of
              (_, Some e) \<Rightarrow> (Leaving, ct)
            | (sentTime, None) \<Rightarrow>
                (let latencyMicros = wrap64 (now - sentTime) in
                 if 0 \<le> latencyMicros \<and> latencyMicros < 10000000
                 then (Summed latencyMicros, ct\<lparr>lt_latencySum := atomic_add latencyMicros (lt_latencySum ct)\<rparr>)
                 else (Reading, ct))))"
| "user_next featureKey con line now (Summed latencyMicros, ct) =
     (Reading, ct\<lparr>lt_latencyCount := atomic_add 1 (lt_latencyCount ct)\<rparr>)"
| "user_next featureKey con line now (Leaving, ct) =
     (Finished, ct\<lparr>lt_activeClients := atomic_add (- 1) (lt_activeClients ct)\<rparr>)"
| "user_next featureKey con line now (NoRequest, ct) = (NoRequest, ct)"
| "user_next featureKey con line now (Refused, ct) = (Refused, ct)"
| "user_next featureKey con line now (Finished, ct) = (Finished, ct)"

text \<open>Alone, a user handles a line as \<open>client_line\<close> does.\<close>

lemma steps_count: "(f ^^ 1) s = f s" "(f ^^ 3) s = f (f (f s))" "(f ^^ 4) s = f (f (f (f s)))"
  by (simp_all add: numeral_eq_Suc)

lemma user_line:
  assumes "client_line fk now raw ct = (stop, ct1)"
  shows "\<exists>k. (user_next fk con (Some raw) now ^^ Suc k) (Reading, ct) = (if stop then Leaving else Reading, ct1)"
proof -
  let ?line = "trim_space raw" and ?f = "user_next fk con (Some raw) now"
  consider (skip) "(stop, ct1) = (False, ct)" "?f (Reading, ct) = (Reading, ct)"
    | (msg) msg where "has_prefix ?line ''data:''" "unmarshal event_fields zero_event (trim_prefix ?line ''data:'') = Some msg"
    using assms by (auto simp: client_line_def Let_def split: option.splits if_splits)
  then show ?thesis
  proof cases
    case skip
    then show ?thesis by (intro exI [of _ 0]) simp
  next
    case (msg msg)
    obtain t err where p: "parse_int (em_Value msg) = (t, err)" by (rule prod.exhaust)
    show ?thesis
    proof (cases "contains (em_Key msg) fk \<and> err = None \<and> 0 \<le> wrap64 (now - t) \<and> wrap64 (now - t) < 10000000")
      case True
      then have "(?f ^^ 4) (Reading, ct) = (if stop then Leaving else Reading, ct1)"
        using assms msg p by (auto simp: client_line_def measure_latency_def steps_count Let_def)
      then show ?thesis by (intro exI [of _ 3]) (simp add: numeral_eq_Suc)
    next
      case False
      then have "(?f ^^ 3) (Reading, ct) = (if stop then Leaving else Reading, ct1)"
        using assms msg p by (auto simp: client_line_def measure_latency_def steps_count Let_def split: option.splits if_splits)
      then show ?thesis by (intro exI [of _ 2]) (simp add: numeral_eq_Suc)
    qed
  qed
qed

section \<open>The reporter\<close>

text \<open>Where a tick is: what it has loaded and taken so far.\<close>

datatype report_pc =
    Waiting | ActiveLoaded int | Taken int int | TotalLoaded int int int | SumTaken int int int int

record report_row =
  row_active :: int
  row_rate :: int
  row_total :: int
  row_latency :: rat
  row_latSum :: int
  row_latCnt :: int

text \<open>
  A row is what a tick reports, with the sum and the number it divided. \<open>ls_measured\<close> is not
  of the program: the latencies that the users have measured so far, to state what is counted.
\<close>

record load_state =
  ls_counters :: counters
  ls_users :: "user_pc list"
  ls_reporter :: report_pc
  ls_lastValid :: rat
  ls_rows :: "report_row list"
  ls_measured :: "int list"

definition reporter_next :: "load_state \<Rightarrow> load_state" where
  "reporter_next s =
     (let ct = ls_counters s in
      case ls_reporter s of
        Waiting \<Rightarrow> s\<lparr>ls_reporter := ActiveLoaded (lt_activeClients ct)\<rparr>
      | ActiveLoaded currentActive \<Rightarrow>
          s\<lparr>ls_counters := ct\<lparr>lt_messagesRx := 0\<rparr>, ls_reporter := Taken currentActive (lt_messagesRx ct)\<rparr>
      | Taken currentActive msgsDelta \<Rightarrow>
          s\<lparr>ls_reporter := TotalLoaded currentActive msgsDelta (lt_totalMessagesRx ct)\<rparr>
      | TotalLoaded currentActive msgsDelta msgsTotal \<Rightarrow>
          s\<lparr>ls_counters := ct\<lparr>lt_latencySum := 0\<rparr>,
            ls_reporter := SumTaken currentActive msgsDelta msgsTotal (lt_latencySum ct)\<rparr>
      | SumTaken currentActive msgsDelta msgsTotal latSum \<Rightarrow>
          (let latCnt = lt_latencyCount ct;
               avg = average_ms latSum latCnt (ls_lastValid s)
           in s\<lparr>ls_counters := ct\<lparr>lt_latencyCount := 0\<rparr>, ls_reporter := Waiting, ls_lastValid := avg,
                ls_rows := ls_rows s @ [\<lparr>row_active = currentActive, row_rate = wrap64 (msgsDelta * 2),
                  row_total = msgsTotal, row_latency = avg, row_latSum = latSum, row_latCnt = latCnt\<rparr>]\<rparr>))"

text \<open>Alone, five steps are the tick of \<open>Load_Test\<close>.\<close>

lemma reporter_alone:
  assumes "ls_reporter s = Waiting" "report_tick (ls_lastValid s) (ls_counters s) = ((rate, avg), ct1)"
  shows "(reporter_next ^^ 5) s = s\<lparr>ls_counters := ct1, ls_lastValid := avg, ls_rows := ls_rows s @
    [\<lparr>row_active = lt_activeClients (ls_counters s), row_rate = rate, row_total = lt_totalMessagesRx (ls_counters s), row_latency = avg,
      row_latSum = lt_latencySum (ls_counters s), row_latCnt = lt_latencyCount (ls_counters s)\<rparr>]\<rparr>"
  using assms by (cases s) (auto simp: numeral_eq_Suc reporter_next_def report_tick_def Let_def)

section \<open>The whole program\<close>

text \<open>
  The ramp-up starts users up to \<open>totalVUs\<close>; every goroutine may move at any time.
\<close>

fun measured :: "user_pc \<Rightarrow> int list" where
  "measured (Summed latencyMicros) = [latencyMicros]"
| "measured _ = []"

inductive load_step :: "string \<Rightarrow> int \<Rightarrow> load_state \<Rightarrow> load_state \<Rightarrow> bool" for featureKey totalVUs where
  launch: "int (length (ls_users s)) < totalVUs \<Longrightarrow> load_step featureKey totalVUs s (s\<lparr>ls_users := ls_users s @ [Dial]\<rparr>)"
| user: "i < length (ls_users s) \<Longrightarrow> user_next featureKey con line now (ls_users s ! i, ls_counters s) = (pc, ct) \<Longrightarrow>
    load_step featureKey totalVUs s (s\<lparr>ls_users := (ls_users s)[i := pc], ls_counters := ct, ls_measured := ls_measured s @ measured pc\<rparr>)"
| report: "load_step featureKey totalVUs s (reporter_next s)"

definition load_start :: load_state where
  "load_start = \<lparr>ls_counters = \<lparr>lt_activeClients = 0, lt_totalconnects = 0, lt_connectErrors = 0, lt_messagesRx = 0,
     lt_totalMessagesRx = 0, lt_latencySum = 0, lt_latencyCount = 0\<rparr>, ls_users = [], ls_reporter = Waiting,
     ls_lastValid = 0, ls_rows = [], ls_measured = []\<rparr>"

definition count_users :: "(user_pc \<Rightarrow> bool) \<Rightarrow> load_state \<Rightarrow> int" where
  "count_users P s = int (length (filter P (ls_users s)))"

fun is_active :: "user_pc \<Rightarrow> bool" where
  "is_active Dial = False" | "is_active NoRequest = False" | "is_active Refused = False" | "is_active Finished = False" | "is_active _ = True"

fun was_connected :: "user_pc \<Rightarrow> bool" where
  "was_connected Dial = False" | "was_connected Active = False" | "was_connected NoRequest = False" | "was_connected Refused = False" | "was_connected _ = True"

fun in_count :: "user_pc \<Rightarrow> bool" where
  "in_count (Counted m) = True" | "in_count _ = False"

fun in_sum :: "user_pc \<Rightarrow> bool" where
  "in_sum (Summed l) = True" | "in_sum _ = False"

text \<open>The messages a running tick has taken and not reported yet.\<close>

fun taken :: "report_pc \<Rightarrow> int" where
  "taken (Taken a d) = d" | "taken (TotalLoaded a d t) = d" | "taken (SumTaken a d t x) = d" | "taken _ = 0"

fun sum_taken :: "report_pc \<Rightarrow> int" where
  "sum_taken (SumTaken a d t x) = x" | "sum_taken _ = 0"

text \<open>The averages of the rows, each from its own operands or the one before.\<close>

fun averages :: "rat \<Rightarrow> report_row list \<Rightarrow> bool" where
  "averages v [] \<longleftrightarrow> True"
| "averages v (r # rs) \<longleftrightarrow> row_latency r = average_ms (row_latSum r) (row_latCnt r) v \<and> averages (row_latency r) rs"

lemma averages_append:
  "averages v (rs @ [r]) \<longleftrightarrow> averages v rs \<and> row_latency r = average_ms (row_latSum r) (row_latCnt r) (last (v # map row_latency rs))"
  by (induction rs arbitrary: v) auto

lemma filter_update:
  assumes "i < length xs"
  shows "int (length (filter P (xs[i := x]))) =
     int (length (filter P xs)) - (if P (xs ! i) then 1 else 0) + (if P x then 1 else 0)"
proof -
  obtain as y bs where "xs = as @ y # bs" "i = length as" using id_take_nth_drop [OF assms] assms by auto
  then show ?thesis by simp
qed

lemma count_update:
  assumes "i < length (ls_users s)"
  shows "count_users P (s\<lparr>ls_users := (ls_users s)[i := pc], ls_counters := ct, ls_measured := m\<rparr>) =
    count_users P s - (if P (ls_users s ! i) then 1 else 0) + (if P pc then 1 else 0)"
  using filter_update [OF assms] by (simp add: count_users_def)

lemma count_bounds: "0 \<le> count_users P s \<and> count_users P s \<le> int (length (ls_users s))"
  by (simp add: count_users_def)

text \<open>Equal as 64-bit numbers.\<close>

definition same64 :: "int \<Rightarrow> int \<Rightarrow> bool" where
  "same64 x y \<longleftrightarrow> 2 ^ 64 dvd (x - y)"

lemma same64_wrap64: "same64 (wrap64 x) x"
proof -
  have "wrap64 x - x = 2 ^ 64 * - ((x + 2 ^ 63) div 2 ^ 64)"
    using mult_div_mod_eq [of "2 ^ 64" "x + 2 ^ 63"] unfolding wrap64_def by linarith
  then show ?thesis unfolding same64_def by (metis dvd_triv_left)
qed

lemma same64_add: "same64 a b \<Longrightarrow> same64 c d \<Longrightarrow> same64 (a + c) (b + d)"
  unfolding same64_def using dvd_add by (fastforce simp: algebra_simps)

lemma same64_refl [simp]: "same64 a a"
  by (simp add: same64_def)

definition reported :: "load_state \<Rightarrow> int" where
  "reported s = sum_list (map row_rate (ls_rows s))"

text \<open>
  The invariant. The totals of connections and errors are exact, as their values are bounded by
  the number of users; what was reported, taken and still counted makes up the total of messages,
  as 64-bit numbers.
\<close>

definition load_inv :: "int \<Rightarrow> load_state \<Rightarrow> bool" where
  "load_inv totalVUs s \<longleftrightarrow>
     int (length (ls_users s)) \<le> max 0 totalVUs \<and>
     lt_activeClients (ls_counters s) = count_users is_active s \<and>
     lt_totalconnects (ls_counters s) = count_users was_connected s \<and>
     lt_connectErrors (ls_counters s) = count_users (\<lambda>u. u = Refused) s \<and>
     same64 (reported s + 2 * (taken (ls_reporter s) + lt_messagesRx (ls_counters s)))
       (2 * (lt_totalMessagesRx (ls_counters s) + count_users in_count s))"

lemma user_effect:
  assumes "user_next fk con line now (p, ct) = (p', ct')"
  shows "lt_activeClients ct' = (if is_active p' = is_active p then lt_activeClients ct
      else wrap64 (lt_activeClients ct + of_bool (is_active p') - of_bool (is_active p)))"
    and "lt_totalconnects ct' = (if was_connected p' = was_connected p then lt_totalconnects ct
      else wrap64 (lt_totalconnects ct + of_bool (was_connected p') - of_bool (was_connected p)))"
    and "lt_connectErrors ct' = (if p' = Refused \<and> p \<noteq> Refused then wrap64 (lt_connectErrors ct + 1) else lt_connectErrors ct)"
    and "p = Refused \<longrightarrow> p' = Refused"
    and "lt_messagesRx ct' = (if in_count p' then wrap64 (lt_messagesRx ct + 1) else lt_messagesRx ct)"
    and "lt_totalMessagesRx ct' = (if in_count p then wrap64 (lt_totalMessagesRx ct + 1) else lt_totalMessagesRx ct)"
    and "\<not> (in_count p \<and> in_count p')"
    and "lt_latencySum ct' = (if in_sum p' then wrap64 (lt_latencySum ct + sum_list (measured p')) else lt_latencySum ct)"
    and "lt_latencyCount ct' = (if in_sum p then wrap64 (lt_latencyCount ct + 1) else lt_latencyCount ct)"
    and "\<not> (in_sum p \<and> in_sum p')"
  using assms
  by (cases p; auto simp: atomic_add_def Let_def split: connection.splits option.splits prod.splits if_splits)+

lemma load_inv_start: "load_inv n load_start"
  by (simp add: load_inv_def load_start_def count_users_def reported_def)

lemma load_inv_launch:
  assumes "load_inv n s" "int (length (ls_users s)) < n"
  shows "load_inv n (s\<lparr>ls_users := ls_users s @ [Dial]\<rparr>)"
  using assms by (simp add: load_inv_def count_users_def reported_def)

lemma load_inv_report: "load_inv n s \<Longrightarrow> load_inv n (reporter_next s)"
proof (cases "ls_reporter s")
  case (SumTaken a d t x)
  assume inv: "load_inv n s"
  let ?m = "lt_messagesRx (ls_counters s)" and ?t = "2 * (lt_totalMessagesRx (ls_counters s) + count_users in_count s)"
  have "same64 (reported s + 2 * (d + ?m)) ?t" using inv SumTaken by (simp add: load_inv_def)
  then have "same64 ((reported s + 2 * (d + ?m)) + wrap64 (d * 2)) (?t + d * 2)" by (rule same64_add [OF _ same64_wrap64])
  then have "same64 (reported s + wrap64 (d * 2) + 2 * ?m) ?t" by (simp add: same64_def algebra_simps)
  with inv SumTaken show ?thesis
    by (simp add: load_inv_def reporter_next_def count_users_def reported_def Let_def algebra_simps)
qed (auto simp: load_inv_def reporter_next_def count_users_def reported_def Let_def)

lemma load_inv_user:
  assumes inv: "load_inv n s" and n: "is_int64 n" and i: "i < length (ls_users s)"
    and step: "user_next fk con line now (ls_users s ! i, ls_counters s) = (p', ct')"
  shows "load_inv n (s\<lparr>ls_users := (ls_users s)[i := p'], ls_counters := ct', ls_measured := m'\<rparr>)"
proof -
  let ?s = "s\<lparr>ls_users := (ls_users s)[i := p'], ls_counters := ct', ls_measured := m'\<rparr>"
  note E = user_effect [OF step]
  have upd: "count_users P ?s = count_users P s - of_bool (P (ls_users s ! i)) + of_bool (P p')" for P
    using count_update [OF i] by simp
  have small: "is_int64 x" if "0 \<le> x" "x \<le> int (length (ls_users s))" for x
    using that inv n by (auto simp: load_inv_def is_int64_def int64_min_def int64_max_def max_def split: if_splits)
  have len: "int (length (ls_users s)) \<le> max 0 n" using inv by (simp add: load_inv_def)
  have int: "wrap64 (count_users P ?s) = count_users P ?s" for P
    using count_bounds [of P ?s] by (intro wrap64_id small) simp_all
  have a: "lt_activeClients ct' = count_users is_active ?s"
  proof (cases "is_active p' = is_active (ls_users s ! i)")
    case False
    have "count_users is_active ?s = lt_activeClients (ls_counters s) + of_bool (is_active p') - of_bool (is_active (ls_users s ! i))"
      using inv upd [of is_active] by (simp add: load_inv_def)
    with E(1) False int [of is_active] show ?thesis by simp
  qed (use E(1) inv upd [of is_active] in \<open>simp add: load_inv_def\<close>)
  have c: "lt_totalconnects ct' = count_users was_connected ?s"
  proof (cases "was_connected p' = was_connected (ls_users s ! i)")
    case False
    have "count_users was_connected ?s = lt_totalconnects (ls_counters s) + of_bool (was_connected p') - of_bool (was_connected (ls_users s ! i))"
      using inv upd [of was_connected] by (simp add: load_inv_def)
    with E(2) False int [of was_connected] show ?thesis by simp
  qed (use E(2) inv upd [of was_connected] in \<open>simp add: load_inv_def\<close>)
  have e: "lt_connectErrors ct' = count_users (\<lambda>u. u = Refused) ?s"
  proof (cases "p' = Refused \<and> ls_users s ! i \<noteq> Refused")
    case True
    have "count_users (\<lambda>u. u = Refused) ?s = lt_connectErrors (ls_counters s) + 1"
      using inv upd [of "\<lambda>u. u = Refused"] True by (simp add: load_inv_def)
    with E(3) True int [of "\<lambda>u. u = Refused"] show ?thesis by simp
  qed (use E(3,4) inv upd [of "\<lambda>u. u = Refused"] in \<open>auto simp: load_inv_def\<close>)
  let ?m = "lt_messagesRx (ls_counters s)" and ?t = "lt_totalMessagesRx (ls_counters s)" and ?g = "count_users in_count s"
  have eq: "same64 (reported s + 2 * (taken (ls_reporter s) + ?m)) (2 * (?t + ?g))" using inv by (simp add: load_inv_def)
  have m: "same64 (lt_messagesRx ct') (?m + of_bool (in_count p'))" "same64 (?t + of_bool (in_count (ls_users s ! i))) (lt_totalMessagesRx ct')"
    using E(5,6) same64_wrap64 [of "?m + 1"] same64_wrap64 [of "?t + 1"] by (auto simp: same64_def dvd_diff_commute)
  have "same64 (reported s + 2 * (taken (ls_reporter s) + lt_messagesRx ct')) (2 * (lt_totalMessagesRx ct' + count_users in_count ?s))"
  proof -
    have "2 ^ 64 dvd ((reported s + 2 * (taken (ls_reporter s) + ?m)) - 2 * (?t + ?g)) +
        2 * (lt_messagesRx ct' - (?m + of_bool (in_count p'))) + 2 * ((?t + of_bool (in_count (ls_users s ! i))) - lt_totalMessagesRx ct')"
      using eq m unfolding same64_def by (intro dvd_add dvd_mult) auto
    then show ?thesis unfolding same64_def upd [of in_count] by (simp add: algebra_simps)
  qed
  with a c e len show ?thesis by (simp add: load_inv_def reported_def)
qed

text \<open>
  The latencies: what the rows divided, a running tick has taken and is still counted are the
  sum of all that were measured, and their number, as 64-bit numbers.
\<close>

definition row_sums :: "load_state \<Rightarrow> int" where
  "row_sums s = sum_list (map row_latSum (ls_rows s))"

definition row_counts :: "load_state \<Rightarrow> int" where
  "row_counts s = sum_list (map row_latCnt (ls_rows s))"

definition latency_inv :: "load_state \<Rightarrow> bool" where
  "latency_inv s \<longleftrightarrow>
     same64 (row_sums s + sum_taken (ls_reporter s) + lt_latencySum (ls_counters s)) (sum_list (ls_measured s)) \<and>
     same64 (row_counts s + lt_latencyCount (ls_counters s) + count_users in_sum s) (int (length (ls_measured s))) \<and>
     averages 0 (ls_rows s) \<and> ls_lastValid s = last (0 # map row_latency (ls_rows s))"

lemma latency_inv_start: "latency_inv load_start"
  by (simp add: latency_inv_def load_start_def count_users_def row_sums_def row_counts_def)

lemma latency_inv_launch: "latency_inv s \<Longrightarrow> latency_inv (s\<lparr>ls_users := ls_users s @ [Dial]\<rparr>)"
  by (simp add: latency_inv_def count_users_def row_sums_def row_counts_def)

lemma latency_inv_report: "latency_inv s \<Longrightarrow> latency_inv (reporter_next s)"
  by (cases "ls_reporter s")
    (simp_all add: latency_inv_def reporter_next_def count_users_def row_sums_def row_counts_def averages_append Let_def add_ac)

lemma latency_inv_user:
  assumes inv: "latency_inv s" and i: "i < length (ls_users s)"
    and step: "user_next fk con line now (ls_users s ! i, ls_counters s) = (p', ct')"
  shows "latency_inv (s\<lparr>ls_users := (ls_users s)[i := p'], ls_counters := ct', ls_measured := ls_measured s @ measured p'\<rparr>)"
proof -
  let ?p = "ls_users s ! i" and ?ct = "ls_counters s"
  note E = user_effect [OF step]
  have none: "measured p' = [] \<and> \<not> in_sum p' \<or> length (measured p') = 1 \<and> in_sum p'" by (cases p') auto
  have a: "same64 (lt_latencySum ct') (lt_latencySum ?ct + sum_list (measured p'))"
    using E(8) none same64_wrap64 by auto
  have b: "same64 (lt_latencyCount ct') (lt_latencyCount ?ct + of_bool (in_sum ?p))"
    using E(9) same64_wrap64 by auto
  have "same64 (row_sums s + sum_taken (ls_reporter s) + lt_latencySum ?ct) (sum_list (ls_measured s))"
    "same64 (row_counts s + lt_latencyCount ?ct + count_users in_sum s) (int (length (ls_measured s)))"
    using inv by (simp_all add: latency_inv_def)
  from same64_add [OF this(1) a] same64_add [OF this(2) b] none inv show ?thesis
    unfolding latency_inv_def count_update [OF i]
    by (auto simp: row_sums_def row_counts_def same64_def algebra_simps)
qed

lemma load_step_inv: "load_step fk n s s' \<Longrightarrow> is_int64 n \<Longrightarrow> load_inv n s \<and> latency_inv s \<Longrightarrow> load_inv n s' \<and> latency_inv s'"
  by (induction rule: load_step.induct)
    (auto intro: load_inv_launch load_inv_user load_inv_report latency_inv_launch latency_inv_user latency_inv_report)

lemma load_reachable_inv: "(load_step fk n)\<^sup>*\<^sup>* load_start s \<Longrightarrow> is_int64 n \<Longrightarrow> load_inv n s \<and> latency_inv s"
proof (induction rule: rtranclp_induct)
  case base
  show ?case by (simp add: load_inv_start latency_inv_start)
next
  case (step s t)
  from load_step_inv [OF step.hyps(2) step.prems step.IH [OF step.prems]] show ?case .
qed

section \<open>The sequence of main\<close>

datatype load_effect = TriggerLogin | StartReporter | LaunchUser int | Pause int | StartTrigger string | WaitUsers

text \<open>
  The login for the trigger: whether the trigger is still enabled, and its token; \<open>None\<close> is
  the panic of \<open>login\<close>. A login that fails turns the trigger off.
\<close>

definition trigger_setup :: "bool \<Rightarrow> (unit + string) option \<Rightarrow> (bool \<times> string) option" where
  "trigger_setup enableTrigger loginResult =
     (if \<not> enableTrigger then Some (False, [])
      else (case loginResult of
              None \<Rightarrow> None
            | Some (Inl err) \<Rightarrow> Some (False, [])
            | Some (Inr triggerToken) \<Rightarrow> Some (True, triggerToken)))"

definition ramp_up :: "int \<Rightarrow> int \<Rightarrow> load_effect list option" where
  "ramp_up rampUp totalVUs =
     map_option (\<lambda>interval. concat (map (\<lambda>i. [LaunchUser i, Pause interval]) [0..totalVUs - 1]))
       (ramp_interval rampUp totalVUs)"

text \<open>
  What \<open>main\<close> does, and whether it panics: in the login when the answer has no token, in the
  pause between two users when there are none.
\<close>

definition load_main :: "bool \<Rightarrow> (unit + string) option \<Rightarrow> int \<Rightarrow> int \<Rightarrow> load_effect list \<times> bool" where
  "load_main enableTrigger loginResult rampUp totalVUs =
     (let first = (if enableTrigger then [TriggerLogin] else []) in
      case trigger_setup enableTrigger loginResult of
        None \<Rightarrow> (first, True)
      | Some (enabled, triggerToken) \<Rightarrow>
          (case ramp_up rampUp totalVUs of
             None \<Rightarrow> (first @ [StartReporter], True)
           | Some launches \<Rightarrow>
               (first @ [StartReporter] @ launches @
                  (if enabled \<and> triggerToken \<noteq> [] then [StartTrigger triggerToken] else []) @ [WaitUsers], False)))"

section \<open>The requests of the trigger\<close>

text \<open>\<open>sendUpdate\<close>: the URL, the headers and the body; a map is encoded in the order of its keys.\<close>

record http_post =
  hp_url :: string
  hp_headers :: "(string \<times> string) list"
  hp_body :: string

definition update_body :: "string \<Rightarrow> int \<Rightarrow> string" where
  "update_body featureKey ts =
     (let f = update_flag featureKey ts in
      jprint (JObj [(''env'', JStr (ff_Env f)), (''key'', JStr (ff_Key f)), (''namespace'', JStr (ff_Namespace f)),
        (''type'', JStr (ff_Type f)), (''value'', JStr (ff_Value f))]))"

definition sendUpdate :: "string \<Rightarrow> string \<Rightarrow> string \<Rightarrow> int \<Rightarrow> http_post" where
  "sendUpdate baseURL token featureKey ts =
     \<lparr>hp_url = baseURL @ ''/v1/feature'',
      hp_headers = [(''Content-Type'', ''application/json''), (''Authorization'', ''Bearer '' @ token)],
      hp_body = update_body featureKey ts\<rparr>"

text \<open>\<open>runTriggerLoop\<close>: one request at once and one at every tick; \<open>clocks\<close> are their clock readings.\<close>

definition runTriggerLoop :: "string \<Rightarrow> string \<Rightarrow> string \<Rightarrow> int list \<Rightarrow> http_post list" where
  "runTriggerLoop baseURL token featureKey clocks = map (sendUpdate baseURL token featureKey) clocks"

definition login_request :: "string \<Rightarrow> string \<Rightarrow> string \<Rightarrow> http_post" where
  "login_request baseURL user pass =
     \<lparr>hp_url = baseURL @ ''/v1/auth/login'', hp_headers = [(''Content-Type'', ''application/json'')],
      hp_body = jprint (JObj [(''password'', JStr pass), (''username'', JStr user)])\<rparr>"

lemma json_decode_object:
  assumes "json_parse s = Some j"
  shows "\<exists>rest. json_decode s = Some (j, rest)"
  using assms by (auto simp: json_parse_def split: option.splits if_splits)

lemma fold_more_names: "fold_name ''password'' = ''PASSWORD''" "fold_name ''username'' = ''USERNAME''"
  by code_simp+

lemma ascii_show_uint: "0 \<le> i \<Longrightarrow> is_ascii (show_uint i)"
  by (auto simp: is_ascii_def is_digit_def dest!: show_uint_digits)

lemma trigger_binds:
  assumes "is_ascii featureKey"
  shows "bind_create (hp_body (sendUpdate baseURL token featureKey ts)) =
    Some \<lparr>cr_Namespace = ''default'', cr_Env = ''dev'', cr_Key = ff_Key (update_flag featureKey ts), cr_Value = show_int ts, cr_Type = ''string''\<rparr>"
proof -
  have asc: "is_ascii (show_int ts)"
    using ascii_show_uint [of ts] ascii_show_uint [of "- ts"] by (auto simp: show_int_def is_ascii_def)
  have v: "valid_utf8 (show_int ts)" "valid_utf8 (featureKey @ CHR ''-'' # show_int ts)"
    using assms asc by (auto intro!: ascii_valid simp: is_ascii_def)
  have ne: "show_int ts \<noteq> []" using show_uint_not_Nil by (auto simp: show_int_def)
  let ?j = "JObj [(''env'', JStr ''dev''), (''key'', JStr (featureKey @ CHR ''-'' # show_int ts)), (''namespace'', JStr ''default''),
      (''type'', JStr ''string''), (''value'', JStr (show_int ts))]"
  have "jnorm ?j = ?j" using v by (simp add: ascii_valid is_ascii_def)
  then have "json_parse (jprint ?j) = Some ?j"
    using json_parse_jprint [of ?j] by (simp add: max_nesting_def)
  then obtain rest where d: "json_decode (jprint ?j) = Some (?j, rest)" using json_decode_object by blast
  have "hp_body (sendUpdate baseURL token featureKey ts) = jprint ?j"
    by (simp add: sendUpdate_def update_body_def update_flag_def zero_flag_def)
  then show ?thesis
    using d ne by (simp add: bind_create_def bind_json_def decode_struct_def create_fields_def find_field_def update_flag_def
        zero_flag_def fold_names del: fold_name.simps)
qed

text \<open>
  What \<open>main\<close> starts: every user exactly once and in order, and the trigger only with a token;
  it panics in two cases.
\<close>

lemma launches_once:
  "concat (map (\<lambda>x. case x of LaunchUser i \<Rightarrow> [i] | _ \<Rightarrow> []) (concat (map (\<lambda>i. [LaunchUser i, Pause d]) xs))) = xs"
  by (induction xs) auto

lemma load_main_spec:
  "snd (load_main enableTrigger loginResult rampUp totalVUs) \<longleftrightarrow> enableTrigger \<and> loginResult = None \<or> totalVUs = 0"
  "\<not> snd (load_main enableTrigger loginResult rampUp totalVUs) \<Longrightarrow>
    concat (map (\<lambda>x. case x of LaunchUser i \<Rightarrow> [i] | _ \<Rightarrow> []) (fst (load_main enableTrigger loginResult rampUp totalVUs))) =
      [0..totalVUs - 1] \<and>
    (\<forall>token. StartTrigger token \<in> set (fst (load_main enableTrigger loginResult rampUp totalVUs)) \<longleftrightarrow>
       enableTrigger \<and> loginResult = Some (Inr token) \<and> token \<noteq> [])"
  by (auto simp: load_main_def trigger_setup_def ramp_up_def ramp_interval_def launches_once Let_def
      split: option.splits sum.splits if_splits)

section \<open>Runs\<close>

text \<open>A schedule of the goroutines, with what each step reads from outside.\<close>

datatype turn = Launch | User nat connection "string option" int | Report

fun take_turn :: "string \<Rightarrow> int \<Rightarrow> turn \<Rightarrow> load_state \<Rightarrow> load_state" where
  "take_turn featureKey totalVUs Launch s =
     (if int (length (ls_users s)) < totalVUs then s\<lparr>ls_users := ls_users s @ [Dial]\<rparr> else s)"
| "take_turn featureKey totalVUs (User i con line now) s =
     (if i < length (ls_users s)
      then (case user_next featureKey con line now (ls_users s ! i, ls_counters s) of
              (pc, ct) \<Rightarrow> s\<lparr>ls_users := (ls_users s)[i := pc], ls_counters := ct, ls_measured := ls_measured s @ measured pc\<rparr>)
      else s)"
| "take_turn featureKey totalVUs Report s = reporter_next s"

lemma turn_step: "(load_step fk n)\<^sup>*\<^sup>* s (take_turn fk n x s)"
  by (cases x) (auto intro!: r_into_rtranclp load_step.intros split: prod.split)

lemma turns_steps: "(load_step fk n)\<^sup>*\<^sup>* s (fold (take_turn fk n) xs s)"
  by (induction xs arbitrary: s) (auto intro: rtranclp_trans turn_step)

abbreviation probe_line :: string where
  "probe_line \<equiv> ''data:{\"key\":\"probe-1\",\"value\":\"1\",\"version\":1,\"updated_at\":2}''"

abbreviation probe :: "int \<Rightarrow> turn" where
  "probe now \<equiv> User 0 (Stream []) (Some probe_line) now"

text \<open>One user connects, reads one message nine seconds after it was sent; the reporter comes in between.\<close>

definition one_user :: "turn list" where
  "one_user = Launch # replicate 5 (probe 9000001)"

lemma reports: "take_turn fk n Report = reporter_next"
  by (rule ext) simp

section \<open>Properties\<close>

text \<open>
  C34. The counters of the load test are right under every interleaving of its users and its
  reporter. The active clients are those between their two counts, the connections are the
  users that got one, the errors the users whose connection was refused, exactly. The
  messages reported so far (each rate is twice the messages of half a second), those a
  running tick has taken, and those still counted are together the total, as 64-bit numbers.
  So are the two latency counters: what the rows divided, what a running tick has taken and
  what is still counted are the sum of all latencies that were measured, and their number
  (but for users between their two additions), and each reported average is the quotient of
  its own row, or the one before. When every user has ended, no client is active. What this
  does not say is that sum and number of a row belong to the same messages; they need not
  (\<open>average_race\<close>).
\<close>

theorem load_counters:
  assumes "(load_step featureKey totalVUs)\<^sup>*\<^sup>* load_start s" "is_int64 totalVUs"
  defines "ct \<equiv> ls_counters s"
  shows "lt_activeClients ct = count_users is_active s \<and>
    lt_totalconnects ct = count_users was_connected s \<and>
    lt_connectErrors ct = count_users (\<lambda>u. u = Refused) s \<and>
    same64 (reported s + 2 * (taken (ls_reporter s) + lt_messagesRx ct))
      (2 * (lt_totalMessagesRx ct + count_users in_count s)) \<and>
    same64 (row_sums s + sum_taken (ls_reporter s) + lt_latencySum ct) (sum_list (ls_measured s)) \<and>
    same64 (row_counts s + lt_latencyCount ct + count_users in_sum s) (int (length (ls_measured s))) \<and>
    averages 0 (ls_rows s) \<and>
    (set (ls_users s) \<subseteq> {NoRequest, Refused, Finished} \<longrightarrow> lt_activeClients ct = 0)"
proof -
  have "load_inv totalVUs s \<and> latency_inv s" using load_reachable_inv [OF assms(1,2)] .
  moreover have "count_users is_active s = 0" if "set (ls_users s) \<subseteq> {NoRequest, Refused, Finished}"
    using that by (auto simp: count_users_def filter_empty_conv)
  ultimately show ?thesis by (simp add: load_inv_def latency_inv_def ct_def)
qed

theorem load_counters_witness:
  "let s = fold (take_turn ''probe'' 5) (one_user @ [probe 9000001] @ replicate 5 Report) load_start in
     lt_activeClients (ls_counters s) = 1 \<and> lt_connectErrors (ls_counters s) = 0 \<and> reported s = 2 \<and>
     ls_measured s = [9000000] \<and> same64 (row_sums s) 9000000 \<and> same64 (row_counts s) 1"
proof -
  define s0 where "s0 = fold (take_turn ''probe'' 5) (one_user @ [probe 9000001]) load_start"
  define s where "s = fold (take_turn ''probe'' 5) (one_user @ [probe 9000001] @ replicate 5 Report) load_start"
  have v0: "ls_users s0 = [Reading]" "ls_reporter s0 = Waiting" "ls_rows s0 = []" "ls_measured s0 = [9000000]"
    "ls_counters s0 = \<lparr>lt_activeClients = 1, lt_totalconnects = 1, lt_connectErrors = 0, lt_messagesRx = 1,
       lt_totalMessagesRx = 1, lt_latencySum = 9000000, lt_latencyCount = 1\<rparr>"
    unfolding s0_def by code_simp+
  have s: "s = (reporter_next ^^ 5) s0" by (simp add: s_def s0_def reports del: take_turn.simps)
  have "report_tick (ls_lastValid s0) (ls_counters s0) = ((2, average_ms 9000000 1 (ls_lastValid s0)),
      ls_counters s0\<lparr>lt_messagesRx := 0, lt_latencySum := 0, lt_latencyCount := 0\<rparr>)"
    by (simp add: report_tick_def v0 wrap64_def)
  from reporter_alone [OF v0(2) this] have v: "count_users is_active s = 1" "count_users (\<lambda>u. u = Refused) s = 0"
    "reported s = 2" "count_users in_sum s = 0" "sum_taken (ls_reporter s) = 0" "lt_latencySum (ls_counters s) = 0"
    "lt_latencyCount (ls_counters s) = 0" "ls_measured s = [9000000]"
    by (simp_all add: s [symmetric] v0 count_users_def reported_def)
  have "(load_step ''probe'' 5)\<^sup>*\<^sup>* load_start s" unfolding s_def by (rule turns_steps)
  from load_counters [OF this] v show ?thesis unfolding Let_def s_def [symmetric] by (simp add: is_int64_small)
qed

text \<open>
  The reporter takes the sum and the number of the latencies one after the other. A tick that
  falls between the two counts of a user takes the sum and drops it, and the next one divides
  nothing by one: here the only latency measured is nine seconds, and both ticks report zero.
\<close>

theorem average_race:
  "let s = fold (take_turn ''probe'' 5) (one_user @ replicate 5 Report @ [probe 9000001] @ replicate 5 Report) load_start in
     (load_step ''probe'' 5)\<^sup>*\<^sup>* load_start s \<and> map row_latency (ls_rows s) = [0, 0] \<and>
     lt_latencySum (ls_counters s) = 0 \<and> lt_latencyCount (ls_counters s) = 0"
proof -
  define s0 where "s0 = fold (take_turn ''probe'' 5) one_user load_start"
  define s1 where "s1 = (reporter_next ^^ 5) s0"
  define s2 where "s2 = take_turn ''probe'' 5 (probe 9000001) s1"
  let ?s = "fold (take_turn ''probe'' 5) (one_user @ replicate 5 Report @ [probe 9000001] @ replicate 5 Report) load_start"
  have v0: "s0 = \<lparr>ls_counters = \<lparr>lt_activeClients = 1, lt_totalconnects = 1, lt_connectErrors = 0, lt_messagesRx = 1,
      lt_totalMessagesRx = 1, lt_latencySum = 9000000, lt_latencyCount = 0\<rparr>, ls_users = [Summed 9000000], ls_reporter = Waiting,
      ls_lastValid = 0, ls_rows = [], ls_measured = [9000000]\<rparr>"
    unfolding s0_def by code_simp
  have t1: "report_tick (ls_lastValid s0) (ls_counters s0) = ((2, 0), ls_counters s0\<lparr>lt_messagesRx := 0, lt_latencySum := 0, lt_latencyCount := 0\<rparr>)"
    by (simp add: report_tick_def average_ms_def v0 wrap64_def)
  have s1: "ls_reporter s1 = Waiting" "ls_lastValid s1 = 0" "map row_latency (ls_rows s1) = [0]" "ls_users s1 = [Summed 9000000]"
    "lt_latencySum (ls_counters s1) = 0" "lt_latencyCount (ls_counters s1) = 0" "lt_messagesRx (ls_counters s1) = 0"
    using reporter_alone [OF _ t1] by (simp_all add: v0 s1_def)
  have s2: "ls_reporter s2 = Waiting" "ls_lastValid s2 = 0" "map row_latency (ls_rows s2) = [0]"
    "lt_latencySum (ls_counters s2) = 0" "lt_latencyCount (ls_counters s2) = 1" "lt_messagesRx (ls_counters s2) = 0"
    using s1 by (simp_all add: s2_def atomic_add_def wrap64_def)
  have t2: "report_tick (ls_lastValid s2) (ls_counters s2) = ((0, 0), ls_counters s2\<lparr>lt_messagesRx := 0, lt_latencySum := 0, lt_latencyCount := 0\<rparr>)"
    by (simp add: report_tick_def average_ms_def s2 wrap64_def)
  have "?s = (reporter_next ^^ 5) s2" by (simp add: s0_def s1_def s2_def reports del: take_turn.simps)
  with reporter_alone [OF s2(1) t2] have "map row_latency (ls_rows ?s) = [0, 0] \<and> lt_latencySum (ls_counters ?s) = 0 \<and> lt_latencyCount (ls_counters ?s) = 0"
    by (simp add: s2)
  then show ?thesis unfolding Let_def using turns_steps by blast
qed

text \<open>
  The server understands the trigger: the body it posts binds, and the save it starts is that of
  the flag whose messages the users measure, which the validation accepts; and the middleware
  reads the token back out of its header.
\<close>

theorem trigger_understood:
  fixes baseURL :: string and ts :: int
  assumes "is_ascii featureKey" "CHR '' '' \<notin> set token" "token \<noteq> []"
  defines "rq \<equiv> sendUpdate baseURL token featureKey ts"
  shows "CreateFeature g ctx traceID (hp_body rq) d =
      (case SaveFeature g (update_flag featureKey ts) (GetOperator ctx) traceID d of
         (Inl e, job, d1) \<Rightarrow> ((500, ServiceError e), job, d1)
       | (Inr v, job, d1) \<Rightarrow> ((200, VersionBody v), job, d1)) \<and>
    validatePayload (ff_Type (update_flag featureKey ts)) (ff_Value (update_flag featureKey ts)) = None \<and>
    (map_of (hp_headers rq) ''Authorization'' = Some (rq_Authorization h) \<longrightarrow> bearer_token h = token)"
proof -
  have flag: "zero_flag\<lparr>ff_Namespace := ''default'', ff_Env := ''dev'', ff_Key := ff_Key (update_flag featureKey ts),
      ff_Value := show_int ts, ff_Version := 0, ff_Type := ''string''\<rparr> = update_flag featureKey ts"
    by (simp add: update_flag_def zero_flag_def)
  have "bearer_token h = token" if "rq_Authorization h = ''Bearer '' @ token"
    using bearer_split [OF assms(2,3) that] .
  then show ?thesis
    unfolding CreateFeature_def rq_def trigger_binds [OF assms(1)]
    by (simp add: flag) (simp add: sendUpdate_def update_flag_def validatePayload_def TypeBool_def TypeNumber_def TypeStrategy_def
        TypeJSON_def TypeString_def)
qed

end
