(* ===== verification/Spec2Isabelle.thy ===== *)
theory Spec2Isabelle
  imports Revision_Buffer Feature_Cache Etcd_Repo Sdk_Facts Feature_Hub Http_Api Recon_Cluster Sdk_Loops Flag_Typing Metrics Logger Api_Spec Stream_Cuts Gin_Chain Server_Main Load_Run
begin

text \<open>
  MizuFlow, a control plane for feature flags, and its Go SDK.

  The program. An operator changes a flag over HTTP (\<open>internal/api\<close>,
  \<open>internal/middleware\<close>). The feature service (\<open>internal/service/feature.go\<close>) writes the
  master record, an audit record and an outbox task in one MySQL transaction
  (\<open>internal/repository\<close>) and starts a goroutine that copies the flag to etcd; the outbox
  worker and the reconciler (\<open>worker.go\<close>, \<open>reconciler.go\<close>) copy what that goroutine did not.
  Every copy goes through the compare-and-swap loop of \<open>repository/etcd.go\<close>. The service
  watches etcd, keeps a cache of all flags and a ring of the last messages
  (\<open>cache.go\<close>, \<open>internal/buffer\<close>) and publishes each change to the hub (\<open>hub.go\<close>), which
  fans it out to the open streams (\<open>stream_handler.go\<close>). The SDK (\<open>client/client.go\<close>) follows
  one stream, evaluates flags locally and saves a snapshot of them to a file.

  The model, theory by theory. Structs are records whose fields keep the source's names
  behind a prefix; pointers that may be nil, and calls that may panic, are options (\<open>None\<close>
  is nil, or a panic); errors are the left values of sums; a function that changes state takes
  it and returns it. Go's \<open>int\<close> is 64 bits wide: it is an \<open>int\<close> with \<open>wrap64\<close> where the
  code computes, and the FNV hash is a 32-bit word. Strings are lists of bytes. A map is an
  association list with one entry per key (\<open>gomap\<close>), and where the code ranges over one, the
  order is an argument that is any permutation (\<open>iteration_order\<close>).

  \<^item> Prelude: \<open>wrap64\<close>, slices with bounds, \<open>gomap\<close>, \<open>fold_opt\<close> (a fold that may panic),
    iteration orders; the collection \<open>inv_intros\<close>.
  \<^item> \<open>Go_Text\<close>, \<open>Go_Float\<close>, \<open>Go_Json\<close>, \<open>Go_Json_Facts\<close>: what the program uses of \<open>strings\<close>,
    \<open>strconv\<close>, \<open>hash/fnv\<close> and \<open>encoding/json\<close>. The JSON reader has fuel
    \<open>2 * length s + 2\<close>; \<open>json_decode_fuel\<close> shows that more changes nothing. Printing and
    reading back is the identity up to the replacement of invalid UTF-8. \<open>Json_Typing\<close>: what
    is decoded is valid UTF-8 and in the range of its Go type. \<open>Go_Double\<close>: \<open>fl\<close>, the rounding
    of a result to a double, and bounds for it.
  \<^item> \<open>Api_Types\<close>: \<open>pkg/api/v1\<close>, \<open>pkg/constraints\<close>, \<open>internal/model\<close>, the key scheme of
    \<open>feature.go\<close>; encoding and decoding of flags and messages (locale \<open>flag_codec\<close>).
  \<^item> \<open>Revision_Buffer\<close>: the ring, with its binary search as in \<open>sort.Search\<close>. It refines the
    bounded log of the last messages (locale \<open>replay_log\<close>), and a positive answer misses
    nothing of the whole history.
  \<^item> \<open>Feature_Cache\<close>: the snapshot cache.
  \<^item> \<open>Etcd_Repo\<close>: \<open>SaveFeatureIfNewer\<close> round by round. etcd is the record \<open>etcd_client\<close> of its
    calls; \<open>etcd_ok\<close> states what a get and a transaction do, \<open>rely\<close> what other clients may do
    between two calls (locale \<open>versioned_store\<close>). The loop ends: it counts its failed rounds
    up to \<open>save_maxRetries = 3\<close>.
  \<^item> \<open>Mysql_Repo\<close>: every query and write of the four repositories. gorm and MySQL are the
    record \<open>gorm\<close>; \<open>db_ok\<close> states what a query, a write and a transaction do to the tables,
    up to a collation of keys and failures at any call. \<open>mem_gorm\<close> is an instance.
  \<^item> \<open>Feature_Service\<close>, \<open>Service_Facts\<close>: \<open>SaveFeature\<close>, \<open>RollbackFeature\<close>, \<open>validatePayload\<close>,
    \<open>syncToEtcd\<close>, the readers and the loop of \<open>Run\<close>. A save is all or nothing and refines an
    update of a map, but for the write of the master record, whose error the code drops:
    \<open>save_effect\<close> is the save with it, \<open>save_dropped\<close> the save without it (only if the database
    refused that row); \<open>master_writes\<close> says of a database that it never does, and is used where
    it is named only. A rollback restores; the watcher feeds buffer and cache.
  \<^item> \<open>Outbox_Worker\<close>, \<open>Recon\<close>, \<open>Delivery\<close>: the two repairers and the write path as a step
    relation (\<open>system_step\<close>) of saves, rollbacks, \<open>syncToEtcd\<close> jobs in any order, worker ticks
    and reconciler rows. Tasks drain in bounded time; the reconciler ends and visits every
    row (\<open>reconcile_loop\<close> may run for ever, so it is an option, and its termination is
    proved); a task marked completed is in etcd in every reachable state.
  \<^item> \<open>Recon_Cluster\<close>: \<open>Run\<close> of the worker, and the reconcilers of several servers as a step
    relation (\<open>cluster_step\<close>) over the small steps \<open>recon_next\<close>, with the distributed lock given by
    \<open>lock_ok\<close>. Two at work with live sessions are one; a lost session is final.
  \<^item> \<open>Api_Spec\<close>: the requests of the feature API, handled one after the other, as steps on the
    tables, which refine a map from features to version, type and value and the log of the
    audit records (\<open>api_allows\<close>, \<open>api_history\<close>).
  \<^item> \<open>Flag_Typing\<close>: the type discipline. The write path stores only values of their types, and
    a client that got such values reads each through the getter of its type.
  \<^item> \<open>Feature_Hub\<close>: one step per event of \<open>Run\<close>; the clients are a heap, because channels are
    shared with the handlers. No panic, no leak, each message once and in order along every
    run (locale \<open>mailboxes\<close>). Its calls of the observer are logged; \<open>Metrics\<close> gives them to the
    Prometheus observer of \<open>internal/metrics\<close> (locale \<open>hub_observer\<close>, with \<open>prometheus_client\<close>).
  \<^item> \<open>Sdk_Client\<close>, \<open>Sdk_Facts\<close>: the client, its stream parser on bytes, evaluation,
    reconnection and the snapshot file. Network and files are arguments.
  \<^item> \<open>Sdk_Loops\<close>: the goroutines of the client interleaved (\<open>sdk_step\<close>): the snapshot loop goes
    lock by lock while updates and fetches come in; what the cache file holds, also after a
    crash. And the watchdog and the timeout of a stream, on the times of its lines.
  \<^item> \<open>Logger\<close>: \<open>pkg/logger\<close> and the log calls of the SDK, which panic without it.
  \<^item> \<open>Stream_Api\<close>: the stream handlers; what a stream sends, exactly, whenever the hub takes the
    registration and whether the buffer answers or refuses (\<open>delivered\<close> takes the messages of
    the stream from a run of the hub).
  \<^item> \<open>Auth_Service\<close>, \<open>Rate_Limit\<close>, \<open>Http_Api\<close>: tokens and sessions over a JWT library and
    redis given by \<open>jwt_ok\<close> and \<open>redis_ok\<close>, also interleaved between the two redis calls of a
    refresh (\<open>auth_run\<close>); the token bucket with every operation rounded to a double, on clocks
    that stay near that of redis (\<open>bucket_run\<close>); request binding, the handlers and the guards
    of every route.
  \<^item> \<open>Gin_Chain\<close>: the global middlewares and the configuration of CORS, each a function of the
    rest of the chain; every request that CORS lets through is answered, whatever its handler
    does.
  \<^item> \<open>Server_Main\<close>: \<open>internal/config\<close> and \<open>cmd/server/main.go\<close> as the sequence of their effects.
  \<^item> \<open>Load_Test\<close>, \<open>Load_Run\<close>: \<open>loadtest/main.go\<close>, first a virtual user and a tick alone, then
    all of them interleaved at their atomic operations (\<open>load_step\<close>), which keeps the counters
    right; its \<open>main\<close>; and that the server understands its trigger.
  \<^item> \<open>End_To_End\<close>: from an event of etcd to the value the SDK evaluates, and the faults that
    only show in the composition. \<open>Post_To_Sdk\<close>: the whole way, from the body of a POST
    through the database, etcd, the watch, the hub and the bytes of the stream to the SDK.
    \<open>Stream_Cuts\<close>: the client over any number of connections, each refused or cut at any
    byte, registered in time or late, answered or reset (\<open>reconnect\<close>). The messages before its
    revision that it misses are tracked; there are none if every connection was timely.

  Hypotheses about third-party code are named (\<open>db_ok\<close>, \<open>etcd_ok\<close>, \<open>jwt_ok\<close>, \<open>redis_ok\<close>,
  \<open>lock_ok\<close>, \<open>prom_ok\<close>) and each is shown to hold for a concrete instance (\<open>mem_gorm\<close>,
  \<open>mem_client\<close>, \<open>unary_jwt\<close>, \<open>mem_redis\<close>, \<open>mem_lock\<close>, \<open>mem_prom\<close>), which the witnesses use.

  What does not hold is stated as well: a write of the master record that fails is reported
  as a success and two racing saves share a version (\<open>Service_Facts\<close>), a missing key is never
  repaired (\<open>Recon\<close>), a registration can come too late (\<open>Stream_Api\<close>), two refreshes that
  overlap exchange one token and a refresh token authenticates requests (\<open>Auth_Service\<close>), the
  revision of the
  snapshot never moves and accepted strategies can panic (\<open>End_To_End\<close>), one header opens the
  console (\<open>Http_Api\<close>), clocks that differ disable the rate limit (\<open>Rate_Limit\<close>), a rollback
  across a change of type keeps the new type (\<open>Flag_Typing\<close>), the default timeout cuts every
  stream and a failed save of the cache file is forgotten (\<open>Sdk_Loops\<close>), the event lag is
  always zero (\<open>Metrics\<close>), the trace id never reaches the audit records (\<open>Gin_Chain\<close>), the load
  test divides latencies by the number of others (\<open>Load_Run\<close>).

  Not modelled: the text of log lines, and the Prometheus, zap, CORS, viper and gin libraries
  themselves (third-party code, arguments of the model); the HTTP transports; the constructors
  that only store their arguments; the printing of the load test; the web console (another
  language). A method under a mutex is one step, except where \<open>Sdk_Loops\<close>, \<open>Recon_Cluster\<close> and
  \<open>Load_Run\<close> split it; a request is one step, except where \<open>Auth_Service\<close> splits a refresh and
  the race of \<open>Service_Facts\<close> a save. Infinity, past the largest double, is \<open>2 ^ 1024\<close> in \<open>fl\<close>.
\<close>

end
